(* ===== verification/Prelude.thy ===== *)
theory Prelude
  imports Main "HOL-Library.Word" "HOL-Library.AList" "HOL-Library.Product_Lexorder"
begin

text \<open>
  What the components share: names for the machine types, durations and instants, Rust's
  iterator idioms as list functions, errors of the operating system, and the contract of a
  hash map with its implementation as an association list.

  A \<open>HashMap\<close> is an association list with distinct keys. The order of the list stands for the
  order in which the map happens to iterate, which Rust leaves open: nothing is proved from it.
\<close>

section \<open>Types\<close>

type_synonym u8 = "8 word"
type_synonym u16 = "16 word"
type_synonym u32 = "32 word"
type_synonym u64 = "64 word"
type_synonym ipv4 = "32 word"
type_synonym bytes = "8 word list"

text \<open>Instants and durations count nanoseconds; unix times count seconds.\<close>

type_synonym duration = nat
type_synonym instant = nat

abbreviation from_secs :: "nat \<Rightarrow> duration" where
  "from_secs n \<equiv> n * 1000000000"

abbreviation from_mins :: "nat \<Rightarrow> duration" where
  "from_mins n \<equiv> from_secs (n * 60)"

abbreviation from_hours :: "nat \<Rightarrow> duration" where
  "from_hours n \<equiv> from_secs (n * 3600)"

abbreviation as_secs :: "duration \<Rightarrow> nat" where
  "as_secs d \<equiv> d div 1000000000"

text \<open>\<open>Duration::MAX\<close>, in nanoseconds: above it, arithmetic on durations panics.\<close>

abbreviation duration_max :: nat where
  "duration_max \<equiv> from_secs (2 ^ 64 - 1) + 999999999"

text \<open>\<open>io::Error\<close>: the kinds the code tells apart, and the errno values it looks at.\<close>

datatype io_error =
    NotFound | TimedOut | NotConnected | InvalidInput | Errno int | OtherError string

type_synonym 'a io_result = "io_error + 'a"

named_theorems dict_simps \<open>lookups in a hash map after an operation\<close>
named_theorems state_simps \<open>fields of a component's state after an operation\<close>

section \<open>Iterators\<close>

text \<open>\<open>Iterator::find_map\<close>; \<open>filter_map\<close> is the library's \<open>List.map_filter\<close>.\<close>

fun find_map :: "('a \<Rightarrow> 'b option) \<Rightarrow> 'a list \<Rightarrow> 'b option" where
  "find_map f [] = None"
| "find_map f (x # xs) = (case f x of Some y \<Rightarrow> Some y | None \<Rightarrow> find_map f xs)"

text \<open>\<open>Iterator::position\<close>.\<close>

fun position :: "('a \<Rightarrow> bool) \<Rightarrow> 'a list \<Rightarrow> nat option" where
  "position p [] = None"
| "position p (x # xs) = (if p x then Some 0 else map_option Suc (position p xs))"

text \<open>\<open>slice::get\<close>: none out of range.\<close>

definition get :: "'a list \<Rightarrow> nat \<Rightarrow> 'a option" where
  "get xs i = (if i < length xs then Some (xs ! i) else None)"

text \<open>A vector element changed in place; an index out of range changes nothing.\<close>

definition modify_nth :: "nat \<Rightarrow> ('a \<Rightarrow> 'a) \<Rightarrow> 'a list \<Rightarrow> 'a list" where
  "modify_nth i f xs = (if i < length xs then xs[i := f (xs ! i)] else xs)"

text \<open>An item appended to a vector unless it is there.\<close>

definition push_new :: "'a \<Rightarrow> 'a list \<Rightarrow> 'a list" where
  "push_new x xs = (if x \<in> set xs then xs else xs @ [x])"

lemma find_map_None: "find_map f xs = None \<longleftrightarrow> (\<forall>x\<in>set xs. f x = None)"
  by (induction xs) (auto split: option.splits)

lemma find_map_Some:
  "find_map f xs = Some y \<longleftrightarrow>
    (\<exists>ys x zs. xs = ys @ x # zs \<and> f x = Some y \<and> (\<forall>z\<in>set ys. f z = None))"
proof (induction xs)
  case Nil
  then show ?case by simp
next
  case (Cons a xs)
  show ?case
  proof (cases "f a")
    case None
    have "(\<exists>ys x zs. a # xs = ys @ x # zs \<and> f x = Some y \<and> (\<forall>z\<in>set ys. f z = None)) \<longleftrightarrow>
        (\<exists>ys x zs. xs = ys @ x # zs \<and> f x = Some y \<and> (\<forall>z\<in>set ys. f z = None))"
      (is "?l \<longleftrightarrow> ?r")
    proof
      assume ?l
      then obtain ys x zs where *: "a # xs = ys @ x # zs" "f x = Some y" "\<forall>z\<in>set ys. f z = None"
        by blast
      with None show ?r by (cases ys) auto
    next
      assume ?r
      then obtain ys x zs where "xs = ys @ x # zs" "f x = Some y" "\<forall>z\<in>set ys. f z = None"
        by blast
      with None have "a # xs = (a # ys) @ x # zs \<and> f x = Some y \<and> (\<forall>z\<in>set (a # ys). f z = None)"
        by simp
      then show ?l by blast
    qed
    with Cons None show ?thesis by simp
  next
    case (Some b)
    then show ?thesis by (auto simp: Cons_eq_append_conv) fastforce
  qed
qed

lemma find_map_SomeD: "find_map f xs = Some y \<Longrightarrow> \<exists>x\<in>set xs. f x = Some y"
  by (auto simp: find_map_Some)

lemma position_Some:
  "position p xs = Some i \<Longrightarrow> i < length xs \<and> p (xs ! i) \<and> (\<forall>j<i. \<not> p (xs ! j))"
proof (induction xs arbitrary: i)
  case Nil
  then show ?case by simp
next
  case (Cons a xs)
  show ?case
  proof (cases "p a")
    case True
    with Cons.prems show ?thesis by simp
  next
    case False
    with Cons.prems obtain k where k: "position p xs = Some k" "i = Suc k"
      by auto
    with Cons.IH False show ?thesis
      by (auto simp: less_Suc_eq_0_disj)
  qed
qed

lemma position_None: "position p xs = None \<longleftrightarrow> (\<forall>x\<in>set xs. \<not> p x)"
  by (induction xs) auto

lemma get_Some [simp]: "get xs i = Some x \<longleftrightarrow> i < length xs \<and> xs ! i = x"
  by (auto simp: get_def)

lemma get_None [simp]: "get xs i = None \<longleftrightarrow> length xs \<le> i"
  by (auto simp: get_def)

lemma length_modify_nth [simp]: "length (modify_nth i f xs) = length xs"
  by (simp add: modify_nth_def)

lemma set_push_new [simp]: "set (push_new x xs) = insert x (set xs)"
  by (auto simp: push_new_def)

lemma distinct_push_new [simp]: "distinct (push_new x xs) \<longleftrightarrow> distinct xs"
  by (auto simp: push_new_def)

lemma find_Some_in: "List.find p xs = Some x \<Longrightarrow> x \<in> set xs \<and> p x"
  by (auto simp: find_Some_iff)

lemma find_None_all: "List.find p xs = None \<Longrightarrow> x \<in> set xs \<Longrightarrow> \<not> p x"
  by (auto simp: find_None_iff)

section \<open>Hash maps\<close>

text \<open>What the code relies on when it uses a \<open>HashMap\<close>.\<close>

locale dict =
  fixes empty :: "'m"
    and lookup :: "'m \<Rightarrow> 'k \<Rightarrow> 'v option"
    and ins :: "'k \<Rightarrow> 'v \<Rightarrow> 'm \<Rightarrow> 'm"
    and rem :: "'k \<Rightarrow> 'm \<Rightarrow> 'm"
    and inv :: "'m \<Rightarrow> bool"
  assumes lookup_empty: "lookup empty k = None"
    and lookup_ins: "lookup (ins k v m) k' = (if k' = k then Some v else lookup m k')"
    and lookup_rem: "inv m \<Longrightarrow> lookup (rem k m) k' = (if k' = k then None else lookup m k')"
    and inv_empty: "inv empty"
    and inv_ins: "inv m \<Longrightarrow> inv (ins k v m)"
    and inv_rem: "inv m \<Longrightarrow> inv (rem k m)"
begin

text \<open>\<open>entry(k).or_insert(v)\<close>: what is there stays.\<close>

lemma lookup_or_insert:
  "lookup (if lookup m k = None then ins k v m else m) k' =
    (if k' = k \<and> lookup m k = None then Some v else lookup m k')"
  by (auto simp: lookup_ins)

text \<open>Inserting the pairs of an iterator one by one: the last value of a key wins.\<close>

lemma lookup_ins_all:
  "lookup (foldl (\<lambda>m (k, v). ins k v m) m ps) k' =
    (case map_of (rev ps) k' of Some v \<Rightarrow> Some v | None \<Rightarrow> lookup m k')"
  by (induction ps arbitrary: m) (auto simp: lookup_ins map_add_def split: option.splits)

lemma inv_ins_all: "inv m \<Longrightarrow> inv (foldl (\<lambda>m (k, v). ins k v m) m ps)"
  by (induction ps arbitrary: m) (auto simp: inv_ins)

text \<open>\<open>or_insert\<close> over an iterator: the first value of a key wins.\<close>

lemma lookup_or_insert_all:
  "lookup (foldl (\<lambda>m (k, v). if lookup m k = None then ins k v m else m) m ps) k' =
    (case lookup m k' of Some v \<Rightarrow> Some v | None \<Rightarrow> map_of ps k')"
proof (induction ps arbitrary: m)
  case Nil
  then show ?case by (simp split: option.splits)
next
  case (Cons p ps)
  then show ?case
    by (cases p) (simp only: foldl_Cons prod.case lookup_or_insert,
      auto split: option.splits if_splits)
qed

text \<open>Removing the keys of a list.\<close>

lemma inv_rem_all: "inv m \<Longrightarrow> inv (foldl (\<lambda>m k. rem k m) m ks)"
  by (induction ks arbitrary: m) (auto simp: inv_rem)

lemma lookup_rem_all:
  "inv m \<Longrightarrow> lookup (foldl (\<lambda>m k. rem k m) m ks) k' = (if k' \<in> set ks then None else lookup m k')"
  by (induction ks arbitrary: m) (auto simp: lookup_rem inv_rem)

end

type_synonym ('k, 'v) hashmap = "('k \<times> 'v) list"

abbreviation hm_get :: "('k, 'v) hashmap \<Rightarrow> 'k \<Rightarrow> 'v option" where
  "hm_get m \<equiv> map_of m"

abbreviation hm_insert :: "'k \<Rightarrow> 'v \<Rightarrow> ('k, 'v) hashmap \<Rightarrow> ('k, 'v) hashmap" where
  "hm_insert \<equiv> AList.update"

abbreviation hm_remove :: "'k \<Rightarrow> ('k, 'v) hashmap \<Rightarrow> ('k, 'v) hashmap" where
  "hm_remove \<equiv> AList.delete"

abbreviation hm_ok :: "('k, 'v) hashmap \<Rightarrow> bool" where
  "hm_ok m \<equiv> distinct (map fst m)"

definition hm_or_insert :: "'k \<Rightarrow> 'v \<Rightarrow> ('k, 'v) hashmap \<Rightarrow> ('k, 'v) hashmap" where
  "hm_or_insert k v m = (if map_of m k = None then AList.update k v m else m)"

definition hm_collect :: "('k \<times> 'v) list \<Rightarrow> ('k, 'v) hashmap" where
  "hm_collect ps = foldl (\<lambda>m (k, v). AList.update k v m) [] ps"

interpretation hm: dict "[]" map_of AList.update AList.delete "\<lambda>m. distinct (map fst m)"
proof unfold_locales
  fix k k' :: 'a and v :: 'b and m :: "('a \<times> 'b) list"
  show "map_of (AList.update k v m) k' = (if k' = k then Some v else map_of m k')"
    by (simp add: update_conv)
  show "map_of (AList.delete k m) k' = (if k' = k then None else map_of m k')"
    by (simp add: delete_conv)
  assume "distinct (map fst m)"
  then show "distinct (map fst (AList.update k v m))" by (rule distinct_update)
next
  fix k :: 'a and m :: "('a \<times> 'b) list"
  assume "distinct (map fst m)"
  then show "distinct (map fst (AList.delete k m))" by (rule distinct_delete)
qed simp_all

declare hm.lookup_ins [dict_simps] hm.lookup_rem [dict_simps]

lemma hm_or_insert_get [dict_simps]:
  "map_of (hm_or_insert k v m) k' = (if k' = k \<and> map_of m k = None then Some v else map_of m k')"
  using hm.lookup_or_insert [of m k v k'] by (simp add: hm_or_insert_def)

lemma hm_or_insert_ok: "hm_ok m \<Longrightarrow> hm_ok (hm_or_insert k v m)"
  by (simp add: hm_or_insert_def hm.inv_ins)

lemma hm_or_insert_all_get:
  "map_of (foldl (\<lambda>m (k, v). hm_or_insert k v m) m ps) k' =
    (case map_of m k' of Some v \<Rightarrow> Some v | None \<Rightarrow> map_of ps k')"
  using hm.lookup_or_insert_all [of m ps k'] by (simp add: hm_or_insert_def)

lemma hm_or_insert_all_ok:
  "hm_ok m \<Longrightarrow> hm_ok (foldl (\<lambda>m (k, v). hm_or_insert k v m) m ps)"
  by (induction ps arbitrary: m) (auto simp: hm_or_insert_ok)

lemma hm_collect_get: "map_of (hm_collect ps) k = map_of (rev ps) k"
  by (simp add: hm_collect_def hm.lookup_ins_all split: option.splits)

lemma hm_collect_ok: "hm_ok (hm_collect ps)"
  by (simp add: hm_collect_def hm.inv_ins_all)

text \<open>Changing the values in place keeps the keys; dropping entries keeps what is left.\<close>

lemma map_of_map_value:
  "map_of (map (\<lambda>(k, v). (k, f k v)) m) k = map_option (f k) (map_of m k)"
  by (induction m) auto

lemma keys_map_value [simp]: "map fst (map (\<lambda>(k, v). (k, f k v)) m) = map fst m"
  by (induction m) auto

lemma hm_filter_ok: "hm_ok m \<Longrightarrow> hm_ok (filter p m)"
  by (induction m) auto

lemma map_of_filter_ok:
  "hm_ok m \<Longrightarrow>
    map_of (filter p m) k = (case map_of m k of Some v \<Rightarrow> if p (k, v) then Some v else None | None \<Rightarrow> None)"
proof (induction m)
  case Nil
  then show ?case by simp
next
  case (Cons x m)
  obtain a b where x: "x = (a, b)" by (cases x)
  have "map_of m a = None"
    using Cons.prems x by (auto simp: map_of_eq_None_iff)
  with Cons x show ?case by (auto split: option.splits)
qed

lemma hm_insert_ball: "\<forall>e\<in>set m. P e \<Longrightarrow> P (k, v) \<Longrightarrow> \<forall>e\<in>set (AList.update k v m). P e"
  by (induction m) auto

lemma hm_remove_ball: "\<forall>e\<in>set m. P e \<Longrightarrow> \<forall>e\<in>set (AList.delete k m). P e"
  by (induction m) auto

lemma hm_ok_map_of: "hm_ok m \<Longrightarrow> (k, v) \<in> set m \<longleftrightarrow> map_of m k = Some v"
  by (simp add: map_of_eq_Some_iff)

end
