(* ===== verification/Rust_Str.thy ===== *)
theory Rust_Str
  imports Prelude
begin

text \<open>
  The operations of Rust's \<open>str\<close> the program uses, on ASCII text: a string is a list of
  characters, a character outside ASCII is neither white space nor a letter nor a digit. Also
  the integers and IPv4 addresses the standard library parses and prints, and the contract of a
  text format with its round trip.
\<close>

section \<open>Characters\<close>

abbreviation code_of :: "char \<Rightarrow> nat" where
  "code_of c \<equiv> of_char c"

definition NL :: char where "NL = CHR 0x0A"
definition CR :: char where "CR = CHR 0x0D"
definition TAB :: char where "TAB = CHR 0x09"

definition is_ws :: "char \<Rightarrow> bool" where
  "is_ws c = (code_of c = 32 \<or> (9 \<le> code_of c \<and> code_of c \<le> 13))"

definition is_digit :: "char \<Rightarrow> bool" where
  "is_digit c = (48 \<le> code_of c \<and> code_of c \<le> 57)"

definition is_upper :: "char \<Rightarrow> bool" where
  "is_upper c = (65 \<le> code_of c \<and> code_of c \<le> 90)"

definition is_lower :: "char \<Rightarrow> bool" where
  "is_lower c = (97 \<le> code_of c \<and> code_of c \<le> 122)"

definition is_alnum :: "char \<Rightarrow> bool" where
  "is_alnum c = (is_digit c \<or> is_upper c \<or> is_lower c)"

definition lower_char :: "char \<Rightarrow> char" where
  "lower_char c = (if is_upper c then char_of (code_of c + 32) else c)"

definition upper_char :: "char \<Rightarrow> char" where
  "upper_char c = (if is_lower c then char_of (code_of c - 32) else c)"

abbreviation to_lower :: "string \<Rightarrow> string" where
  "to_lower s \<equiv> List.map lower_char s"

abbreviation to_upper :: "string \<Rightarrow> string" where
  "to_upper s \<equiv> List.map upper_char s"

lemma is_ws_code: "is_ws c \<longleftrightarrow> code_of c \<in> {9, 10, 11, 12, 13, 32}"
  by (auto simp: is_ws_def)

lemma is_ws_special [simp]:
  "is_ws NL" "is_ws CR" "is_ws TAB" "is_ws (CHR '' '')" "\<not> is_ws (CHR ''/'')"
  "\<not> is_ws (CHR ''.'')"
  by (simp_all add: is_ws_def NL_def CR_def TAB_def)

lemma digit_not_ws: "is_digit c \<Longrightarrow> \<not> is_ws c"
  by (simp add: is_ws_def is_digit_def)

lemma alnum_not_ws: "is_alnum c \<Longrightarrow> \<not> is_ws c"
  by (auto simp: is_ws_def is_alnum_def is_digit_def is_upper_def is_lower_def)

lemma upper_code: "is_upper c \<Longrightarrow> code_of (lower_char c) = code_of c + 32"
  by (simp add: lower_char_def is_upper_def)

lemma lower_char_not_upper: "\<not> is_upper (lower_char c)"
  by (cases "is_upper c") (simp_all add: lower_char_def, simp add: is_upper_def)

lemma lower_char_idem [simp]: "lower_char (lower_char c) = lower_char c"
  by (simp add: lower_char_def [of "lower_char c"] lower_char_not_upper)

lemma lower_char_eq_dot [simp]: "lower_char c = CHR ''.'' \<longleftrightarrow> c = CHR ''.''"
proof (cases "is_upper c")
  case True
  then have "code_of (lower_char c) \<noteq> 46"
    by (simp add: upper_code) (simp add: is_upper_def)
  moreover have "code_of (CHR ''.'') = 46" by simp
  ultimately have "lower_char c \<noteq> CHR ''.''" by metis
  moreover have "c \<noteq> CHR ''.''" using True by (auto simp: is_upper_def)
  ultimately show ?thesis by simp
next
  case False
  then show ?thesis by (simp add: lower_char_def)
qed

section \<open>Cutting text\<close>

definition trim_start :: "string \<Rightarrow> string" where
  "trim_start s = dropWhile is_ws s"

definition trim_end :: "string \<Rightarrow> string" where
  "trim_end s = rev (dropWhile is_ws (rev s))"

definition trim :: "string \<Rightarrow> string" where
  "trim s = trim_end (trim_start s)"

definition trim_end_char :: "char \<Rightarrow> string \<Rightarrow> string" where
  "trim_end_char c s = rev (dropWhile (\<lambda>x. x = c) (rev s))"

definition trim_matches :: "(char \<Rightarrow> bool) \<Rightarrow> string \<Rightarrow> string" where
  "trim_matches p s = rev (dropWhile p (rev (dropWhile p s)))"

definition strip_prefix :: "string \<Rightarrow> string \<Rightarrow> string option" where
  "strip_prefix p s = (if take (length p) s = p then Some (drop (length p) s) else None)"

definition starts_with :: "string \<Rightarrow> string \<Rightarrow> bool" where
  "starts_with s p = (take (length p) s = p)"

text \<open>\<open>split_once\<close> and \<open>rsplit_once\<close>: around the first and the last occurrence.\<close>

fun split_once :: "char \<Rightarrow> string \<Rightarrow> (string \<times> string) option" where
  "split_once c [] = None"
| "split_once c (x # xs) =
     (if x = c then Some ([], xs)
      else map_option (\<lambda>(a, b). (x # a, b)) (split_once c xs))"

definition rsplit_once :: "char \<Rightarrow> string \<Rightarrow> (string \<times> string) option" where
  "rsplit_once c s = map_option (\<lambda>(a, b). (rev b, rev a)) (split_once c (rev s))"

text \<open>\<open>split\<close> on a character: always at least one piece.\<close>

fun split_on :: "char \<Rightarrow> string \<Rightarrow> string list" where
  "split_on c [] = [[]]"
| "split_on c (x # xs) =
     (if x = c then [] # split_on c xs
      else (case split_on c xs of [] \<Rightarrow> [[x]] | p # ps \<Rightarrow> (x # p) # ps))"

definition strip_cr :: "string \<Rightarrow> string" where
  "strip_cr s = (if s \<noteq> [] \<and> last s = CR then butlast s else s)"

text \<open>
  \<open>lines\<close>: a line ends at a line feed, which takes a carriage return before it along; text after
  the last line feed is a line of its own unless empty, and keeps its carriage return.
\<close>

definition lines :: "string \<Rightarrow> string list" where
  "lines s = (let ps = split_on NL s in
     map strip_cr (butlast ps) @ (if last ps = [] then [] else [last ps]))"

text \<open>\<open>split_whitespace\<close>: the maximal runs of characters that are no white space.\<close>

fun words_acc :: "string \<Rightarrow> string \<Rightarrow> string list" where
  "words_acc w [] = (if w = [] then [] else [rev w])"
| "words_acc w (x # xs) =
     (if is_ws x then (if w = [] then words_acc [] xs else rev w # words_acc [] xs)
      else words_acc (x # w) xs)"

definition split_whitespace :: "string \<Rightarrow> string list" where
  "split_whitespace s = words_acc [] s"

text \<open>\<open>join\<close> on a slice of strings.\<close>

fun join :: "string \<Rightarrow> string list \<Rightarrow> string" where
  "join sep [] = []"
| "join sep [x] = x"
| "join sep (x # y # xs) = x @ sep @ join sep (y # xs)"

lemma split_on_nonempty [simp]: "split_on c s \<noteq> []"
  by (induction s) (auto split: list.splits)

lemma split_on_no: "c \<notin> set s \<Longrightarrow> split_on c s = [s]"
  by (induction s) auto

lemma split_on_append: "c \<notin> set s \<Longrightarrow> split_on c (s @ c # t) = s # split_on c t"
  by (induction s) auto

lemma split_on_pieces: "p \<in> set (split_on c s) \<Longrightarrow> c \<notin> set p"
proof (induction s arbitrary: p)
  case Nil
  then show ?case by simp
next
  case (Cons x xs)
  then show ?case
    by (cases "split_on c xs") (auto split: if_splits)
qed

lemma split_once_None: "split_once c s = None \<longleftrightarrow> c \<notin> set s"
  by (induction s) auto

lemma split_once_Some:
  "split_once c s = Some (a, b) \<longleftrightarrow> s = a @ c # b \<and> c \<notin> set a"
proof (induction s arbitrary: a)
  case Nil
  then show ?case by simp
next
  case (Cons x xs)
  show ?case
  proof (cases "x = c")
    case True
    then show ?thesis by (cases a) auto
  next
    case False
    with Cons.IH show ?thesis by (cases a) auto
  qed
qed

lemma split_once_append: "c \<notin> set a \<Longrightarrow> split_once c (a @ c # b) = Some (a, b)"
  by (simp add: split_once_Some)

lemma split_on_split_once:
  "split_on c s = (case split_once c s of None \<Rightarrow> [s] | Some (a, b) \<Rightarrow> a # split_on c b)"
proof (cases "split_once c s")
  case None
  then have "c \<notin> set s" by (simp add: split_once_None)
  with None show ?thesis by (simp add: split_on_no)
next
  case (Some p)
  then show ?thesis
    by (cases p) (simp add: split_once_Some, auto simp: split_on_append split_once_append)
qed

lemma lines_Nil [simp]: "lines [] = []"
  by (simp add: lines_def)

lemma lines_append:
  assumes "NL \<notin> set l" "l = [] \<or> last l \<noteq> CR"
  shows "lines (l @ NL # s) = l # lines s"
  using assms by (auto simp: lines_def Let_def split_on_append strip_cr_def)

lemma lines_no_NL: "l \<in> set (lines s) \<Longrightarrow> NL \<notin> set l"
proof -
  assume "l \<in> set (lines s)"
  moreover have last: "last (split_on NL s) \<in> set (split_on NL s)" by simp
  ultimately have "(\<exists>p\<in>set (split_on NL s). l = strip_cr p) \<or> l = last (split_on NL s)"
    unfolding lines_def Let_def by (auto dest: in_set_butlastD split: if_splits)
  with last obtain p where p: "p \<in> set (split_on NL s)" "l = strip_cr p \<or> l = p"
    by blast
  then have "set l \<subseteq> set p"
    by (auto simp: strip_cr_def dest: in_set_butlastD split: if_splits)
  with split_on_pieces [OF p(1)] show ?thesis by blast
qed

lemma words_acc_word:
  "\<forall>x\<in>set a. \<not> is_ws x \<Longrightarrow> words_acc w (a @ s) = words_acc (rev a @ w) s"
  by (induction a arbitrary: w) auto

lemma split_whitespace_word:
  assumes "\<forall>x\<in>set a. \<not> is_ws x" "a \<noteq> []" "is_ws x"
  shows "split_whitespace (a @ x # s) = a # split_whitespace s"
  using assms by (simp add: split_whitespace_def words_acc_word)

lemma split_whitespace_last:
  assumes "\<forall>x\<in>set a. \<not> is_ws x" "a \<noteq> []"
  shows "split_whitespace a = [a]"
  using words_acc_word [OF assms(1), of "[]" "[]"] assms(2) by (simp add: split_whitespace_def)

lemma split_whitespace_Nil [simp]: "split_whitespace [] = []"
  by (simp add: split_whitespace_def)

lemma words_acc_no_ws:
  "\<forall>x\<in>set w. \<not> is_ws x \<Longrightarrow>
    \<forall>p\<in>set (words_acc w s). p \<noteq> [] \<and> (\<forall>x\<in>set p. \<not> is_ws x)"
proof (induction s arbitrary: w)
  case Nil
  then show ?case by simp
next
  case (Cons x xs)
  have "\<forall>p\<in>set (words_acc [] xs). p \<noteq> [] \<and> (\<forall>x\<in>set p. \<not> is_ws x)"
    by (rule Cons.IH) simp
  moreover have "\<not> is_ws x \<Longrightarrow>
      \<forall>p\<in>set (words_acc (x # w) xs). p \<noteq> [] \<and> (\<forall>x\<in>set p. \<not> is_ws x)"
    by (rule Cons.IH) (simp add: Cons.prems)
  ultimately show ?case using Cons.prems by simp
qed

lemma split_whitespace_no_ws:
  "p \<in> set (split_whitespace s) \<Longrightarrow> p \<noteq> [] \<and> (\<forall>x\<in>set p. \<not> is_ws x)"
  using words_acc_no_ws [of "[]" s] by (simp add: split_whitespace_def)

lemma split_whitespace_join:
  assumes "\<forall>w\<in>set ws. w \<noteq> [] \<and> (\<forall>x\<in>set w. \<not> is_ws x)"
  shows "split_whitespace (join '' '' ws) = ws"
  using assms
proof (induction ws)
  case Nil
  then show ?case by simp
next
  case (Cons w ws)
  then show ?case
    by (cases ws) (simp_all add: split_whitespace_word split_whitespace_last)
qed

lemma dropWhile_id: "s = [] \<or> \<not> p (hd s) \<Longrightarrow> dropWhile p s = s"
  by (cases s) auto

lemma dropWhile_none: "\<forall>x\<in>set s. \<not> p x \<Longrightarrow> dropWhile p s = s"
  by (cases s) auto

lemma trim_id: "\<forall>x\<in>set s. \<not> is_ws x \<Longrightarrow> trim s = s"
  by (simp add: trim_def trim_start_def trim_end_def dropWhile_none)

lemma set_trim: "set (trim s) \<subseteq> set s"
  by (auto simp: trim_def trim_start_def trim_end_def dest!: set_dropWhileD)

lemma trim_hd: "trim s \<noteq> [] \<Longrightarrow> \<not> is_ws (last (trim s))"
  unfolding trim_def trim_end_def
  using hd_dropWhile [of is_ws "rev (trim_start s)"] by (auto simp: last_rev)

section \<open>Numbers\<close>

definition digit_val :: "char \<Rightarrow> nat" where
  "digit_val c = code_of c - 48"

definition digit_char :: "nat \<Rightarrow> char" where
  "digit_char d = char_of (d + 48)"

definition dec_value :: "string \<Rightarrow> nat" where
  "dec_value s = foldl (\<lambda>n c. 10 * n + digit_val c) 0 s"

text \<open>\<open>parse\<close> to an unsigned integer no larger than \<open>m\<close>: an optional plus sign, then digits.\<close>

definition parse_uint :: "nat \<Rightarrow> string \<Rightarrow> nat option" where
  "parse_uint m s =
     (let d = (case s of c # cs \<Rightarrow> if c = CHR ''+'' then cs else s | [] \<Rightarrow> []) in
      if d \<noteq> [] \<and> list_all is_digit d \<and> dec_value d \<le> m then Some (dec_value d) else None)"

abbreviation parse_u8 :: "string \<Rightarrow> nat option" where "parse_u8 \<equiv> parse_uint 255"
abbreviation parse_u16 :: "string \<Rightarrow> nat option" where "parse_u16 \<equiv> parse_uint 65535"
abbreviation parse_u64 :: "string \<Rightarrow> nat option" where "parse_u64 \<equiv> parse_uint (2 ^ 64 - 1)"

fun show_nat :: "nat \<Rightarrow> string" where
  "show_nat n = (if n < 10 then [digit_char n] else show_nat (n div 10) @ [digit_char (n mod 10)])"

declare show_nat.simps [simp del]

lemma digit_char_digit: "d < 10 \<Longrightarrow> is_digit (digit_char d)"
  by (simp add: digit_char_def is_digit_def)

lemma digit_char_val: "d < 10 \<Longrightarrow> digit_val (digit_char d) = d"
  by (simp add: digit_char_def digit_val_def)

lemma dec_value_snoc: "dec_value (s @ [c]) = 10 * dec_value s + digit_val c"
  by (simp add: dec_value_def)

lemma show_nat_nonempty [simp]: "show_nat n \<noteq> []"
  by (subst show_nat.simps) simp

lemma show_nat_digits: "\<forall>c\<in>set (show_nat n). is_digit c"
proof (induction n rule: show_nat.induct)
  case (1 n)
  then show ?case
    by (subst show_nat.simps) (auto simp: digit_char_digit)
qed

lemma dec_value_show: "dec_value (show_nat n) = n"
proof (induction n rule: show_nat.induct)
  case (1 n)
  show ?case
  proof (cases "n < 10")
    case True
    then show ?thesis
      by (subst show_nat.simps) (simp add: dec_value_def digit_char_val)
  next
    case False
    with 1 show ?thesis
      by (subst show_nat.simps) (simp add: dec_value_snoc digit_char_val)
  qed
qed

lemma show_nat_no_plus: "hd (show_nat n) \<noteq> CHR ''+''"
proof -
  have "is_digit (hd (show_nat n))"
    using show_nat_digits [of n] by simp
  then show ?thesis by (auto simp: is_digit_def)
qed

lemma parse_show_uint: "n \<le> m \<Longrightarrow> parse_uint m (show_nat n) = Some n"
proof -
  assume n: "n \<le> m"
  obtain c cs where s: "show_nat n = c # cs"
    by (cases "show_nat n") auto
  have "c \<noteq> CHR ''+''" "list_all is_digit (c # cs)" "dec_value (c # cs) = n"
    using show_nat_no_plus [of n] show_nat_digits [of n] dec_value_show [of n]
    by (simp_all add: s list_all_iff)
  with n show ?thesis by (simp add: s parse_uint_def)
qed

lemma show_nat_inj: "show_nat n = show_nat m \<Longrightarrow> n = m"
  by (metis dec_value_show)

lemma show_nat_no_ws: "\<forall>c\<in>set (show_nat n). \<not> is_ws c"
  using show_nat_digits digit_not_ws by blast

lemma show_nat_leading: "show_nat n \<noteq> [] \<and> (hd (show_nat n) = CHR ''0'' \<longrightarrow> n = 0)"
proof (induction n rule: show_nat.induct)
  case (1 n)
  show ?case
  proof (cases "n < 10")
    case True
    have "digit_char n = CHR ''0'' \<Longrightarrow> n = 0"
      using digit_char_val [of n] True by (simp add: digit_val_def)
    with True show ?thesis by (subst (1 2) show_nat.simps) simp
  next
    case False
    with 1 show ?thesis
      by (subst (1 2) show_nat.simps) (auto simp: div_eq_0_iff)
  qed
qed

lemma length_show_nat: "n < 1000 \<Longrightarrow> length (show_nat n) \<le> 3"
  by (simp add: show_nat.simps [of n] show_nat.simps [of "n div 10"]
      show_nat.simps [of "n div 10 div 10"])

section \<open>IPv4 addresses\<close>

text \<open>
  \<open>Ipv4Addr::from_str\<close>: four octets of one to three digits, no leading zero but in \<open>0\<close>, between
  dots, and nothing else.
\<close>

definition parse_octet :: "string \<Rightarrow> nat option" where
  "parse_octet s =
     (if s \<noteq> [] \<and> length s \<le> 3 \<and> list_all is_digit s \<and> (hd s = CHR ''0'' \<longrightarrow> length s = 1)
         \<and> dec_value s \<le> 255
      then Some (dec_value s) else None)"

definition ip_of_octets :: "nat \<Rightarrow> nat \<Rightarrow> nat \<Rightarrow> nat \<Rightarrow> ipv4" where
  "ip_of_octets a b c d = of_nat (((a * 256 + b) * 256 + c) * 256 + d)"

definition octet :: "nat \<Rightarrow> ipv4 \<Rightarrow> nat" where
  "octet i ip = unat ip div 256 ^ (3 - i) mod 256"

definition parse_ip :: "string \<Rightarrow> ipv4 option" where
  "parse_ip s =
     (case split_on (CHR ''.'') s of
        [a, b, c, d] \<Rightarrow>
          (case (parse_octet a, parse_octet b, parse_octet c, parse_octet d) of
             (Some w, Some x, Some y, Some z) \<Rightarrow> Some (ip_of_octets w x y z)
           | _ \<Rightarrow> None)
      | _ \<Rightarrow> None)"

definition show_ip :: "ipv4 \<Rightarrow> string" where
  "show_ip ip = join ''.'' (map (\<lambda>i. show_nat (octet i ip)) [0, 1, 2, 3])"

lemma octet_bound: "octet i ip < 256"
  by (simp add: octet_def)

lemma parse_octet_show: "n \<le> 255 \<Longrightarrow> parse_octet (show_nat n) = Some n"
proof -
  assume n: "n \<le> 255"
  have "hd (show_nat n) = CHR ''0'' \<Longrightarrow> length (show_nat n) = 1"
    using show_nat_leading [of n] by (simp add: show_nat.simps [of 0])
  then show ?thesis
    using n show_nat_digits [of n] length_show_nat [of n]
    by (simp add: parse_octet_def list_all_iff dec_value_show)
qed

lemma ip_of_octets_octet: "ip_of_octets (octet 0 ip) (octet 1 ip) (octet 2 ip) (octet 3 ip) = ip"
proof -
  let ?n = "unat ip"
  have octet: "octet 0 ip = ?n div 16777216 mod 256" "octet 1 ip = ?n div 65536 mod 256"
    "octet 2 ip = ?n div 256 mod 256" "octet 3 ip = ?n mod 256"
    by (simp_all add: octet_def)
  have n: "?n < 4294967296"
    using unsigned_less [of ip, where 'a = nat] by simp
  have div: "?n div 65536 = ?n div 256 div 256" "?n div 16777216 = ?n div 256 div 256 div 256"
    by (simp_all add: div_mult2_eq [symmetric])
  have "?n div 256 div 256 div 256 < 256"
    using n by (simp add: div_mult2_eq [symmetric] div_less_iff_less_mult)
  then have "((?n div 16777216 mod 256 * 256 + ?n div 65536 mod 256) * 256 + ?n div 256 mod 256) * 256
      + ?n mod 256 = ?n"
    unfolding div using div_mult_mod_eq [of "?n div 256 div 256" 256]
      div_mult_mod_eq [of "?n div 256" 256] div_mult_mod_eq [of ?n 256] by simp
  then have "((octet 0 ip * 256 + octet 1 ip) * 256 + octet 2 ip) * 256 + octet 3 ip = ?n"
    by (simp only: octet)
  then have "ip_of_octets (octet 0 ip) (octet 1 ip) (octet 2 ip) (octet 3 ip) = of_nat ?n"
    by (simp only: ip_of_octets_def)
  then show ?thesis by simp
qed

lemma show_nat_no_dot: "CHR ''.'' \<notin> set (show_nat n)"
  using show_nat_digits [of n] by (auto simp: is_digit_def)

lemma parse_show_ip: "parse_ip (show_ip ip) = Some ip"
proof -
  have "split_on (CHR ''.'') (show_ip ip) = map (\<lambda>i. show_nat (octet i ip)) [0, 1, 2, 3]"
    using show_nat_no_dot by (simp add: show_ip_def split_on_append split_on_no)
  moreover have "parse_octet (show_nat (octet i ip)) = Some (octet i ip)" for i
    using octet_bound [of i ip] by (simp add: parse_octet_show)
  ultimately show ?thesis
    using ip_of_octets_octet [of ip] by (simp add: parse_ip_def)
qed

lemma show_ip_no_ws: "\<forall>c\<in>set (show_ip ip). \<not> is_ws c"
  by (auto simp: show_ip_def show_nat_no_ws)

lemma show_ip_nonempty: "show_ip ip \<noteq> []"
  by (simp add: show_ip_def)

lemma show_ip_inj: "show_ip a = show_ip b \<Longrightarrow> a = b"
  by (metis option.inject parse_show_ip)

section \<open>Text formats, a line per item\<close>

text \<open>
  What a file of one item per line relies on: an item that is allowed prints as a line without
  line ends, and the line parses back to it.
\<close>

locale text_format =
  fixes enc :: "'a \<Rightarrow> string" and dec :: "string \<Rightarrow> 'a option" and ok :: "'a \<Rightarrow> bool"
  assumes dec_enc: "ok x \<Longrightarrow> dec (enc x) = Some x"
begin

lemma enc_inj: "ok x \<Longrightarrow> ok y \<Longrightarrow> enc x = enc y \<Longrightarrow> x = y"
  by (metis dec_enc option.inject)

end

locale line_format = text_format +
  assumes enc_line: "ok x \<Longrightarrow> NL \<notin> set (enc x) \<and> (enc x = [] \<or> last (enc x) \<noteq> CR)"
begin

lemma lines_concat:
  "\<forall>x\<in>set xs. ok x \<Longrightarrow> lines (concat (map (\<lambda>x. enc x @ [NL]) xs)) = map enc xs"
  by (induction xs) (auto simp: lines_append enc_line)

theorem parse_lines:
  "\<forall>x\<in>set xs. ok x \<Longrightarrow>
    List.map_filter dec (lines (concat (map (\<lambda>x. enc x @ [NL]) xs))) = xs"
  by (simp add: lines_concat) (induction xs, auto simp: List.map_filter_simps dec_enc)

end

lemma not_ws_line: "\<forall>c\<in>set s. \<not> is_ws c \<Longrightarrow> NL \<notin> set s \<and> (s = [] \<or> last s \<noteq> CR)"
  by (metis is_ws_special(1,2) last_in_set)

interpretation ip_text: line_format show_ip parse_ip "\<lambda>_. True"
  by unfold_locales (simp_all add: parse_show_ip not_ws_line show_ip_no_ws)

end
