(* ===== verification/Command.thy ===== *)
theory Command
  imports Rust_Str
begin

text \<open>
  Model of \<open>src/command.rs\<close>, external programs, and of the file operations of the standard
  library the components use. Both act on a world whose type is a parameter, through the
  functions of an \<open>os\<close> record: what a program does and what a disk answers is not the code's.
  \<open>disk_ok\<close> states what the standard library documents of the file operations, and \<open>demo_os\<close> is
  a world that satisfies it.
\<close>

section \<open>The operating system\<close>

text \<open>What becomes of a child process within its limit.\<close>

datatype child =
    Not_spawned io_error
  | Input_failed io_error
  | Still_running
  | Wait_failed io_error
  | Exited bool string string string \<comment> \<open>success, the status in words, output, error output\<close>

type_synonym path = string

record 'w os =
  os_exec :: "string \<Rightarrow> string list \<Rightarrow> string option \<Rightarrow> duration \<Rightarrow> 'w \<Rightarrow> child \<times> 'w"
  os_read :: "path \<Rightarrow> 'w \<Rightarrow> string io_result"
  os_write :: "path \<Rightarrow> string \<Rightarrow> 'w \<Rightarrow> unit io_result \<times> 'w"
  os_remove :: "path \<Rightarrow> 'w \<Rightarrow> unit io_result \<times> 'w"
  os_rename :: "path \<Rightarrow> path \<Rightarrow> 'w \<Rightarrow> unit io_result \<times> 'w"
  os_list :: "path \<Rightarrow> 'w \<Rightarrow> string list io_result"

definition disk_ok :: "'w os \<Rightarrow> bool" where
  "disk_ok os \<longleftrightarrow>
     (\<forall>p t w. fst (os_write os p t w) = Inr () \<longrightarrow> os_read os p (snd (os_write os p t w)) = Inr t) \<and>
     (\<forall>p t w q. q \<noteq> p \<longrightarrow> os_read os q (snd (os_write os p t w)) = os_read os q w) \<and>
     (\<forall>p w. fst (os_remove os p w) = Inr () \<longrightarrow> os_read os p (snd (os_remove os p w)) = Inl NotFound) \<and>
     (\<forall>p w q. q \<noteq> p \<longrightarrow> os_read os q (snd (os_remove os p w)) = os_read os q w) \<and>
     (\<forall>p q w. fst (os_rename os p q w) = Inr () \<longrightarrow> os_read os q (snd (os_rename os p q w)) = os_read os p w) \<and>
     (\<forall>p q w. fst (os_rename os p q w) \<noteq> Inr () \<longrightarrow> os_read os q (snd (os_rename os p q w)) = os_read os q w) \<and>
     (\<forall>p q r w. r \<noteq> p \<longrightarrow> r \<noteq> q \<longrightarrow> os_read os r (snd (os_rename os p q w)) = os_read os r w)"

text \<open>\<open>Path::join\<close> with a relative path.\<close>

definition path_join :: "path \<Rightarrow> string \<Rightarrow> path" where
  "path_join dir name =
     (if dir = [] then name
      else if last dir = CHR ''/'' then dir @ name else dir @ CHR ''/'' # name)"

lemma path_join_inj: "path_join dir a = path_join dir b \<longleftrightarrow> a = b"
  by (simp add: path_join_def)

lemma disk_write:
  "disk_ok os \<Longrightarrow> fst (os_write os p t w) = Inr () \<Longrightarrow> os_read os p (snd (os_write os p t w)) = Inr t"
  by (simp add: disk_ok_def)

lemma disk_write_other:
  "disk_ok os \<Longrightarrow> q \<noteq> p \<Longrightarrow> os_read os q (snd (os_write os p t w)) = os_read os q w"
  by (simp add: disk_ok_def)

lemma disk_remove:
  "disk_ok os \<Longrightarrow> fst (os_remove os p w) = Inr () \<Longrightarrow>
    os_read os p (snd (os_remove os p w)) = Inl NotFound"
  by (simp add: disk_ok_def)

lemma disk_remove_other:
  "disk_ok os \<Longrightarrow> q \<noteq> p \<Longrightarrow> os_read os q (snd (os_remove os p w)) = os_read os q w"
  by (simp add: disk_ok_def)

lemma disk_rename:
  "disk_ok os \<Longrightarrow> fst (os_rename os p q w) = Inr () \<Longrightarrow>
    os_read os q (snd (os_rename os p q w)) = os_read os p w"
  by (simp add: disk_ok_def)

lemma disk_rename_err:
  "disk_ok os \<Longrightarrow> fst (os_rename os p q w) \<noteq> Inr () \<Longrightarrow>
    os_read os q (snd (os_rename os p q w)) = os_read os q w"
  by (simp add: disk_ok_def)

section \<open>Running a program\<close>

text \<open>\<open>Path::exists\<close>, for a name in a directory.\<close>

definition path_exists :: "'w os \<Rightarrow> path \<Rightarrow> string \<Rightarrow> 'w \<Rightarrow> bool" where
  "path_exists os dir name w = (case os_list os dir w of Inr ns \<Rightarrow> name \<in> set ns | Inl _ \<Rightarrow> False)"

definition run_both ::
    "'w os \<Rightarrow> string \<Rightarrow> string list \<Rightarrow> string option \<Rightarrow> duration \<Rightarrow> 'w \<Rightarrow>
      (string \<times> string) io_result \<times> 'w" where
  "run_both os program args input limit w =
     (case os_exec os program args input limit w of
        (Not_spawned e, w') \<Rightarrow> (Inl e, w')
      | (Input_failed e, w') \<Rightarrow> (Inl e, w')
      | (Still_running, w') \<Rightarrow> (Inl TimedOut, w')
      | (Wait_failed e, w') \<Rightarrow> (Inl e, w')
      | (Exited True _ out err, w') \<Rightarrow> (Inr (out, err), w')
      | (Exited False status _ err, w') \<Rightarrow>
          (Inl (OtherError (program @ '': '' @ status @ '': '' @ trim err)), w'))"

definition run ::
    "'w os \<Rightarrow> string \<Rightarrow> string list \<Rightarrow> string option \<Rightarrow> duration \<Rightarrow> 'w \<Rightarrow> string io_result \<times> 'w" where
  "run os program args input limit w =
     (case run_both os program args input limit w of
        (Inl e, w') \<Rightarrow> (Inl e, w')
      | (Inr (out, _), w') \<Rightarrow> (Inr out, w'))"

text \<open>A program's output is given only for a run that ended in time with success.\<close>

lemma run_both_Inr:
  "run_both os p args inp lim w = (Inr (out, err), w') \<longleftrightarrow>
    (\<exists>status. os_exec os p args inp lim w = (Exited True status out err, w'))"
  by (auto simp: run_both_def split: child.splits bool.splits prod.splits)

lemma run_Inr:
  "run os p args inp lim w = (Inr out, w') \<longleftrightarrow>
    (\<exists>status err. os_exec os p args inp lim w = (Exited True status out err, w'))"
  by (auto simp: run_def run_both_def split: child.splits bool.splits prod.splits)

section \<open>A world\<close>

text \<open>
  A world with a disk that never fails and a log of the programs run, newest first; the answers
  of the programs are given. Its children, its counter and its clock are for the components that
  start processes.
\<close>

type_synonym call = "string \<times> string list \<times> string option"

record world =
  wd_files :: "(path, string) hashmap"
  wd_log :: "call list"
  wd_children :: "nat list"
  wd_started :: nat
  wd_count :: u32
  wd_clock :: nat

definition demo_os :: "(call \<Rightarrow> child) \<Rightarrow> world os" where
  "demo_os answer =
     \<lparr>os_exec = \<lambda>p args inp _ w. (answer (p, args, inp), w\<lparr>wd_log := (p, args, inp) # wd_log w\<rparr>),
      os_read = \<lambda>p w. (case hm_get (wd_files w) p of None \<Rightarrow> Inl NotFound | Some t \<Rightarrow> Inr t),
      os_write = \<lambda>p t w. (Inr (), w\<lparr>wd_files := hm_insert p t (wd_files w)\<rparr>),
      os_remove = \<lambda>p w.
        (case hm_get (wd_files w) p of
           None \<Rightarrow> (Inl NotFound, w)
         | Some _ \<Rightarrow> (Inr (), w\<lparr>wd_files := filter (\<lambda>(k, _). k \<noteq> p) (wd_files w)\<rparr>)),
      os_rename = \<lambda>p q w.
        (case hm_get (wd_files w) p of
           None \<Rightarrow> (Inl NotFound, w)
         | Some t \<Rightarrow> (Inr (), w\<lparr>wd_files :=
             hm_insert q t (if p = q then wd_files w else filter (\<lambda>(k, _). k \<noteq> p) (wd_files w))\<rparr>)),
      os_list = \<lambda>d w. Inr (List.map_filter
        (\<lambda>(k, _). strip_prefix (d @ ''/'') k) (wd_files w))\<rparr>"

lemma map_of_filter_neq: "map_of (filter (\<lambda>(k, _). k \<noteq> x) t) y = (if y = x then None else map_of t y)"
  by (induction t) auto

lemma demo_os_ok: "disk_ok (demo_os answer)"
  by (auto simp: disk_ok_def demo_os_def map_of_filter_neq dict_simps split: option.splits)

definition all_well :: "call \<Rightarrow> child" where
  "all_well c = Exited True ''exit status: 0'' [] []"

end
