(* ===== verification/Lists.thy ===== *)
theory Lists
  imports Rust_Str "HOL-Library.Char_ord" "HOL-Library.List_Lexorder"
begin

unbundle bit_operations_syntax

text \<open>
  Model of \<open>src/lists.rs\<close>: subnets as an address and a prefix length, and the domain and subnet
  lists. Shown: a subnet contains exactly the addresses that agree with it on its prefix, two
  subnets overlap exactly when they share an address, every subnet of a list file is masked, and
  a name matches a list exactly when a domain of the list is the name or a parent of it.
\<close>

section \<open>Subnets\<close>

datatype subnet = Subnet (sn_addr: ipv4) (sn_prefix: u8)

text \<open>Subnets in the order of the tables of pf: by address, then by prefix.\<close>

instantiation subnet :: linorder
begin
definition less_eq_subnet :: "subnet \<Rightarrow> subnet \<Rightarrow> bool" where
  "less_eq_subnet s t = ((sn_addr s, sn_prefix s) \<le> (sn_addr t, sn_prefix t))"
definition less_subnet :: "subnet \<Rightarrow> subnet \<Rightarrow> bool" where
  "less_subnet s t = ((sn_addr s, sn_prefix s) < (sn_addr t, sn_prefix t))"
instance
proof
  fix s t u :: subnet
  show "s < t \<longleftrightarrow> s \<le> t \<and> \<not> t \<le> s" "s \<le> s" "s \<le> t \<or> t \<le> s"
    by (auto simp: less_subnet_def less_eq_subnet_def)
  show "s \<le> t \<Longrightarrow> t \<le> u \<Longrightarrow> s \<le> u"
    by (auto simp: less_eq_subnet_def)
  show "s \<le> t \<Longrightarrow> t \<le> s \<Longrightarrow> s = t"
    by (cases s; cases t) (auto simp: less_eq_subnet_def)
qed
end

definition prefix_mask :: "u8 \<Rightarrow> u32" where
  "prefix_mask p = (if p = 0 then 0 else push_bit (32 - unat p) (- 1))"

definition Subnet_host :: "ipv4 \<Rightarrow> subnet" where
  "Subnet_host ip = Subnet ip 32"

definition netmask :: "subnet \<Rightarrow> ipv4" where
  "netmask s = prefix_mask (sn_prefix s)"

definition contains :: "subnet \<Rightarrow> ipv4 \<Rightarrow> bool" where
  "contains s ip = (ip AND prefix_mask (sn_prefix s) = sn_addr s)"

definition overlaps :: "subnet \<Rightarrow> subnet \<Rightarrow> bool" where
  "overlaps s t = (contains s (sn_addr t) \<or> contains t (sn_addr s))"

definition Subnet_parse :: "string \<Rightarrow> subnet option" where
  "Subnet_parse text =
     (case (case split_once (CHR ''/'') text of
              Some (a, p) \<Rightarrow> map_option (\<lambda>n. (a, n)) (parse_u8 p)
            | None \<Rightarrow> Some (text, 32)) of
        None \<Rightarrow> None
      | Some (a, prefix) \<Rightarrow>
          if prefix > 32 then None
          else (case parse_ip a of
                  None \<Rightarrow> None
                | Some ip \<Rightarrow>
                    Some (Subnet (ip AND prefix_mask (of_nat prefix)) (of_nat prefix))))"

definition show_subnet :: "subnet \<Rightarrow> string" where
  "show_subnet s = show_ip (sn_addr s) @ ''/'' @ show_nat (unat (sn_prefix s))"

text \<open>Well-formed: what the constructors of the code make.\<close>

definition subnet_wf :: "subnet \<Rightarrow> bool" where
  "subnet_wf s = (unat (sn_prefix s) \<le> 32 \<and> sn_addr s AND prefix_mask (sn_prefix s) = sn_addr s)"

lemma bit_prefix_mask:
  "unat p \<le> 32 \<Longrightarrow> bit (prefix_mask p) n \<longleftrightarrow> 32 - unat p \<le> n \<and> n < 32"
  by (auto simp: prefix_mask_def bit_simps unat_eq_0)

lemma bit_and_mask:
  "unat p \<le> 32 \<Longrightarrow> bit (x AND prefix_mask p) n \<longleftrightarrow> bit x n \<and> 32 - unat p \<le> n \<and> n < 32"
  by (auto simp: bit_and_iff bit_prefix_mask)

lemma masked_eq_iff:
  assumes "unat p \<le> 32"
  shows "x AND prefix_mask p = y AND prefix_mask p \<longleftrightarrow>
    drop_bit (32 - unat p) x = drop_bit (32 - unat p) (y :: u32)"
proof
  assume *: "x AND prefix_mask p = y AND prefix_mask p"
  show "drop_bit (32 - unat p) x = drop_bit (32 - unat p) y"
  proof (rule bit_eqI)
    fix n assume "possible_bit TYPE(32 word) n"
    have "bit (x AND prefix_mask p) (32 - unat p + n) = bit (y AND prefix_mask p) (32 - unat p + n)"
      using * by simp
    then show "bit (drop_bit (32 - unat p) x) n = bit (drop_bit (32 - unat p) y) n"
      using bit_imp_le_length [of x "32 - unat p + n"] bit_imp_le_length [of y "32 - unat p + n"]
      by (auto simp: bit_and_mask assms bit_drop_bit_eq)
  qed
next
  assume *: "drop_bit (32 - unat p) x = drop_bit (32 - unat p) y"
  show "x AND prefix_mask p = y AND prefix_mask p"
  proof (rule bit_eqI)
    fix n assume "possible_bit TYPE(32 word) n"
    have "bit (drop_bit (32 - unat p) x) (n - (32 - unat p)) =
        bit (drop_bit (32 - unat p) y) (n - (32 - unat p))"
      using * by simp
    then show "bit (x AND prefix_mask p) n = bit (y AND prefix_mask p) n"
      by (auto simp: bit_and_mask assms bit_drop_bit_eq)
  qed
qed

lemma subnet_wf_host: "subnet_wf (Subnet_host ip)"
  by (simp add: subnet_wf_def Subnet_host_def prefix_mask_def)

lemma contains_host [simp]: "contains (Subnet_host a) ip \<longleftrightarrow> ip = a"
  by (simp add: contains_def Subnet_host_def prefix_mask_def)

lemma mask_idem: "(x AND prefix_mask p) AND prefix_mask p = x AND prefix_mask p"
  by (simp add: and.assoc)

lemma Subnet_parse_wf: "Subnet_parse t = Some s \<Longrightarrow> subnet_wf s"
  by (auto simp: Subnet_parse_def subnet_wf_def mask_idem unat_of_nat take_bit_eq_mod
      split: option.splits if_splits)

lemma contains_self: "subnet_wf s \<Longrightarrow> contains s (sn_addr s)"
  by (simp add: contains_def subnet_wf_def)

text \<open>A longer prefix mask keeps what a shorter one keeps.\<close>

lemma mask_of_longer:
  assumes "unat p \<le> unat q" "unat q \<le> 32"
  shows "(x AND prefix_mask q) AND prefix_mask p = x AND prefix_mask p"
  using assms by (intro bit_eqI) (auto simp: bit_and_mask)

lemma overlap_longer:
  assumes "subnet_wf s" "subnet_wf t" "unat (sn_prefix s) \<le> unat (sn_prefix t)"
    and "contains s ip" "contains t ip"
  shows "contains s (sn_addr t)"
proof -
  have "sn_addr t AND prefix_mask (sn_prefix s) = (ip AND prefix_mask (sn_prefix t)) AND prefix_mask (sn_prefix s)"
    using assms(5) by (simp add: contains_def)
  also have "\<dots> = ip AND prefix_mask (sn_prefix s)"
    using assms(2,3) by (simp add: mask_of_longer subnet_wf_def)
  also have "\<dots> = sn_addr s" using assms(4) by (simp add: contains_def)
  finally show ?thesis by (simp add: contains_def)
qed

lemma overlaps_iff_common:
  assumes "subnet_wf s" "subnet_wf t"
  shows "overlaps s t \<longleftrightarrow> (\<exists>ip. contains s ip \<and> contains t ip)"
proof
  assume "overlaps s t"
  with assms show "\<exists>ip. contains s ip \<and> contains t ip"
    by (auto simp: overlaps_def intro: contains_self)
next
  assume "\<exists>ip. contains s ip \<and> contains t ip"
  then obtain ip where ip: "contains s ip" "contains t ip" by blast
  show "overlaps s t"
    using overlap_longer [OF assms _ ip] overlap_longer [OF assms(2,1) _ ip(2,1)]
    by (auto simp: overlaps_def intro: le_cases)
qed

lemma overlaps_sym: "overlaps s t = overlaps t s"
  by (auto simp: overlaps_def)

section \<open>Names\<close>

text \<open>Lower case, without the trailing root dot.\<close>

definition normalize :: "string \<Rightarrow> string" where
  "normalize name = to_lower (trim_end_char (CHR ''.'') name)"

definition is_label :: "string \<Rightarrow> bool" where
  "is_label l = (l \<noteq> [] \<and> length l \<le> 63 \<and>
     list_all (\<lambda>b. is_alnum b \<or> b = CHR ''-'' \<or> b = CHR ''_'') l)"

definition is_domain :: "string \<Rightarrow> bool" where
  "is_domain name = (name \<noteq> [] \<and> length name \<le> 253 \<and> list_all is_label (split_on (CHR ''.'') name))"

lemma trim_end_char_last: "trim_end_char c s = [] \<or> last (trim_end_char c s) \<noteq> c"
  using hd_dropWhile [of "\<lambda>x. x = c" "rev s"] by (auto simp: trim_end_char_def last_rev)

lemma trim_end_char_id: "s = [] \<or> last s \<noteq> c \<Longrightarrow> trim_end_char c s = s"
  by (auto simp: trim_end_char_def dropWhile_id hd_rev)

lemma normalize_idem: "normalize (normalize s) = normalize s"
proof -
  let ?t = "trim_end_char (CHR ''.'') s"
  have "to_lower ?t = [] \<or> last (to_lower ?t) \<noteq> CHR ''.''"
    using trim_end_char_last [of "CHR ''.''" s] by (auto simp: last_map)
  then show ?thesis by (simp add: normalize_def trim_end_char_id)
qed

section \<open>Lists\<close>

record lists =
  suffixes :: "(string, string list) hashmap"
  subnets :: "(subnet \<times> string) list"
  rejected :: "string list"
  names :: "string list"

definition Lists_default :: lists where
  "Lists_default = \<lparr>suffixes = [], subnets = [], rejected = [], names = []\<rparr>"

text \<open>The domain of a line that is no subnet: \<open>*.\<close> or a leading dot taken off.\<close>

definition bare_name :: "string \<Rightarrow> string" where
  "bare_name line =
     (case strip_prefix ''*.'' line of
        Some b \<Rightarrow> b
      | None \<Rightarrow> (case strip_prefix ''.'' line of Some b \<Rightarrow> b | None \<Rightarrow> line))"

definition add_suffix :: "string \<Rightarrow> string \<Rightarrow> lists \<Rightarrow> lists" where
  "add_suffix name domain l =
     l\<lparr>suffixes := hm_insert domain
         (push_new name (case hm_get (suffixes l) domain of None \<Rightarrow> [] | Some ls \<Rightarrow> ls))
         (suffixes l)\<rparr>"

definition add_line :: "string \<Rightarrow> lists \<Rightarrow> string \<Rightarrow> lists" where
  "add_line name l raw =
     (let line = trim raw in
      if line = [] \<or> starts_with line ''#'' then l
      else (case Subnet_parse line of
              Some s \<Rightarrow> l\<lparr>subnets := subnets l @ [(s, name)]\<rparr>
            | None \<Rightarrow>
                let domain = normalize (bare_name line) in
                if is_domain domain then add_suffix name domain l
                else l\<lparr>rejected := rejected l @ [name @ '': '' @ line]\<rparr>))"

definition Lists_add :: "string \<Rightarrow> string \<Rightarrow> lists \<Rightarrow> lists" where
  "Lists_add name text l =
     foldl (add_line name) (l\<lparr>names := push_new name (names l)\<rparr>) (lines text)"

definition suffix_count :: "lists \<Rightarrow> nat" where
  "suffix_count l = length (suffixes l)"

definition entry_count :: "lists \<Rightarrow> nat" where
  "entry_count l = length (suffixes l) + length (subnets l)"

text \<open>The loop of \<open>match_domain\<close>: the name, then each parent, the lists found so far.\<close>

function match_loop :: "(string, string list) hashmap \<Rightarrow> string list \<Rightarrow> string \<Rightarrow> string list" where
  "match_loop sx found rest =
     (let found' = foldl (\<lambda>f l. push_new l f) found
            (case hm_get sx rest of None \<Rightarrow> [] | Some ls \<Rightarrow> ls)
      in case split_once (CHR ''.'') rest of
           Some (_, parent) \<Rightarrow> match_loop sx found' parent
         | None \<Rightarrow> found')"
  by pat_completeness auto
termination
  by (relation "measure (\<lambda>(sx, found, rest). length rest)") (auto simp: split_once_Some)

declare match_loop.simps [simp del]

definition match_domain :: "lists \<Rightarrow> string \<Rightarrow> string list" where
  "match_domain l name = match_loop (suffixes l) [] (normalize name)"

text \<open>
  \<open>load_dir\<close>: the files of a directory by name, each with what reading it gives. Only \<open>*.lst\<close>
  files are read, in name order; the first that cannot be read fails the load.
\<close>

definition file_stem_lst :: "string \<Rightarrow> string option" where
  "file_stem_lst f = (case rsplit_once (CHR ''.'') f of
     Some (stem, ext) \<Rightarrow> if stem \<noteq> [] \<and> ext = ''lst'' then Some stem else None
   | None \<Rightarrow> None)"

fun load_files :: "(string \<times> string io_result) list \<Rightarrow> lists \<Rightarrow> lists io_result" where
  "load_files [] l = Inr l"
| "load_files ((name, got) # fs) l =
     (case got of Inl e \<Rightarrow> Inl e | Inr text \<Rightarrow> load_files fs (Lists_add name text l))"

definition load_dir :: "(string \<times> string io_result) list \<Rightarrow> lists io_result" where
  "load_dir dir =
     load_files
       (List.map_filter (\<lambda>(f, got). map_option (\<lambda>stem. (stem, got)) (file_stem_lst f))
         (sort_key fst dir))
       Lists_default"

subsection \<open>What a text adds\<close>

text \<open>The domain a line stands for, if it is one.\<close>

definition line_domain :: "string \<Rightarrow> string option" where
  "line_domain raw =
     (let line = trim raw; d = normalize (bare_name line) in
      if line = [] \<or> starts_with line ''#'' \<or> Subnet_parse line \<noteq> None \<or> \<not> is_domain d
      then None else Some d)"

text \<open>A domain covers a name: it is the name or a parent of it.\<close>

definition covers_name :: "string \<Rightarrow> string \<Rightarrow> bool" where
  "covers_name d name = (name = d \<or> (\<exists>pre. name = pre @ ''.'' @ d))"

lemma covers_name_step:
  assumes "split_once (CHR ''.'') name = Some (a, parent)"
  shows "covers_name d name \<longleftrightarrow> name = d \<or> covers_name d parent"
proof -
  from assms have n: "name = a @ ''.'' @ parent" "CHR ''.'' \<notin> set a"
    by (simp_all add: split_once_Some)
  have "(\<exists>pre. name = pre @ ''.'' @ d) \<longleftrightarrow> covers_name d parent"
  proof
    assume "\<exists>pre. name = pre @ ''.'' @ d"
    then obtain pre where "a @ CHR ''.'' # parent = pre @ CHR ''.'' # d"
      using n by auto
    then consider us where "pre = a @ us" "us @ CHR ''.'' # d = CHR ''.'' # parent"
      | us where "a = pre @ us" "us @ CHR ''.'' # parent = CHR ''.'' # d"
      by (auto simp: append_eq_append_conv2)
    then show "covers_name d parent"
    proof cases
      case (1 us)
      then show ?thesis by (cases us) (auto simp: covers_name_def)
    next
      case (2 us)
      with n(2) show ?thesis by (cases us) (auto simp: covers_name_def)
    qed
  next
    assume "covers_name d parent"
    then show "\<exists>pre. name = pre @ ''.'' @ d"
      using n by (auto simp: covers_name_def)
  qed
  then show ?thesis by (simp add: covers_name_def)
qed

lemma set_fold_push_new: "set (foldl (\<lambda>f l. push_new l f) found ls) = set found \<union> set ls"
  by (induction ls arbitrary: found) auto

lemma distinct_fold_push_new:
  "distinct (foldl (\<lambda>f l. push_new l f) found ls) \<longleftrightarrow> distinct found"
  by (induction ls arbitrary: found) auto

lemma set_match_loop:
  "n \<in> set (match_loop sx found rest) \<longleftrightarrow>
    n \<in> set found \<or> (\<exists>d ls. covers_name d rest \<and> hm_get sx d = Some ls \<and> n \<in> set ls)"
proof (induction sx found rest rule: match_loop.induct)
  case (1 sx found rest)
  let ?here = "case hm_get sx rest of None \<Rightarrow> [] | Some ls \<Rightarrow> ls"
  have here: "n \<in> set ?here \<longleftrightarrow> (\<exists>ls. hm_get sx rest = Some ls \<and> n \<in> set ls)"
    by (cases "hm_get sx rest") auto
  show ?case
  proof (cases "split_once (CHR ''.'') rest")
    case None
    then have "covers_name d rest \<longleftrightarrow> d = rest" for d
      by (auto simp: covers_name_def split_once_None)
    with None here show ?thesis
      by (simp add: match_loop.simps [of sx found rest] set_fold_push_new)
  next
    case (Some p)
    then obtain a parent where p: "split_once (CHR ''.'') rest = Some (a, parent)"
      by (cases p) simp
    note IH = "1.IH" [OF refl p refl]
    show ?thesis
      using here IH covers_name_step [OF p]
      by (auto simp: match_loop.simps [of sx found rest] p set_fold_push_new)
  qed
qed

lemma distinct_match_loop: "distinct found \<Longrightarrow> distinct (match_loop sx found rest)"
proof (induction sx found rest rule: match_loop.induct)
  case (1 sx found rest)
  then show ?case
    by (subst match_loop.simps) (auto simp: Let_def distinct_fold_push_new split: option.splits)
qed

lemma set_match_domain:
  "n \<in> set (match_domain l name) \<longleftrightarrow>
    (\<exists>d ls. covers_name d (normalize name) \<and> hm_get (suffixes l) d = Some ls \<and> n \<in> set ls)"
  by (simp add: match_domain_def set_match_loop)

text \<open>Which lists a suffix is in, after a line and after a text.\<close>

definition lists_of :: "lists \<Rightarrow> string \<Rightarrow> string set" where
  "lists_of l d = (case hm_get (suffixes l) d of None \<Rightarrow> {} | Some ls \<Rightarrow> set ls)"

lemma lists_of_add_line:
  "lists_of (add_line name l raw) d =
    lists_of l d \<union> (if line_domain raw = Some d then {name} else {})"
  by (auto simp: lists_of_def add_line_def add_suffix_def line_domain_def Let_def dict_simps
      split: option.splits)

lemma lists_of_add_lines:
  "lists_of (foldl (add_line name) l raws) d =
    lists_of l d \<union> (if \<exists>raw\<in>set raws. line_domain raw = Some d then {name} else {})"
  by (induction raws arbitrary: l) (auto simp: lists_of_add_line)

lemma lists_of_add:
  "lists_of (Lists_add name text l) d =
    lists_of l d \<union> (if \<exists>raw\<in>set (lines text). line_domain raw = Some d then {name} else {})"
  by (simp add: Lists_add_def lists_of_add_lines) (simp add: lists_of_def)

lemma match_domain_lists_of:
  "n \<in> set (match_domain l name) \<longleftrightarrow> (\<exists>d. covers_name d (normalize name) \<and> n \<in> lists_of l d)"
  by (auto simp: set_match_domain lists_of_def split: option.splits)

subsection \<open>The invariant of the lists\<close>

text \<open>
  Keys of the suffixes are normalised domains, each with a list of distinct names of lists that
  is not empty; subnets are masked, names distinct.
\<close>

definition lists_ok :: "lists \<Rightarrow> bool" where
  "lists_ok l = (hm_ok (suffixes l) \<and>
     (\<forall>(d, ls)\<in>set (suffixes l). is_domain d \<and> normalize d = d \<and> ls \<noteq> [] \<and> distinct ls
        \<and> set ls \<subseteq> set (names l)) \<and>
     (\<forall>(s, n)\<in>set (subnets l). subnet_wf s \<and> n \<in> set (names l)) \<and> distinct (names l))"

lemma lists_ok_default: "lists_ok Lists_default"
  by (simp add: lists_ok_def Lists_default_def)

lemma lists_ok_add_suffix:
  assumes "lists_ok l" "is_domain d" "normalize d = d" "name \<in> set (names l)"
  shows "lists_ok (add_suffix name d l)"
proof -
  let ?ls = "push_new name (case hm_get (suffixes l) d of None \<Rightarrow> [] | Some ls \<Rightarrow> ls)"
  have old: "distinct ls" "set ls \<subseteq> set (names l)" if "hm_get (suffixes l) d = Some ls" for ls
    using that assms(1) map_of_SomeD [OF that] by (auto simp: lists_ok_def)
  have new: "distinct ?ls" "set ?ls \<subseteq> set (names l)" "?ls \<noteq> []"
  proof -
    show "distinct ?ls" using old by (cases "hm_get (suffixes l) d") simp_all
    show "set ?ls \<subseteq> set (names l)" using old assms(4) by (cases "hm_get (suffixes l) d") simp_all
    have "set ?ls \<noteq> {}" by (simp only: set_push_new) simp
    then show "?ls \<noteq> []" by (simp only: set_empty) simp
  qed
  let ?good = "\<lambda>(d, ls). is_domain d \<and> normalize d = d \<and> ls \<noteq> [] \<and> distinct ls \<and> set ls \<subseteq> set (names l)"
  have "\<forall>e\<in>set (suffixes l). ?good e"
    using assms(1) by (simp add: lists_ok_def)
  moreover have "?good (d, ?ls)"
    using new assms(2,3) by simp
  ultimately have "\<forall>e\<in>set (AList.update d ?ls (suffixes l)). ?good e"
    by (rule hm_insert_ball)
  moreover have "hm_ok (AList.update d ?ls (suffixes l))"
    using assms(1) by (intro hm.inv_ins) (simp add: lists_ok_def)
  ultimately show ?thesis
    using assms(1) by (simp add: lists_ok_def add_suffix_def)
qed

lemma lists_ok_add_line:
  assumes "lists_ok l" "name \<in> set (names l)"
  shows "lists_ok (add_line name l raw) \<and> names (add_line name l raw) = names l"
proof -
  have "lists_ok (add_suffix name (normalize d) l)" if "is_domain (normalize d)" for d
    using assms that by (intro lists_ok_add_suffix) (auto simp: normalize_idem)
  moreover have "names (add_suffix name d l) = names l" for d
    by (simp add: add_suffix_def)
  moreover have "lists_ok (l\<lparr>subnets := subnets l @ [(s, name)]\<rparr>)" if "subnet_wf s" for s
    using assms that by (auto simp: lists_ok_def)
  moreover have "lists_ok (l\<lparr>rejected := r\<rparr>)" for r
    using assms by (auto simp: lists_ok_def)
  ultimately show ?thesis
    using assms(1) by (auto simp: add_line_def Let_def Subnet_parse_wf split: option.splits)
qed

lemma lists_ok_add_lines:
  "lists_ok l \<Longrightarrow> name \<in> set (names l) \<Longrightarrow>
    lists_ok (foldl (add_line name) l raws) \<and> names (foldl (add_line name) l raws) = names l"
  by (induction raws arbitrary: l) (auto simp: lists_ok_add_line)

lemma lists_ok_add:
  assumes "lists_ok l"
  shows "lists_ok (Lists_add name text l)"
proof -
  have "lists_ok (l\<lparr>names := push_new name (names l)\<rparr>)"
    using assms by (auto simp: lists_ok_def)
  then show ?thesis
    by (simp add: Lists_add_def lists_ok_add_lines)
qed

lemma lists_ok_load_files:
  "lists_ok l \<Longrightarrow> load_files fs l = Inr l' \<Longrightarrow> lists_ok l'"
  by (induction fs l rule: load_files.induct) (auto simp: lists_ok_add split: sum.splits)

lemma lists_ok_load_dir: "load_dir dir = Inr l \<Longrightarrow> lists_ok l"
  unfolding load_dir_def using lists_ok_default by (rule lists_ok_load_files)

end
