(* ===== verification/Route.thy ===== *)
theory Route
  imports Lists
begin

text \<open>
  Model of \<open>src/route.rs\<close>: the routing messages, byte for byte, and the operations of the routing
  socket. The kernel behind the socket is the parameter \<open>w\<close>: what a write of a message returns
  and the kernel state it leaves. What the code relies on of it, as documented for a routing
  socket, is \<open>kernel_ok\<close>. The contract the resolver uses is the locale \<open>route_table\<close>, interpreted
  on the operations of the socket for every kernel.
\<close>

section \<open>Messages\<close>

text \<open>The constants of macOS the code takes from the C library, and the layout of \<open>rt_msghdr\<close>.\<close>

definition RTM_ADD :: int where "RTM_ADD = 1"
definition RTM_DELETE :: int where "RTM_DELETE = 2"
definition RTM_VERSION :: int where "RTM_VERSION = 5"
definition RTF_UP :: u32 where "RTF_UP = 0x1"
definition RTF_HOST :: u32 where "RTF_HOST = 0x4"
definition RTF_STATIC :: u32 where "RTF_STATIC = 0x800"
definition RTA_DST :: u32 where "RTA_DST = 0x1"
definition RTA_GATEWAY :: u32 where "RTA_GATEWAY = 0x2"
definition RTA_NETMASK :: u32 where "RTA_NETMASK = 0x4"
definition AF_INET :: int where "AF_INET = 2"
definition AF_LINK :: int where "AF_LINK = 18"
definition EEXIST :: int where "EEXIST = 17"
definition ESRCH :: int where "ESRCH = 3"

definition HDR :: nat where "HDR = 92"
definition off_msglen :: nat where "off_msglen = 0"
definition off_version :: nat where "off_version = 2"
definition off_type :: nat where "off_type = 3"
definition off_flags :: nat where "off_flags = 8"
definition off_addrs :: nat where "off_addrs = 12"
definition off_seq :: nat where "off_seq = 20"

definition SIN_LEN :: u8 where "SIN_LEN = 16"
definition SDL_LEN :: u8 where "SDL_LEN = 20"

lemmas route_consts = RTM_ADD_def RTM_DELETE_def RTM_VERSION_def RTF_UP_def RTF_HOST_def
  RTF_STATIC_def RTA_DST_def RTA_GATEWAY_def RTA_NETMASK_def AF_INET_def AF_LINK_def HDR_def
  off_msglen_def off_version_def off_type_def off_flags_def off_addrs_def off_seq_def SIN_LEN_def
  SDL_LEN_def

text \<open>\<open>byte\<close>: zero for what does not fit.\<close>

definition byte :: "int \<Rightarrow> u8" where
  "byte v = (if 0 \<le> v \<and> v \<le> 255 then of_int v else 0)"

text \<open>\<open>to_ne_bytes\<close>: the machine is little-endian.\<close>

definition ne_bytes16 :: "u16 \<Rightarrow> bytes" where
  "ne_bytes16 x = [ucast x, ucast (drop_bit 8 x)]"

definition ne_bytes32 :: "u32 \<Rightarrow> bytes" where
  "ne_bytes32 x = [ucast x, ucast (drop_bit 8 x), ucast (drop_bit 16 x), ucast (drop_bit 24 x)]"

definition ip_octets :: "ipv4 \<Rightarrow> bytes" where
  "ip_octets x = [ucast (drop_bit 24 x), ucast (drop_bit 16 x), ucast (drop_bit 8 x), ucast x]"

definition put :: "bytes \<Rightarrow> nat \<Rightarrow> bytes \<Rightarrow> bytes" where
  "put msg at bs =
     (if at + length bs \<le> length msg then take at msg @ bs @ drop (at + length bs) msg else msg)"

definition push_sin :: "bytes \<Rightarrow> ipv4 \<Rightarrow> bytes" where
  "push_sin msg addr =
     msg @ [SIN_LEN, byte AF_INET, 0, 0] @ ip_octets addr @ replicate 8 0"

definition push_sdl :: "bytes \<Rightarrow> u16 \<Rightarrow> bytes" where
  "push_sdl msg index = msg @ [SDL_LEN, byte AF_LINK] @ ne_bytes16 index @ replicate 16 0"

definition message :: "int \<Rightarrow> subnet \<Rightarrow> u16 option \<Rightarrow> u32 \<Rightarrow> bytes" where
  "message kind dst ifindex seq =
     (let host = (sn_prefix dst = 32);
          flags = RTF_UP OR RTF_STATIC;
          flags = (if host then flags OR RTF_HOST else flags);
          addrs = RTA_DST;
          msg = replicate HDR 0;
          msg = push_sin msg (sn_addr dst);
          (addrs, msg) = (case ifindex of
             Some index \<Rightarrow> (addrs OR RTA_GATEWAY, push_sdl msg index)
           | None \<Rightarrow> (addrs, msg));
          (addrs, msg) = (if \<not> host then (addrs OR RTA_NETMASK, push_sin msg (netmask dst))
                          else (addrs, msg));
          len = (if length msg \<le> 65535 then of_nat (length msg) else 65535);
          msg = put msg off_msglen (ne_bytes16 len);
          msg = put msg off_version [byte RTM_VERSION];
          msg = put msg off_type [byte kind];
          msg = put msg off_flags (ne_bytes32 flags);
          msg = put msg off_addrs (ne_bytes32 addrs);
          msg = put msg off_seq (ne_bytes32 seq)
      in msg)"

lemma length_put [simp]: "length (put msg at bs) = length msg"
  by (auto simp: put_def)

text \<open>How the kernel reads a message: the header fields, then the addresses in bit order.\<close>

definition bytes16 :: "bytes \<Rightarrow> u16" where
  "bytes16 bs = (case bs of [a, b] \<Rightarrow> ucast a OR push_bit 8 (ucast b) | _ \<Rightarrow> 0)"

definition bytes32 :: "bytes \<Rightarrow> u32" where
  "bytes32 bs = (case bs of
     [a, b, c, d] \<Rightarrow> ucast a OR push_bit 8 (ucast b) OR push_bit 16 (ucast c) OR push_bit 24 (ucast d)
   | _ \<Rightarrow> 0)"

definition slice :: "nat \<Rightarrow> nat \<Rightarrow> bytes \<Rightarrow> bytes" where
  "slice i n bs = take n (drop i bs)"

datatype rt_request =
  Request (rq_len: u16) (rq_kind: u8) (rq_host: bool) (rq_dst: ipv4) (rq_gateway: "u16 option")
    (rq_mask: "ipv4 option") (rq_seq: u32)

definition read_message :: "bytes \<Rightarrow> rt_request" where
  "read_message m =
     (let addrs = bytes32 (slice off_addrs 4 m);
          flags = bytes32 (slice off_flags 4 m);
          gw = (addrs AND RTA_GATEWAY \<noteq> 0);
          at = HDR + 16 + (if gw then 20 else 0)
      in Request (bytes16 (slice off_msglen 2 m)) (hd (slice off_type 1 m))
           (flags AND RTF_HOST \<noteq> 0)
           (bytes32 (rev (slice (HDR + 4) 4 m)))
           (if gw then Some (bytes16 (slice (HDR + 16 + 2) 2 m)) else None)
           (if addrs AND RTA_NETMASK \<noteq> 0 then Some (bytes32 (rev (slice (at + 4) 4 m))) else None)
           (bytes32 (slice off_seq 4 m)))"

lemma bytes16_ne: "bytes16 (ne_bytes16 x) = x"
  unfolding bytes16_def ne_bytes16_def
  by (rule bit_eqI) (auto simp: bit_simps not_less)

lemma bytes32_ne: "bytes32 (ne_bytes32 x) = x"
proof (rule bit_eqI)
  fix n assume "possible_bit TYPE(32 word) n"
  then have "n < 32" by simp
  then consider "n < 8" | "8 \<le> n" "n < 16" | "16 \<le> n" "n < 24" | "24 \<le> n" "n < 32"
    by linarith
  then show "bit (bytes32 (ne_bytes32 x)) n = bit x n"
    by cases (auto simp: bytes32_def ne_bytes32_def bit_simps not_less)
qed

lemma rev_ip_octets: "rev (ip_octets x) = ne_bytes32 x"
  by (simp add: ip_octets_def ne_bytes32_def)

lemma length_ne_bytes [simp]:
  "length (ne_bytes16 a) = 2" "length (ne_bytes32 b) = 4" "length (ip_octets b) = 4"
  by (simp_all add: ne_bytes16_def ne_bytes32_def ip_octets_def)

text \<open>The layout of a message: the six fields of the header, then the addresses.\<close>

definition header :: "u16 \<Rightarrow> u8 \<Rightarrow> u32 \<Rightarrow> u32 \<Rightarrow> u32 \<Rightarrow> bytes" where
  "header len kind flags addrs seq =
     ne_bytes16 len @ [5] @ [kind] @ replicate 4 0 @ ne_bytes32 flags @ ne_bytes32 addrs
       @ replicate 4 0 @ ne_bytes32 seq @ replicate 68 0"

lemma replicate_92: "replicate 92 (0::u8) =
    replicate 2 0 @ replicate 1 0 @ replicate 1 0 @ replicate 4 0 @ replicate 4 0 @ replicate 4 0
      @ replicate 4 0 @ replicate 4 0 @ replicate 68 0"
  unfolding replicate_add [symmetric] by simp

lemma put_header:
  "put (put (put (put (put (put (replicate 92 0 @ body) 0 (ne_bytes16 len)) 2 [5]) 3 [kind])
      8 (ne_bytes32 flags)) 12 (ne_bytes32 addrs)) 20 (ne_bytes32 seq)
    = header len kind flags addrs seq @ body"
  unfolding replicate_92 by (simp add: put_def header_def numeral_eq_Suc)

definition sin :: "ipv4 \<Rightarrow> bytes" where
  "sin addr = [16, 2, 0, 0] @ ip_octets addr @ replicate 8 0"

definition sdl :: "u16 \<Rightarrow> bytes" where
  "sdl index = [20, 18] @ ne_bytes16 index @ replicate 16 0"

lemma message_layout:
  "message kind dst ifindex seq =
    header
      (of_nat (108 + (if ifindex = None then 0 else 20) + (if sn_prefix dst = 32 then 0 else 16)))
      (byte kind) (if sn_prefix dst = 32 then 0x805 else 0x801)
      (if ifindex = None then (if sn_prefix dst = 32 then 1 else 5)
       else (if sn_prefix dst = 32 then 3 else 7)) seq
    @ sin (sn_addr dst) @ (case ifindex of None \<Rightarrow> [] | Some i \<Rightarrow> sdl i)
    @ (if sn_prefix dst = 32 then [] else sin (netmask dst))"
  by (cases ifindex)
    (auto simp: message_def Let_def route_consts push_sin_def push_sdl_def sin_def sdl_def
      byte_def put_header)

lemma length_header [simp]: "length (header len kind flags addrs seq) = 92"
  by (simp add: header_def)

lemma length_sin [simp]: "length (sin a) = 16" "length (sdl i) = 20"
  by (simp_all add: sin_def sdl_def)

lemma slice_at: "length pre = i \<Longrightarrow> length mid = n \<Longrightarrow> slice i n (pre @ mid @ post) = mid"
  by (simp add: slice_def)

lemma slice_skip: "length pre = i \<Longrightarrow> slice (i + k) n (pre @ body) = slice k n body"
  by (auto simp: slice_def)

lemma slice_header:
  "slice 0 2 (header len kind flags addrs seq @ body) = ne_bytes16 len"
  "slice 3 (Suc 0) (header len kind flags addrs seq @ body) = [kind]"
  "slice 8 4 (header len kind flags addrs seq @ body) = ne_bytes32 flags"
  "slice 12 4 (header len kind flags addrs seq @ body) = ne_bytes32 addrs"
  "slice 20 4 (header len kind flags addrs seq @ body) = ne_bytes32 seq"
  "slice (92 + k) n (header len kind flags addrs seq @ body) = slice k n body"
  by (simp_all add: slice_skip) (simp_all add: slice_def header_def)

lemma slice_sin:
  "slice 4 4 (sin a @ body) = ip_octets a"
  "slice (16 + k) n (sin a @ body) = slice k n body"
  "slice 2 2 (sdl i @ body) = ne_bytes16 i"
  "slice (20 + k) n (sdl i @ body) = slice k n body"
  by (simp_all add: slice_skip) (simp_all add: slice_def sin_def sdl_def)

lemma read_message_message:
  "read_message (message kind dst ifindex seq) =
    Request (of_nat (length (message kind dst ifindex seq))) (byte kind) (sn_prefix dst = 32)
      (sn_addr dst) ifindex (if sn_prefix dst = 32 then None else Some (netmask dst)) seq"
proof -
  have s96: "slice 96 4 (header l k f a s @ sin x @ body) = ip_octets x"
    and s110: "slice 110 2 (header l k f a s @ sin x @ sdl i @ body) = ne_bytes16 i"
    and s112: "slice 112 4 (header l k f a s @ sin x @ sin y @ body) = ip_octets y"
    and s132: "slice 132 4 (header l k f a s @ sin x @ sdl i @ sin y @ body) = ip_octets y"
    for l k f a s x y i body
    using slice_header(6) [of 4 4 l k f a s "sin x @ body"]
      slice_header(6) [of 18 2 l k f a s "sin x @ sdl i @ body"]
      slice_header(6) [of 20 4 l k f a s "sin x @ sin y @ body"]
      slice_header(6) [of 40 4 l k f a s "sin x @ sdl i @ sin y @ body"]
      slice_sin(2) [of 2 2 x "sdl i @ body"] slice_sin(2) [of 4 4 x "sin y @ body"]
      slice_sin(2) [of 24 4 x "sdl i @ sin y @ body"] slice_sin(4) [of 4 4 i "sin y @ body"]
    by (simp_all add: slice_sin)
  note reads = slice_header(1-5) s96 s110 s112 s132 s96 [where body = "[]", simplified]
    s110 [where body = "[]", simplified] s112 [where body = "[]", simplified]
    s132 [where body = "[]", simplified] bytes16_ne bytes32_ne rev_ip_octets
  show ?thesis
    by (cases ifindex; cases "sn_prefix dst = 32")
      (simp_all add: message_layout read_message_def Let_def route_consts reads)
qed

section \<open>The routing socket\<close>

datatype outcome = Added | Existed | Moved

text \<open>The socket is the kernel state behind it; \<open>seq\<close> wraps as an \<open>i32\<close>.\<close>

record 'k route_socket =
  sock :: 'k
  seq :: u32

type_synonym 'k kernel = "'k \<Rightarrow> bytes \<Rightarrow> nat io_result \<times> 'k"

definition next_seq :: "'k route_socket \<Rightarrow> u32 \<times> 'k route_socket" where
  "next_seq r = (seq r + 1, r\<lparr>seq := seq r + 1\<rparr>)"

definition send :: "'k kernel \<Rightarrow> 'k route_socket \<Rightarrow> bytes \<Rightarrow> unit io_result \<times> 'k route_socket" where
  "send w r msg =
     (case w (sock r) msg of
        (Inl e, k) \<Rightarrow> (Inl e, r\<lparr>sock := k\<rparr>)
      | (Inr n, k) \<Rightarrow>
          (if n = length msg then Inr () else Inl (OtherError ''short write to the route socket''),
           r\<lparr>sock := k\<rparr>))"

definition RouteSocket_add ::
    "'k kernel \<Rightarrow> 'k route_socket \<Rightarrow> subnet \<Rightarrow> u16 \<Rightarrow> outcome io_result \<times> 'k route_socket" where
  "RouteSocket_add w r dst ifindex =
     (let (s, r) = next_seq r in
      case send w r (message RTM_ADD dst (Some ifindex) s) of
        (Inr _, r) \<Rightarrow> (Inr Added, r)
      | (Inl e, r) \<Rightarrow> if e = Errno EEXIST then (Inr Existed, r) else (Inl e, r))"

definition RouteSocket_delete ::
    "'k kernel \<Rightarrow> 'k route_socket \<Rightarrow> subnet \<Rightarrow> bool io_result \<times> 'k route_socket" where
  "RouteSocket_delete w r dst =
     (let (s, r) = next_seq r in
      case send w r (message RTM_DELETE dst None s) of
        (Inr _, r) \<Rightarrow> (Inr True, r)
      | (Inl e, r) \<Rightarrow> if e = Errno ESRCH then (Inr False, r) else (Inl e, r))"

definition RouteSocket_set ::
    "'k kernel \<Rightarrow> 'k route_socket \<Rightarrow> subnet \<Rightarrow> u16 \<Rightarrow> outcome io_result \<times> 'k route_socket" where
  "RouteSocket_set w r dst ifindex =
     (case RouteSocket_add w r dst ifindex of
        (Inl e, r) \<Rightarrow> (Inl e, r)
      | (Inr out, r) \<Rightarrow>
          if out = Added then (Inr Added, r)
          else (case RouteSocket_delete w r dst of
                  (Inl e, r) \<Rightarrow> (Inl e, r)
                | (Inr _, r) \<Rightarrow>
                    (case RouteSocket_add w r dst ifindex of
                       (Inl e, r) \<Rightarrow> (Inl e, r)
                     | (Inr _, r) \<Rightarrow> (Inr Moved, r))))"

text \<open>
  \<open>if_index\<close>: the system's index of an interface, zero when it knows none; a name with a zero byte is no
  name to it.
\<close>

definition route_if_index :: "(string \<Rightarrow> u32) \<Rightarrow> string \<Rightarrow> u16 io_result" where
  "route_if_index nametoindex name =
     (if CHR 0x00 \<in> set name then Inl InvalidInput
      else (let index = nametoindex name in
            if unat index < 2 ^ 16 \<and> index \<noteq> 0 then Inr (ucast index) else Inl NotFound))"

lemma route_if_index_Inr:
  assumes "route_if_index nametoindex name = Inr i"
  shows "unat i = unat (nametoindex name)" "i \<noteq> 0"
proof -
  have b: "i = ucast (nametoindex name)" "unat (nametoindex name) < 2 ^ 16" "nametoindex name \<noteq> 0"
    using assms by (auto simp: route_if_index_def Let_def split: if_splits)
  then show u: "unat i = unat (nametoindex name)" by (simp add: unsigned_ucast_eq take_bit_eq_mod)
  with b(3) show "i \<noteq> 0" by (metis unat_eq_0)
qed

section \<open>The kernel's routes\<close>

type_synonym route_key = "ipv4 \<times> ipv4"

definition route_key :: "subnet \<Rightarrow> route_key" where
  "route_key d = (sn_addr d, netmask d)"

text \<open>
  What a routing socket documents: an add makes a route that was not there, or fails with
  \<open>EEXIST\<close> when it was, or fails otherwise and changes nothing; a delete takes a route away, or
  fails with \<open>ESRCH\<close> when there was none, or fails otherwise and changes nothing. A message is
  taken whole.
\<close>

definition kernel_ok :: "'k kernel \<Rightarrow> ('k \<Rightarrow> route_key \<Rightarrow> u16 option) \<Rightarrow> bool" where
  "kernel_ok w tbl \<longleftrightarrow>
     (\<forall>k d i s. case w k (message RTM_ADD d (Some i) s) of
        (Inr n, k') \<Rightarrow> n = length (message RTM_ADD d (Some i) s) \<and> tbl k (route_key d) = None \<and>
           tbl k' = (tbl k)(route_key d \<mapsto> i)
      | (Inl e, k') \<Rightarrow> tbl k' = tbl k \<and> (e = Errno EEXIST \<longrightarrow> tbl k (route_key d) \<noteq> None)) \<and>
     (\<forall>k d s. case w k (message RTM_DELETE d None s) of
        (Inr n, k') \<Rightarrow> n = length (message RTM_DELETE d None s) \<and> tbl k' = (tbl k)(route_key d := None)
      | (Inl e, k') \<Rightarrow> tbl k' = tbl k \<and> (e = Errno ESRCH \<longrightarrow> tbl k (route_key d) = None))"

locale route_table =
  fixes good :: bool
    and set_route :: "'s \<Rightarrow> subnet \<Rightarrow> u16 \<Rightarrow> outcome io_result \<times> 's"
    and del_route :: "'s \<Rightarrow> subnet \<Rightarrow> bool io_result \<times> 's"
    and table :: "'s \<Rightarrow> route_key \<Rightarrow> u16 option"
  assumes set_ok: "good \<Longrightarrow> set_route s d i = (Inr out, s') \<Longrightarrow> table s' = (table s)(route_key d \<mapsto> i)"
    and set_err: "good \<Longrightarrow> set_route s d i = (Inl e, s') \<Longrightarrow> x \<noteq> route_key d \<Longrightarrow> table s' x = table s x"
    and del_ok: "good \<Longrightarrow> del_route s d = (Inr b, s') \<Longrightarrow> table s' = (table s)(route_key d := None)"
    and del_err: "good \<Longrightarrow> del_route s d = (Inl e, s') \<Longrightarrow> table s' = table s"
begin

lemma set_frame: "good \<Longrightarrow> x \<noteq> route_key d \<Longrightarrow> table (snd (set_route s d i)) x = table s x"
  by (cases "set_route s d i"; cases "fst (set_route s d i)") (auto simp: set_ok set_err)

lemma set_hit: "good \<Longrightarrow> set_route s d i = (Inr out, s') \<Longrightarrow> table s' (route_key d) = Some i"
  by (simp add: set_ok)

lemma del_frame: "good \<Longrightarrow> x \<noteq> route_key d \<Longrightarrow> table (snd (del_route s d)) x = table s x"
  by (cases "del_route s d"; cases "fst (del_route s d)") (auto simp: del_ok del_err)

lemma del_shrinks:
  "good \<Longrightarrow> table (snd (del_route s d)) x = table s x \<or> table (snd (del_route s d)) x = None"
  by (cases "del_route s d"; cases "fst (del_route s d)") (auto simp: del_ok del_err)

lemma del_all_frame:
  "good \<Longrightarrow> x \<notin> route_key ` set ds \<Longrightarrow>
    table (foldl (\<lambda>s d. snd (del_route s d)) s ds) x = table s x"
  by (induction ds arbitrary: s) (auto simp: del_frame)

end

text \<open>The operations of the socket, seen as changes of the kernel's table.\<close>

lemma add_table:
  assumes "kernel_ok w tbl" "RouteSocket_add w r d i = (res, r')"
  shows "case res of
      Inr Added \<Rightarrow> tbl (sock r) (route_key d) = None \<and> tbl (sock r') = (tbl (sock r))(route_key d \<mapsto> i)
    | Inr Existed \<Rightarrow> tbl (sock r) (route_key d) \<noteq> None \<and> tbl (sock r') = tbl (sock r)
    | Inr Moved \<Rightarrow> False
    | Inl e \<Rightarrow> tbl (sock r') = tbl (sock r)"
proof -
  let ?m = "message RTM_ADD d (Some i) (seq r + 1)"
  have k: "case w (sock r) ?m of
        (Inr n, k') \<Rightarrow> n = length ?m \<and> tbl (sock r) (route_key d) = None \<and>
           tbl k' = (tbl (sock r))(route_key d \<mapsto> i)
      | (Inl e, k') \<Rightarrow> tbl k' = tbl (sock r) \<and> (e = Errno EEXIST \<longrightarrow> tbl (sock r) (route_key d) \<noteq> None)"
    by (rule conjunct1 [OF assms(1) [unfolded kernel_ok_def], THEN spec, THEN spec, THEN spec,
        THEN spec])
  obtain x k' where w: "w (sock r) ?m = (x, k')" by fastforce
  have res: "RouteSocket_add w r d i =
      (case x of
         Inl e \<Rightarrow> (if e = Errno EEXIST then Inr Existed else Inl e)
       | Inr n \<Rightarrow> (if n = length ?m then Inr Added
                   else Inl (OtherError ''short write to the route socket'')),
       r\<lparr>seq := seq r + 1, sock := k'\<rparr>)"
    by (cases x) (simp_all add: RouteSocket_add_def next_seq_def send_def w)
  show ?thesis
    using k assms(2) unfolding w res by (cases x) (auto split: if_splits)
qed

lemma delete_table:
  assumes "kernel_ok w tbl" "RouteSocket_delete w r d = (res, r')"
  shows "case res of
      Inr _ \<Rightarrow> tbl (sock r') = (tbl (sock r))(route_key d := None)
    | Inl e \<Rightarrow> tbl (sock r') = tbl (sock r)"
proof -
  let ?m = "message RTM_DELETE d None (seq r + 1)"
  have k: "case w (sock r) ?m of
        (Inr n, k') \<Rightarrow> n = length ?m \<and> tbl k' = (tbl (sock r))(route_key d := None)
      | (Inl e, k') \<Rightarrow> tbl k' = tbl (sock r) \<and> (e = Errno ESRCH \<longrightarrow> tbl (sock r) (route_key d) = None)"
    by (rule conjunct2 [OF assms(1) [unfolded kernel_ok_def], THEN spec, THEN spec, THEN spec])
  obtain x k' where w: "w (sock r) ?m = (x, k')" by fastforce
  have res: "RouteSocket_delete w r d =
      (case x of
         Inl e \<Rightarrow> (if e = Errno ESRCH then Inr False else Inl e)
       | Inr n \<Rightarrow> (if n = length ?m then Inr True
                   else Inl (OtherError ''short write to the route socket'')),
       r\<lparr>seq := seq r + 1, sock := k'\<rparr>)"
    by (cases x) (simp_all add: RouteSocket_delete_def next_seq_def send_def w)
  show ?thesis
    using k assms(2) unfolding w res by (cases x) (auto simp: fun_upd_idem split: if_splits)
qed

lemma set_table:
  assumes ok: "kernel_ok w tbl" and set: "RouteSocket_set w r d i = (res, r')"
  shows "case res of
      Inr _ \<Rightarrow> tbl (sock r') = (tbl (sock r))(route_key d \<mapsto> i)
    | Inl e \<Rightarrow> (\<forall>x. x \<noteq> route_key d \<longrightarrow> tbl (sock r') x = tbl (sock r) x)"
proof -
  obtain r1 o1 where a: "RouteSocket_add w r d i = (o1, r1)" by fastforce
  obtain r2 o2 where b: "RouteSocket_delete w r1 d = (o2, r2)" by fastforce
  obtain r3 o3 where c: "RouteSocket_add w r2 d i = (o3, r3)" by fastforce
  note t = add_table [OF ok a] delete_table [OF ok b] add_table [OF ok c]
  show ?thesis
    using set t
    by (cases o1; cases o2; cases o3)
      (auto simp: RouteSocket_set_def a b c split: if_splits outcome.splits)
qed

interpretation rt: route_table "kernel_ok w tbl" "RouteSocket_set w" "RouteSocket_delete w"
  "\<lambda>r. tbl (sock r)" for w tbl
proof unfold_locales
  fix s s' :: "'a route_socket" and d i out e b x
  assume ok: "kernel_ok w tbl"
  show "tbl (sock s') = (tbl (sock s))(route_key d \<mapsto> i)" if "RouteSocket_set w s d i = (Inr out, s')"
    using set_table [OF ok that] by simp
  show "tbl (sock s') x = tbl (sock s) x"
    if "RouteSocket_set w s d i = (Inl e, s')" "x \<noteq> route_key d"
    using set_table [OF ok that(1)] that(2) by (cases x) auto
  show "tbl (sock s') = (tbl (sock s))(route_key d := None)"
    if "RouteSocket_delete w s d = (Inr b, s')"
    using delete_table [OF ok that] by simp
  show "tbl (sock s') = tbl (sock s)" if "RouteSocket_delete w s d = (Inl e, s')"
    using delete_table [OF ok that] by simp
qed

section \<open>A kernel\<close>

text \<open>
  A kernel that reads the messages and keeps a table: it satisfies \<open>kernel_ok\<close>, and the witnesses
  run on it.
\<close>

type_synonym demo_table = "(route_key, u16) hashmap"

definition demo_key :: "rt_request \<Rightarrow> route_key" where
  "demo_key q = (rq_dst q, case rq_mask q of None \<Rightarrow> - 1 | Some m \<Rightarrow> m)"

definition demo_kernel :: "demo_table kernel" where
  "demo_kernel t m =
     (let q = read_message m in
      case rq_gateway q of
        Some i \<Rightarrow> (if hm_get t (demo_key q) = None then (Inr (length m), hm_insert (demo_key q) i t)
                   else (Inl (Errno EEXIST), t))
      | None \<Rightarrow> (if hm_get t (demo_key q) = None then (Inl (Errno ESRCH), t)
                 else (Inr (length m), filter (\<lambda>(k, _). k \<noteq> demo_key q) t)))"

lemma demo_key_message:
  "demo_key (read_message (message kind d i s)) = route_key d"
  by (auto simp: demo_key_def read_message_message route_key_def netmask_def prefix_mask_def)

lemma rq_gateway_message: "rq_gateway (read_message (message kind d i s)) = i"
  by (simp add: read_message_message)

lemma map_of_filter_key: "map_of (filter (\<lambda>(k, _). k \<noteq> x) t) = (map_of t)(x := None)"
  by (induction t) (auto simp: fun_eq_iff)

lemma demo_kernel_ok: "kernel_ok demo_kernel map_of"
  unfolding kernel_ok_def
  by (auto simp: demo_kernel_def Let_def demo_key_message rq_gateway_message dict_simps
      fun_eq_iff map_of_filter_key EEXIST_def ESRCH_def)

section \<open>A kernel that fails no request\<close>

text \<open>Beside its documented behaviour: no error but a route that is there, or is not.\<close>

definition kernel_obeys :: "'k kernel \<Rightarrow> ('k \<Rightarrow> route_key \<Rightarrow> u16 option) \<Rightarrow> bool" where
  "kernel_obeys w tbl \<longleftrightarrow> kernel_ok w tbl \<and>
     (\<forall>k d i s e k'. w k (message RTM_ADD d (Some i) s) = (Inl e, k') \<longrightarrow> e = Errno EEXIST) \<and>
     (\<forall>k d s e k'. w k (message RTM_DELETE d None s) = (Inl e, k') \<longrightarrow> e = Errno ESRCH)"

lemma obeys_ok: "kernel_obeys w tbl \<Longrightarrow> kernel_ok w tbl"
  by (simp add: kernel_obeys_def)

lemma demo_kernel_obeys: "kernel_obeys demo_kernel map_of"
  by (auto simp: kernel_obeys_def demo_kernel_ok demo_kernel_def Let_def rq_gateway_message split: if_splits)

lemma delete_obeys:
  assumes "kernel_obeys w tbl" "RouteSocket_delete w r d = (res, r')"
  shows "(\<exists>b. res = Inr b) \<and> tbl (sock r') = (tbl (sock r))(route_key d := None)"
proof -
  let ?m = "message RTM_DELETE d None (seq r + 1)"
  obtain x k' where w: "w (sock r) ?m = (x, k')" by fastforce
  have "\<exists>b. res = Inr b"
  proof (cases x)
    case (Inl e)
    have "e = Errno ESRCH" using w [unfolded Inl] assms(1) unfolding kernel_obeys_def by blast
    with assms(2) Inl show ?thesis by (auto simp: RouteSocket_delete_def next_seq_def send_def w)
  next
    case (Inr n)
    have "n = length ?m"
      using conjunct2 [OF obeys_ok [OF assms(1), unfolded kernel_ok_def], THEN spec, THEN spec, THEN spec,
          of "sock r" d "seq r + 1"] by (simp add: w Inr)
    with assms(2) Inr show ?thesis by (auto simp: RouteSocket_delete_def next_seq_def send_def w)
  qed
  with delete_table [OF obeys_ok [OF assms(1)] assms(2)] show ?thesis by auto
qed

lemma add_obeys:
  assumes "kernel_obeys w tbl" "RouteSocket_add w r d i = (res, r')"
  shows "\<exists>out. res = Inr out"
proof -
  let ?m = "message RTM_ADD d (Some i) (seq r + 1)"
  obtain x k' where w: "w (sock r) ?m = (x, k')" by fastforce
  show ?thesis
  proof (cases x)
    case (Inl e)
    have "e = Errno EEXIST" using w [unfolded Inl] assms(1) unfolding kernel_obeys_def by blast
    with assms(2) Inl show ?thesis by (auto simp: RouteSocket_add_def next_seq_def send_def w)
  next
    case (Inr n)
    have "n = length ?m"
      using conjunct1 [OF obeys_ok [OF assms(1), unfolded kernel_ok_def], THEN spec, THEN spec, THEN spec,
          THEN spec, of "sock r" d i "seq r + 1"] by (simp add: w Inr)
    with assms(2) Inr show ?thesis by (auto simp: RouteSocket_add_def next_seq_def send_def w)
  qed
qed

lemma set_obeys:
  assumes "kernel_obeys w tbl" "RouteSocket_set w r d i = (res, r')"
  shows "(\<exists>out. res = Inr out) \<and> tbl (sock r') = (tbl (sock r))(route_key d \<mapsto> i)"
proof -
  obtain o1 r1 where a: "RouteSocket_add w r d i = (o1, r1)" by fastforce
  obtain o2 r2 where b: "RouteSocket_delete w r1 d = (o2, r2)" by fastforce
  obtain o3 r3 where c: "RouteSocket_add w r2 d i = (o3, r3)" by fastforce
  have "\<exists>out. res = Inr out"
    using assms(2) add_obeys [OF assms(1) a] conjunct1 [OF delete_obeys [OF assms(1) b]]
      add_obeys [OF assms(1) c]
    by (auto simp: RouteSocket_set_def a b c split: if_splits)
  with set_table [OF obeys_ok [OF assms(1)] assms(2)] show ?thesis by auto
qed

end
