(* ===== verification/Probe.thy ===== *)
theory Probe
  imports Command Route
begin

text \<open>
  Model of \<open>src/probe.rs\<close>: the ICMP echo the probe sends and the replies it takes, its wait, and
  the counters it reads from netstat. Shown: the checksum ends, and verifies on every echo the
  probe sends; a reply is taken with and without the IP header before it, and only with the
  probe's own id and sequence; the counters of an interface are found in its link row.
\<close>

definition TARGETS :: "ipv4 list" where
  "TARGETS = [ip_of_octets 1 1 1 1, ip_of_octets 8 8 8 8, ip_of_octets 9 9 9 9]"

section \<open>The checksum\<close>

definition be_bytes16 :: "u16 \<Rightarrow> bytes" where
  "be_bytes16 x = [ucast (drop_bit 8 x), ucast x]"

definition from_be16 :: "u8 \<Rightarrow> u8 \<Rightarrow> u16" where
  "from_be16 a b = push_bit 8 (ucast a) OR ucast b"

text \<open>The sum of the big-endian pairs, the last one padded with a zero.\<close>

fun pair_sum :: "bytes \<Rightarrow> u32" where
  "pair_sum [] = 0"
| "pair_sum [a] = ucast (from_be16 a 0)"
| "pair_sum (a # b # rest) = ucast (from_be16 a b) + pair_sum rest"

lemma and_mask_65535: "(n :: nat) AND 65535 = n mod 65536"
  using take_bit_eq_mask [of 16 n] by (simp add: mask_eq_exp_minus_1 take_bit_eq_mod)

lemma carry_fold:
  "unat ((x AND 0xffff) + drop_bit 16 (x :: u32)) = unat x mod 65536 + unat x div 65536"
proof -
  have a: "unat (x AND 0xffff) = unat x mod 65536"
    by (simp add: unsigned_and_eq and_mask_65535)
  have b: "unat (drop_bit 16 x) = unat x div 65536"
    by (simp add: drop_bit_eq_div unat_div)
  have "unat x < 4294967296" using unsigned_less [of x, where 'a = nat] by simp
  then have "unat x mod 65536 + unat x div 65536 < 2 ^ LENGTH(32)" by simp
  with a b show ?thesis by (simp add: unat_word_ariths(1))
qed

function fold_carries :: "u32 \<Rightarrow> u32" where
  "fold_carries s =
     (if 0xffff < s then fold_carries ((s AND 0xffff) + drop_bit 16 s) else s)"
  by pat_completeness auto
termination
proof (relation "measure unat")
  fix s :: u32
  assume "0xffff < s"
  then have "unat (0xffff :: u32) < unat s" by (simp only: word_less_nat_alt)
  then have s: "65535 < unat s" by simp
  have "unat s mod 65536 + unat s div 65536 < unat s"
    using s div_mult_mod_eq [of "unat s" 65536] by linarith
  then show "((s AND 0xffff) + drop_bit 16 s, s) \<in> measure unat"
    by (simp only: in_measure carry_fold)
qed simp

declare fold_carries.simps [simp del]

definition checksum :: "bytes \<Rightarrow> u16" where
  "checksum data = NOT (ucast (fold_carries (pair_sum data)))"

lemma fold_carries_sound:
  "unat (fold_carries s) mod 65535 = unat s mod 65535 \<and> unat (fold_carries s) \<le> 65535 \<and>
    (unat (fold_carries s) = 0 \<longleftrightarrow> unat s = 0)"
proof (induction s rule: fold_carries.induct)
  case (1 s)
  show ?case
  proof (cases "0xffff < s")
    case True
    then have "unat (0xffff :: u32) < unat s" by (simp only: word_less_nat_alt)
    then have big: "65535 < unat s" by simp
    let ?t = "(s AND 0xffff) + drop_bit 16 s"
    have t: "unat ?t = unat s mod 65536 + unat s div 65536" by (rule carry_fold)
    have split: "unat s = 65535 * (unat s div 65536) + unat ?t"
      unfolding t using div_mult_mod_eq [of "unat s" 65536] by linarith
    then have "unat ?t mod 65535 = unat s mod 65535" by (metis mod_mult_self4)
    moreover have "unat ?t \<noteq> 0"
    proof -
      have "unat s div 65536 > 0 \<or> unat s mod 65536 > 0"
        using big div_mult_mod_eq [of "unat s" 65536] by (cases "unat s div 65536 = 0") auto
      then show ?thesis unfolding t by auto
    qed
    ultimately show ?thesis using 1 True big by (simp add: fold_carries.simps [of s])
  next
    case False
    then have "unat s \<le> unat (0xffff :: u32)" by (simp only: word_less_nat_alt not_less)
    with False show ?thesis by (simp add: fold_carries.simps [of s])
  qed
qed

section \<open>The echo\<close>

definition ECHO_TEXT :: bytes where
  "ECHO_TEXT = map (\<lambda>c. of_nat (of_char c)) ''mac-gate''"

definition echo :: "u16 \<Rightarrow> u16 \<Rightarrow> bytes" where
  "echo idn sq =
     (let p = (replicate 16 0)[0 := 8];
          p = put p 4 (be_bytes16 idn);
          p = put p 6 (be_bytes16 sq);
          p = put p 8 ECHO_TEXT
      in put p 2 (be_bytes16 (checksum p)))"

text \<open>\<open>ids\<close>: the pid and the nanoseconds of the clock, cut to sixteen bits.\<close>

definition ids :: "u32 \<Rightarrow> u32 \<Rightarrow> u16 \<times> u16" where
  "ids pid nanos = (ucast (pid AND 0xffff), ucast (nanos AND 0xffff))"

definition is_reply :: "bytes \<Rightarrow> u16 \<Rightarrow> u16 \<Rightarrow> bool" where
  "is_reply buf idn sq =
     (let icmp = (case buf of
            [] \<Rightarrow> Some buf
          | b # _ \<Rightarrow>
              if drop_bit 4 b = 4
              then (let n = unat (b AND 0x0f) * 4 in if n \<le> length buf then Some (drop n buf) else None)
              else Some buf)
      in case icmp of
           None \<Rightarrow> False
         | Some i \<Rightarrow> 8 \<le> length i \<and> i ! 0 = 0 \<and> slice 4 2 i = be_bytes16 idn \<and> slice 6 2 i = be_bytes16 sq)"

text \<open>
  \<open>ping\<close> waits for the first reply of its own: the packets that came within the limit, or the
  error of the socket, each with the time it took.
\<close>

fun ping_wait :: "u16 \<Rightarrow> u16 \<Rightarrow> (bytes io_result \<times> duration) list \<Rightarrow> duration option" where
  "ping_wait idn sq [] = None"
| "ping_wait idn sq ((Inl e, t) # rest) = None"
| "ping_wait idn sq ((Inr buf, t) # rest) = (if is_reply buf idn sq then Some t else ping_wait idn sq rest)"

text \<open>
  A datagram socket for ICMP, opened, bound to an interface and the packet sent to every target:
  None when it cannot be opened or bound, else what came within the limit.
\<close>

type_synonym 'w icmp =
  "u32 option \<Rightarrow> ipv4 list \<Rightarrow> bytes \<Rightarrow> duration \<Rightarrow> 'w \<Rightarrow> (bytes io_result \<times> duration) list option \<times> 'w"

definition ping ::
    "'w icmp \<Rightarrow> u32 \<Rightarrow> u32 \<Rightarrow> u32 option \<Rightarrow> ipv4 list \<Rightarrow> duration \<Rightarrow> 'w \<Rightarrow> duration option \<times> 'w" where
  "ping icmp pid nanos bound targets limit w =
     (let (idn, sq) = ids pid nanos in
      case icmp bound targets (echo idn sq) limit w of
        (None, w) \<Rightarrow> (None, w)
      | (Some rs, w) \<Rightarrow> (ping_wait idn sq rs, w))"

text \<open>\<open>tls\<close>; the seconds are printed by the library, from a float.\<close>

definition tls :: "'w os \<Rightarrow> (duration \<Rightarrow> string) \<Rightarrow> string \<Rightarrow> duration \<Rightarrow> 'w \<Rightarrow> bool \<times> 'w" where
  "tls os show_tenths iface limit w =
     (case run os ''/usr/bin/curl''
        [''-s'', ''-o'', ''/dev/null'', ''-m'', show_tenths limit, ''--interface'', iface,
         ''https://1.1.1.1/cdn-cgi/trace''] None (limit + from_secs 2) w of
        (Inr _, w') \<Rightarrow> (True, w')
      | (Inl _, w') \<Rightarrow> (False, w'))"

lemma from_be16_bytes: "from_be16 (ucast (drop_bit 8 x)) (ucast x) = x"
  by (rule bit_word_eqI) (auto simp: from_be16_def bit_simps)

lemma echo_layout:
  "echo idn sq =
    [8, 0] @ be_bytes16 (checksum ([8, 0, 0, 0] @ be_bytes16 idn @ be_bytes16 sq @ ECHO_TEXT)) @
    be_bytes16 idn @ be_bytes16 sq @ ECHO_TEXT"
  by (simp add: echo_def put_def be_bytes16_def ECHO_TEXT_def Let_def numeral_nat)

lemma echo_sum:
  "unat (pair_sum ([8, 0] @ be_bytes16 c @ be_bytes16 a @ be_bytes16 b @ ECHO_TEXT)) =
    111700 + unat c + unat a + unat b"
proof -
  have words: "pair_sum ECHO_TEXT = 109652"
    by (simp add: ECHO_TEXT_def from_be16_def)
  have "pair_sum ([8, 0] @ be_bytes16 c @ be_bytes16 a @ be_bytes16 b @ ECHO_TEXT) =
      0x0800 + (ucast c + (ucast a + (ucast b + pair_sum ECHO_TEXT)))"
    by (simp add: be_bytes16_def from_be16_bytes) (simp add: from_be16_def)
  also have "\<dots> = of_nat (111700 + unat c + unat a + unat b)"
    by (simp add: words)
  finally have "unat (pair_sum ([8, 0] @ be_bytes16 c @ be_bytes16 a @ be_bytes16 b @ ECHO_TEXT)) =
      (111700 + unat c + unat a + unat b) mod 2 ^ LENGTH(32)"
    by (simp only: unat_of_nat)
  moreover have "unat c < 65536" "unat a < 65536" "unat b < 65536"
    using unsigned_less [of c, where 'a = nat] unsigned_less [of a, where 'a = nat]
      unsigned_less [of b, where 'a = nat] by simp_all
  ultimately show ?thesis by simp
qed

lemma unat_not16: "unat (NOT (x :: u16)) = 65535 - unat x"
proof -
  have "take_bit 16 (uint x) = uint x"
    using unsigned_less [of x, where 'a = int] by (simp add: take_bit_int_eq_self)
  then have "uint (NOT x) = 65535 - uint x"
    by (simp add: unsigned_not_eq take_bit_not_eq_mask_diff mask_eq_exp_minus_1)
  moreover have "uint x = int (unat x)" "uint (NOT x) = int (unat (NOT x))" by simp_all
  moreover have "unat x < 65536" using unsigned_less [of x, where 'a = nat] by simp
  ultimately show ?thesis by linarith
qed

lemma unat_checksum: "unat (checksum d) = 65535 - unat (fold_carries (pair_sum d))"
proof -
  have "unat (fold_carries (pair_sum d)) < 65536"
    using fold_carries_sound [of "pair_sum d"] by simp
  then have "unat (ucast (fold_carries (pair_sum d)) :: u16) = unat (fold_carries (pair_sum d))"
    by (simp add: unsigned_ucast_eq take_bit_eq_mod)
  then show ?thesis by (simp add: checksum_def unat_not16)
qed

lemma checksum_echo: "checksum (echo idn sq) = 0"
proof -
  let ?z = "[8, 0, 0, 0] @ be_bytes16 idn @ be_bytes16 sq @ ECHO_TEXT"
  let ?c = "checksum ?z"
  let ?S = "111700 + unat idn + unat sq"
  have z: "?z = [8, 0] @ be_bytes16 0 @ be_bytes16 idn @ be_bytes16 sq @ ECHO_TEXT"
    by (simp add: be_bytes16_def)
  have S: "unat (pair_sum ?z) = ?S" unfolding z echo_sum by simp
  let ?F = "unat (fold_carries (pair_sum ?z))"
  have F: "?F mod 65535 = ?S mod 65535" "?F \<le> 65535"
    using fold_carries_sound [of "pair_sum ?z"] unfolding S by simp_all
  have full: "unat (pair_sum (echo idn sq)) = 111700 + unat ?c + unat idn + unat sq"
    unfolding echo_layout by (rule echo_sum)
  let ?G = "unat (fold_carries (pair_sum (echo idn sq)))"
  have "(111700 + unat ?c + unat idn + unat sq) mod 65535 = (?S + (65535 - ?F)) mod 65535"
    by (simp add: unat_checksum ac_simps)
  also have "\<dots> = (?F + (65535 - ?F)) mod 65535"
    by (rule mod_add_cong) (simp_all only: F(1))
  also have "\<dots> = 0" using F(2) by simp
  finally have "?G mod 65535 = 0" "?G \<noteq> 0" "?G \<le> 65535"
    using fold_carries_sound [of "pair_sum (echo idn sq)"] unfolding full by simp_all
  then have "?G = 65535" by (auto simp: mod_eq_0_iff_dvd dvd_def)
  then have "unat (checksum (echo idn sq)) = 0" by (simp add: unat_checksum)
  then show ?thesis by (simp only: unat_eq_zero)
qed

lemma be_bytes16_inj: "be_bytes16 x = be_bytes16 y \<longleftrightarrow> x = y"
  using from_be16_bytes by (auto simp: be_bytes16_def) metis

lemma length_be_bytes16 [simp]: "length (be_bytes16 x) = 2"
  by (simp add: be_bytes16_def)

text \<open>A header of the Internet Protocol, version four, that names its own length, or none.\<close>

definition ip_header :: "bytes \<Rightarrow> bool" where
  "ip_header h \<longleftrightarrow> h = [] \<or> (drop_bit 4 (hd h) = 4 \<and> unat (hd h AND 0x0f) * 4 = length h)"

lemma is_reply_echo:
  "ip_header h \<Longrightarrow>
    is_reply (h @ (echo a b)[0 := 0]) a' b' \<longleftrightarrow> a' = a \<and> b' = b"
  by (cases h)
    (auto simp: is_reply_def ip_header_def echo_layout Let_def slice_def be_bytes16_inj
      be_bytes16_def [of "checksum _"] ECHO_TEXT_def)

lemma ping_wait_sound:
  "ping_wait a b rs = Some t \<Longrightarrow> \<exists>buf. (Inr buf, t) \<in> set rs \<and> is_reply buf a b"
  by (induction a b rs rule: ping_wait.induct) (auto split: if_splits)

lemma ping_wait_complete:
  "(\<And>r u. (r, u) \<in> set rs \<Longrightarrow> \<exists>q. r = Inr q) \<Longrightarrow> (Inr buf, t) \<in> set rs \<Longrightarrow> is_reply buf a b \<Longrightarrow>
    ping_wait a b rs \<noteq> None"
proof (induction a b rs rule: ping_wait.induct)
  case (2 a b e t rest)
  then show ?case by (metis Inl_Inr_False list.set_intros(1))
qed auto

section \<open>Counters\<close>

record counters =
  rx_packets :: nat
  rx_bytes :: nat
  tx_packets :: nat
  tx_bytes :: nat

text \<open>The link row of an interface; fields are counted from the end.\<close>

definition field_back :: "string list \<Rightarrow> nat \<Rightarrow> nat option" where
  "field_back f k = (if k \<le> length f then Option.bind (get f (length f - k)) parse_u64 else None)"

definition counter_line :: "string \<Rightarrow> string \<Rightarrow> counters option" where
  "counter_line iface line =
     (let f = split_whitespace line in
      if get f 0 \<noteq> Some iface then None
      else Option.bind (get f 2) (\<lambda>link.
        if \<not> starts_with link ''<Link#'' then None
        else Option.bind (field_back f 7) (\<lambda>rp.
             Option.bind (field_back f 5) (\<lambda>rb.
             Option.bind (field_back f 4) (\<lambda>tp.
             Option.bind (field_back f 2) (\<lambda>tb.
             Some \<lparr>rx_packets = rp, rx_bytes = rb, tx_packets = tp, tx_bytes = tb\<rparr>))))))"

definition parse_counters :: "string \<Rightarrow> string \<Rightarrow> counters option" where
  "parse_counters out iface = find_map (counter_line iface) (lines out)"

definition counters_of :: "'w os \<Rightarrow> string \<Rightarrow> 'w \<Rightarrow> counters option \<times> 'w" where
  "counters_of os iface w =
     (case run os ''/usr/sbin/netstat'' [''-I'', iface, ''-b'', ''-n''] None (from_secs 5) w of
        (Inr out, w') \<Rightarrow> (parse_counters out iface, w')
      | (Inl _, w') \<Rightarrow> (None, w'))"

end
