(* ===== verification/Degraded.thy ===== *)
theory Degraded
  imports Prelude
begin

text \<open>
  Model of \<open>src/degraded.rs\<close>: when a tunnel whose probes fail is taken to carry, and the patience
  with it. The patience is the contract \<open>patience\<close> a link relies on, interpreted on the model.
\<close>

definition YOUNG :: duration where "YOUNG = from_secs 30"
definition HANDSHAKE_FRESH :: duration where "HANDSHAKE_FRESH = from_mins 3"
definition GROWTH :: nat where "GROWTH = 8"
definition GRACE :: duration where "GRACE = from_mins 3"

definition carrying :: "duration \<Rightarrow> nat option \<Rightarrow> bool \<Rightarrow> bool" where
  "carrying age handshake rx_grew =
     (YOUNG \<le> age \<and> rx_grew \<and>
      (case handshake of None \<Rightarrow> False | Some s \<Rightarrow> s \<le> as_secs HANDSHAKE_FRESH))"

text \<open>\<open>saturating_duration_since\<close>: zero when the other instant is later.\<close>

definition tunnel_age :: "instant \<Rightarrow> instant \<Rightarrow> instant \<Rightarrow> duration" where
  "tunnel_age up_at disturbed_at now = now - max up_at disturbed_at"

datatype verdict = Verdict_Down | Verdict_Left duration | Verdict_Restart

record degradation =
  grace :: duration
  patience :: duration
  deg_since :: "instant option"

definition Degradation_new :: "duration \<Rightarrow> degradation" where
  "Degradation_new g = \<lparr>grace = g, patience = g, deg_since = None\<rparr>"

definition deg_failed :: "degradation \<Rightarrow> instant \<Rightarrow> bool \<Rightarrow> verdict \<times> degradation" where
  "deg_failed d now carries =
     (if \<not> carries then (Verdict_Down, d\<lparr>deg_since := None\<rparr>)
      else
        let since = (case deg_since d of Some s \<Rightarrow> s | None \<Rightarrow> now);
            d = d\<lparr>deg_since := Some since\<rparr>;
            age = now - since
        in if patience d = 0 \<or> age < patience d then (Verdict_Left age, d)
           else (Verdict_Restart, d\<lparr>deg_since := None\<rparr>))"

definition deg_passed :: "degradation \<Rightarrow> degradation" where
  "deg_passed d = d\<lparr>deg_since := None, patience := grace d\<rparr>"

text \<open>\<open>Duration * u32\<close>: none where the multiplication panics.\<close>

definition duration_mul :: "duration \<Rightarrow> nat \<Rightarrow> duration option" where
  "duration_mul d k = (if d * k \<le> duration_max then Some (d * k) else None)"

definition deg_harder :: "degradation \<Rightarrow> degradation option" where
  "deg_harder d =
     (case (duration_mul (patience d) 2, duration_mul (grace d) GROWTH) of
        (Some twice, Some most) \<Rightarrow> Some (d\<lparr>patience := min twice most\<rparr>)
      | _ \<Rightarrow> None)"

section \<open>The contract\<close>

text \<open>
  A store of patience: a failure restarts only once the patience since the first failure in a row
  has run out, a pass makes it whole, and a reconnect that did not help at most doubles it, never
  past a bound set by the grace.
\<close>

locale patience_store =
  fixes failed :: "'d \<Rightarrow> instant \<Rightarrow> bool \<Rightarrow> verdict \<times> 'd"
    and passed :: "'d \<Rightarrow> 'd"
    and harder :: "'d \<Rightarrow> 'd option"
    and patience_of :: "'d \<Rightarrow> duration"
    and grace_of :: "'d \<Rightarrow> duration"
    and since_of :: "'d \<Rightarrow> instant option"
    and growth :: nat
  assumes failed_keeps: "patience_of (snd (failed d now c)) = patience_of d"
      "grace_of (snd (failed d now c)) = grace_of d"
    and failed_not: "fst (failed d now False) = Verdict_Down"
    and failed_carrying: "fst (failed d now True) \<noteq> Verdict_Down"
    and failed_restart: "fst (failed d now c) = Verdict_Restart \<Longrightarrow>
      c \<and> patience_of d \<noteq> 0 \<and> (\<exists>s. s \<in> insert now (set_option (since_of d)) \<and> patience_of d \<le> now - s)"
    and passed_whole: "patience_of (passed d) = grace_of d" "grace_of (passed d) = grace_of d"
    and harder_keeps: "harder d = Some d' \<Longrightarrow> grace_of d' = grace_of d"
    and harder_bound: "harder d = Some d' \<Longrightarrow>
      patience_of d' = min (2 * patience_of d) (growth * grace_of d)"
    and growth_pos: "1 \<le> growth"
begin

definition bounded :: "'d \<Rightarrow> bool" where
  "bounded d = (grace_of d \<le> patience_of d \<and> patience_of d \<le> growth * grace_of d)"

lemma bounded_failed: "bounded d \<Longrightarrow> bounded (snd (failed d now c))"
  by (simp add: bounded_def failed_keeps)

lemma bounded_passed: "bounded (passed d)"
  using growth_pos by (simp add: bounded_def passed_whole)

lemma bounded_harder: "bounded d \<Longrightarrow> harder d = Some d' \<Longrightarrow> bounded d'"
  using growth_pos by (auto simp: bounded_def harder_bound harder_keeps intro: order_trans)

lemma zero_never_restarts: "patience_of d = 0 \<Longrightarrow> fst (failed d now c) \<noteq> Verdict_Restart"
  using failed_restart by blast

lemma no_restart_before_patience:
  "fst (failed d now c) = Verdict_Restart \<Longrightarrow> since_of d = Some s \<Longrightarrow> s \<le> now \<Longrightarrow>
    s + patience_of d \<le> now"
  using failed_restart [of d now c] by fastforce

end

interpretation deg: patience_store deg_failed deg_passed deg_harder patience grace deg_since GROWTH
proof unfold_locales
  fix d d' :: degradation and now c
  show "patience (snd (deg_failed d now c)) = patience d" "grace (snd (deg_failed d now c)) = grace d"
    by (auto simp: deg_failed_def Let_def)
  show "fst (deg_failed d now False) = Verdict_Down"
    by (simp add: deg_failed_def)
  show "fst (deg_failed d now True) \<noteq> Verdict_Down"
    by (simp add: deg_failed_def Let_def)
  show "c \<and> patience d \<noteq> 0 \<and> (\<exists>s. s \<in> insert now (set_option (deg_since d)) \<and> patience d \<le> now - s)"
    if "fst (deg_failed d now c) = Verdict_Restart"
    using that by (cases "deg_since d") (auto simp: deg_failed_def Let_def split: if_splits)
  show "patience (deg_passed d) = grace d" "grace (deg_passed d) = grace d"
    by (simp_all add: deg_passed_def)
  assume h: "deg_harder d = Some d'"
  then show "grace d' = grace d"
    by (auto simp: deg_harder_def split: option.splits)
  show "patience d' = min (2 * patience d) (GROWTH * grace d)"
    using h by (auto simp: deg_harder_def duration_mul_def mult.commute split: option.splits if_splits)
next
  show "1 \<le> GROWTH" by (simp add: GROWTH_def)
qed

section \<open>A run of checks\<close>

datatype deg_event = Ev_Failed instant bool | Ev_Passed | Ev_Harder

fun deg_step :: "degradation \<Rightarrow> deg_event \<Rightarrow> degradation option" where
  "deg_step d (Ev_Failed now c) = Some (snd (deg_failed d now c))"
| "deg_step d Ev_Passed = Some (deg_passed d)"
| "deg_step d Ev_Harder = deg_harder d"

fun deg_run :: "degradation \<Rightarrow> deg_event list \<Rightarrow> degradation option" where
  "deg_run d [] = Some d"
| "deg_run d (e # es) = (case deg_step d e of None \<Rightarrow> None | Some d \<Rightarrow> deg_run d es)"

lemma deg_step_bounded: "deg.bounded d \<Longrightarrow> deg_step d e = Some d' \<Longrightarrow> deg.bounded d' \<and> grace d' = grace d"
  by (cases e)
    (auto simp: deg.bounded_failed deg.bounded_passed deg.bounded_harder deg.failed_keeps
      deg.passed_whole dest: deg.harder_keeps)

lemma deg_run_bounded: "deg.bounded d \<Longrightarrow> deg_run d es = Some d' \<Longrightarrow> deg.bounded d' \<and> grace d' = grace d"
proof (induction es arbitrary: d)
  case Nil
  then show ?case by simp
next
  case (Cons e es)
  then obtain d1 where "deg_step d e = Some d1" "deg_run d1 es = Some d'"
    by (auto split: option.splits)
  with Cons show ?case using deg_step_bounded by fastforce
qed

lemma bounded_new: "deg.bounded (Degradation_new g)"
  unfolding deg.bounded_def by (simp add: Degradation_new_def GROWTH_def)

lemma harder_no_panic:
  assumes "deg.bounded d" "16 * grace d \<le> duration_max"
  shows "deg_harder d \<noteq> None"
  using assms unfolding deg.bounded_def by (auto simp: deg_harder_def duration_mul_def GROWTH_def)

text \<open>
  Doubling saturates: after \<open>n\<close> reconnects in a row that did not help the patience is the grace
  times the smaller of \<open>2 ^ n\<close> and the growth.
\<close>

fun harder_times :: "nat \<Rightarrow> degradation \<Rightarrow> degradation option" where
  "harder_times 0 d = Some d"
| "harder_times (Suc n) d = Option.bind (harder_times n d) deg_harder"

lemma harder_times_grace: "harder_times n d = Some d' \<Longrightarrow> grace d' = grace d"
  by (induction n arbitrary: d') (auto simp: bind_eq_Some_conv dest: deg.harder_keeps)

lemma min_double: "min (2 * min (a * g) (8 * g)) (8 * g) = min (2 * a * g) (8 * (g :: nat))"
  by (auto simp: min_def)

lemma harder_times_patience:
  "harder_times n (Degradation_new g) = Some d' \<Longrightarrow> patience d' = min (2 ^ n) 8 * g"
proof (induction n arbitrary: d')
  case 0
  then show ?case by (auto simp: Degradation_new_def)
next
  case (Suc n)
  then obtain d where d: "harder_times n (Degradation_new g) = Some d" "deg_harder d = Some d'"
    by (auto simp: bind_eq_Some_conv)
  have "grace d = g"
    using harder_times_grace [OF d(1)] by (simp add: Degradation_new_def)
  then have "patience d' = min (2 * (min (2 ^ n) 8 * g)) (8 * g)"
    using deg.harder_bound [OF d(2)] Suc.IH [OF d(1)] by (simp add: GROWTH_def)
  also have "\<dots> = min (2 ^ Suc n) 8 * g"
    using min_double [of "2 ^ n" g] by (simp add: nat_mult_min_left mult.assoc)
  finally show ?case .
qed

lemma harder_times_bounded: "harder_times n (Degradation_new g) = Some d \<Longrightarrow> deg.bounded d \<and> grace d = g"
proof (induction n arbitrary: d)
  case 0
  then show ?case using bounded_new [of g] by (auto simp: Degradation_new_def)
next
  case (Suc n)
  then obtain e where e: "harder_times n (Degradation_new g) = Some e" "deg_harder e = Some d"
    by (auto simp: bind_eq_Some_conv)
  from Suc.IH [OF e(1)] show ?case using deg.bounded_harder [OF _ e(2)] deg.harder_keeps [OF e(2)] by simp
qed

lemma harder_times_total: "16 * g \<le> duration_max \<Longrightarrow> \<exists>d. harder_times n (Degradation_new g) = Some d"
proof (induction n)
  case (Suc n)
  then obtain d where d: "harder_times n (Degradation_new g) = Some d" by blast
  from harder_times_bounded [OF d] have "deg_harder d \<noteq> None" using harder_no_panic [of d] Suc.prems by auto
  with d show ?case by auto
qed simp

end
