(* ===== verification/Config.thy ===== *)
theory Config
  imports Rust_Str Degraded
begin

text \<open>
  Model of \<open>src/config.rs\<close>: the conditions of rules, and the check of the settings. The TOML
  parser is a library: its result, the raw settings, is the input here. Shown: settings that pass
  name every list, tunnel and rule once, use each list and tunnel, point at tunnels that exist,
  share no tunnel file, and keep every file below the directory of the settings.
\<close>

section \<open>The raw settings\<close>

record raw_list =
  rl_name :: string
  rl_sources :: "string list"

record raw_tunnel =
  rt_name :: string
  rt_conf :: string

record raw_rule =
  rr_name :: string
  rr_when :: string
  rr_lists :: "string list"
  rr_tunnels :: "string list"

record raw_settings =
  raw_watch :: "nat option option"   \<comment> \<open>the table, if there, with its \<open>degraded_grace\<close>\<close>
  raw_lists :: "raw_list list"
  raw_tunnels :: "raw_tunnel list"
  raw_rules :: "raw_rule list"

section \<open>Paths\<close>

text \<open>A \<open>PathBuf\<close> keeps its text; it is compared by its components.\<close>

datatype component = RootDir | CurDir | ParentDir | Normal string

fun piece_components :: "bool \<Rightarrow> string list \<Rightarrow> component list" where
  "piece_components first [] = []"
| "piece_components first (p # ps) =
     (if p = '''' then []
      else if p = ''.'' then (if first then [CurDir] else [])
      else if p = ''..'' then [ParentDir] else [Normal p]) @ piece_components False ps"

definition components :: "string \<Rightarrow> component list" where
  "components s =
     (if starts_with s ''/'' then RootDir # piece_components False (split_on (CHR ''/'') s)
      else piece_components True (split_on (CHR ''/'') s))"

definition is_normal :: "component \<Rightarrow> bool" where
  "is_normal c = (case c of Normal _ \<Rightarrow> True | _ \<Rightarrow> False)"

datatype source = File string | Url string

record source_list =
  l_name :: string
  l_sources :: "source list"

record tunnel_conf =
  t_name :: string
  t_conf :: string

datatype when_cond = Always | In string | Out string

record rule =
  r_name :: string
  r_when :: when_cond
  r_lists :: "string list"
  r_tunnels :: "nat list"

record settings =
  s_lists :: "source_list list"
  s_tunnels :: "tunnel_conf list"
  s_rules :: "rule list"
  s_degraded_grace :: duration

section \<open>Conditions\<close>

definition is_country :: "string \<Rightarrow> bool" where
  "is_country c = (length c = 2 \<and> list_all is_upper c)"

definition When_parse :: "string \<Rightarrow> when_cond option" where
  "When_parse text =
     (if text = ''always'' then Some Always
      else
        let (out, code) = (case strip_prefix ''!'' text of Some c \<Rightarrow> (True, c) | None \<Rightarrow> (False, text))
        in if \<not> is_country code then None
           else Some (if out then Out code else In code))"

fun holds :: "when_cond \<Rightarrow> string \<Rightarrow> bool" where
  "holds Always country = True"
| "holds (In c) country = (c = country)"
| "holds (Out c) country = (c \<noteq> country)"

fun show_when :: "when_cond \<Rightarrow> string" where
  "show_when Always = ''always''"
| "show_when (In c) = c"
| "show_when (Out c) = ''!'' @ c"

fun when_wf :: "when_cond \<Rightarrow> bool" where
  "when_wf Always = True"
| "when_wf (In c) = is_country c"
| "when_wf (Out c) = is_country c"

lemma When_parse_show: "when_wf w \<Longrightarrow> When_parse (show_when w) = Some w"
proof (cases w)
  case (In c)
  assume "when_wf w"
  with In obtain a b where "c = [a, b]" "is_upper a"
    by (auto simp: is_country_def length_Suc_conv numeral_2_eq_2)
  moreover from this have "a \<noteq> CHR ''!''" by (auto simp: is_upper_def)
  ultimately show ?thesis
    using In \<open>when_wf w\<close> by (simp add: When_parse_def strip_prefix_def)
qed (auto simp: When_parse_def strip_prefix_def is_country_def)

lemma When_parse_wf: "When_parse t = Some w \<Longrightarrow> when_wf w"
  by (auto simp: When_parse_def Let_def split: if_splits option.splits)

lemma show_When_parse: "When_parse t = Some w \<Longrightarrow> show_when w = t"
proof -
  have "drop 1 t = c \<and> take 1 t = ''!'' \<Longrightarrow> t = ''!'' @ c" for c
    by (metis append_take_drop_id)
  then show "When_parse t = Some w \<Longrightarrow> show_when w = t"
    by (auto simp: When_parse_def Let_def strip_prefix_def split: if_splits option.splits)
qed

text \<open>The rules for a country and for all others split the countries between them.\<close>

lemma holds_complement: "holds (In c) x \<noteq> holds (Out c) x"
  by simp

section \<open>Checks\<close>

datatype config_error =
    Toml string
  | Nothing_of string
  | Bad_name string string
  | Named_twice string string
  | No_sources string
  | Bad_source string string
  | Bad_conf string string
  | Conf_twice string string
  | Bad_when string string
  | Rule_without string string
  | Rule_unknown string string string
  | Rule_twice string string string
  | In_no_rule string string

definition name_ok :: "string \<Rightarrow> bool" where
  "name_ok n = (n \<noteq> [] \<and> length n \<le> 64 \<and>
     list_all (\<lambda>b. is_alnum b \<or> b = CHR ''_'' \<or> b = CHR ''-'') n)"

definition check_name :: "string \<Rightarrow> string \<Rightarrow> string list \<Rightarrow> config_error + string list" where
  "check_name kind n seen =
     (if \<not> name_ok n then Inl (Bad_name kind n)
      else if n \<in> set seen then Inl (Named_twice kind n)
      else Inr (n # seen))"

fun refs_loop :: "string \<Rightarrow> string \<Rightarrow> string list \<Rightarrow> string list \<Rightarrow> string list \<Rightarrow> config_error + unit" where
  "refs_loop rule kind [] known seen = Inr ()"
| "refs_loop rule kind (n # ns) known seen =
     (if n \<notin> set known then Inl (Rule_unknown rule kind n)
      else if n \<in> set seen then Inl (Rule_twice rule kind n)
      else refs_loop rule kind ns known (n # seen))"

definition refs :: "string \<Rightarrow> string \<Rightarrow> string list \<Rightarrow> string list \<Rightarrow> config_error + unit" where
  "refs rule kind ns known =
     (if ns = [] then Inl (Rule_without rule kind) else refs_loop rule kind ns known [])"

definition file_of :: "string \<Rightarrow> string option" where
  "file_of text = (if text = [] \<or> \<not> list_all is_normal (components text) then None else Some text)"

definition source_of :: "string \<Rightarrow> source option" where
  "source_of text =
     (if starts_with text ''https://'' \<or> starts_with text ''http://''
      then (if list_ex is_ws text then None else Some (Url text))
      else map_option File (file_of text))"

fun sources_of :: "string \<Rightarrow> string list \<Rightarrow> config_error + source list" where
  "sources_of l [] = Inr []"
| "sources_of l (s # ss) =
     (case source_of s of
        None \<Rightarrow> Inl (Bad_source l s)
      | Some x \<Rightarrow> (case sources_of l ss of Inl e \<Rightarrow> Inl e | Inr xs \<Rightarrow> Inr (x # xs)))"

fun parse_lists :: "raw_list list \<Rightarrow> string list \<Rightarrow> config_error + source_list list" where
  "parse_lists [] seen = Inr []"
| "parse_lists (l # ls) seen =
     (case check_name ''list'' (rl_name l) seen of
        Inl e \<Rightarrow> Inl e
      | Inr seen \<Rightarrow>
          if rl_sources l = [] then Inl (No_sources (rl_name l))
          else (case sources_of (rl_name l) (rl_sources l) of
                  Inl e \<Rightarrow> Inl e
                | Inr srcs \<Rightarrow>
                    (case parse_lists ls seen of
                       Inl e \<Rightarrow> Inl e
                     | Inr out \<Rightarrow> Inr (\<lparr>l_name = rl_name l, l_sources = srcs\<rparr> # out))))"

fun parse_tunnels ::
    "raw_tunnel list \<Rightarrow> string list \<Rightarrow> component list list \<Rightarrow> config_error + tunnel_conf list" where
  "parse_tunnels [] seen confs = Inr []"
| "parse_tunnels (t # ts) seen confs =
     (case check_name ''tunnel'' (rt_name t) seen of
        Inl e \<Rightarrow> Inl e
      | Inr seen \<Rightarrow>
          (case file_of (rt_conf t) of
             None \<Rightarrow> Inl (Bad_conf (rt_name t) (rt_conf t))
           | Some conf \<Rightarrow>
               if components conf \<in> set confs then Inl (Conf_twice (rt_name t) (rt_conf t))
               else (case parse_tunnels ts seen (components conf # confs) of
                       Inl e \<Rightarrow> Inl e
                     | Inr out \<Rightarrow> Inr (\<lparr>t_name = rt_name t, t_conf = conf\<rparr> # out))))"

fun parse_rules ::
    "string list \<Rightarrow> string list \<Rightarrow> raw_rule list \<Rightarrow> string list \<Rightarrow> config_error + rule list" where
  "parse_rules list_names tunnel_names [] seen = Inr []"
| "parse_rules list_names tunnel_names (r # rs) seen =
     (case check_name ''rule'' (rr_name r) seen of
        Inl e \<Rightarrow> Inl e
      | Inr seen \<Rightarrow>
          (case When_parse (rr_when r) of
             None \<Rightarrow> Inl (Bad_when (rr_name r) (rr_when r))
           | Some w \<Rightarrow>
               (case refs (rr_name r) ''list'' (rr_lists r) list_names of
                  Inl e \<Rightarrow> Inl e
                | Inr _ \<Rightarrow>
                    (case refs (rr_name r) ''tunnel'' (rr_tunnels r) tunnel_names of
                       Inl e \<Rightarrow> Inl e
                     | Inr _ \<Rightarrow>
                         (case parse_rules list_names tunnel_names rs seen of
                            Inl e \<Rightarrow> Inl e
                          | Inr out \<Rightarrow>
                              Inr (\<lparr>r_name = rr_name r, r_when = w, r_lists = rr_lists r,
                                    r_tunnels = List.map_filter
                                      (\<lambda>t. position (\<lambda>n. n = t) tunnel_names) (rr_tunnels r)\<rparr>
                                   # out))))))"

fun unused_list :: "rule list \<Rightarrow> string list \<Rightarrow> string option" where
  "unused_list rules [] = None"
| "unused_list rules (l # ls) =
     (if list_ex (\<lambda>r. l \<in> set (r_lists r)) rules then unused_list rules ls else Some l)"

fun unused_tunnel :: "rule list \<Rightarrow> nat \<Rightarrow> string list \<Rightarrow> string option" where
  "unused_tunnel rules i [] = None"
| "unused_tunnel rules i (t # ts) =
     (if list_ex (\<lambda>r. i \<in> set (r_tunnels r)) rules then unused_tunnel rules (Suc i) ts else Some t)"

definition parse :: "raw_settings \<Rightarrow> config_error + settings" where
  "parse raw =
     (let grace = (case Option.bind (raw_watch raw) id of None \<Rightarrow> GRACE | Some s \<Rightarrow> from_secs s) in
      if raw_lists raw = [] then Inl (Nothing_of ''list'')
      else if raw_tunnels raw = [] then Inl (Nothing_of ''tunnel'')
      else if raw_rules raw = [] then Inl (Nothing_of ''rule'')
      else
        (case parse_lists (raw_lists raw) [] of
           Inl e \<Rightarrow> Inl e
         | Inr ls_out \<Rightarrow>
             (case parse_tunnels (raw_tunnels raw) [] [] of
                Inl e \<Rightarrow> Inl e
              | Inr tunnels \<Rightarrow>
                  (case parse_rules (map l_name ls_out) (map t_name tunnels) (raw_rules raw) [] of
                     Inl e \<Rightarrow> Inl e
                   | Inr rules \<Rightarrow>
                       (case unused_list rules (map l_name ls_out) of
                          Some l \<Rightarrow> Inl (In_no_rule ''list'' l)
                        | None \<Rightarrow>
                            (case unused_tunnel rules 0 (map t_name tunnels) of
                               Some t \<Rightarrow> Inl (In_no_rule ''tunnel'' t)
                             | None \<Rightarrow>
                                 Inr \<lparr>s_lists = ls_out, s_tunnels = tunnels, s_rules = rules,
                                      s_degraded_grace = grace\<rparr>))))))"

definition settings_sources :: "settings \<Rightarrow> source list" where
  "settings_sources s = concat (map l_sources (s_lists s))"

definition urls :: "settings \<Rightarrow> string list" where
  "urls s = List.map_filter (\<lambda>x. case x of Url u \<Rightarrow> Some u | File _ \<Rightarrow> None) (settings_sources s)"

definition files :: "settings \<Rightarrow> string list" where
  "files s = List.map_filter (\<lambda>x. case x of File p \<Rightarrow> Some p | Url _ \<Rightarrow> None) (settings_sources s)"

section \<open>Settings that pass\<close>

fun source_wf :: "source \<Rightarrow> bool" where
  "source_wf (File p) = (p \<noteq> [] \<and> (\<forall>c\<in>set (components p). is_normal c))"
| "source_wf (Url u) = (\<not> list_ex is_ws u)"

definition rule_wf :: "settings \<Rightarrow> rule \<Rightarrow> bool" where
  "rule_wf s r = (name_ok (r_name r) \<and> when_wf (r_when r) \<and>
     r_lists r \<noteq> [] \<and> distinct (r_lists r) \<and> set (r_lists r) \<subseteq> l_name ` set (s_lists s) \<and>
     r_tunnels r \<noteq> [] \<and> distinct (r_tunnels r) \<and> (\<forall>t\<in>set (r_tunnels r). t < length (s_tunnels s)))"

definition settings_wf :: "settings \<Rightarrow> bool" where
  "settings_wf s =
     (distinct (map l_name (s_lists s)) \<and> distinct (map t_name (s_tunnels s)) \<and>
      distinct (map r_name (s_rules s)) \<and>
      distinct (map (\<lambda>t. components (t_conf t)) (s_tunnels s)) \<and>
      (\<forall>l\<in>set (s_lists s). name_ok (l_name l) \<and> l_sources l \<noteq> [] \<and> (\<forall>x\<in>set (l_sources l). source_wf x)) \<and>
      (\<forall>t\<in>set (s_tunnels s). name_ok (t_name t) \<and> (\<forall>c\<in>set (components (t_conf t)). is_normal c)) \<and>
      (\<forall>r\<in>set (s_rules s). rule_wf s r) \<and>
      (\<forall>l\<in>set (s_lists s). \<exists>r\<in>set (s_rules s). l_name l \<in> set (r_lists r)) \<and>
      (\<forall>i<length (s_tunnels s). \<exists>r\<in>set (s_rules s). i \<in> set (r_tunnels r)))"

lemma check_name_Inr: "check_name kind n seen = Inr seen' \<longleftrightarrow> name_ok n \<and> n \<notin> set seen \<and> seen' = n # seen"
  by (auto simp: check_name_def)

lemma sources_of_wf: "sources_of l ss = Inr xs \<Longrightarrow> \<forall>x\<in>set xs. source_wf x"
proof (induction ss arbitrary: xs)
  case Nil
  then show ?case by simp
next
  case (Cons s ss)
  have "source_of s = Some x \<Longrightarrow> source_wf x" for x
    by (auto simp: source_of_def file_of_def list_all_iff split: if_splits)
  with Cons show ?case by (auto split: option.splits sum.splits)
qed

lemma sources_of_length: "sources_of l ss = Inr xs \<Longrightarrow> length xs = length ss"
  by (induction ss arbitrary: xs) (auto split: option.splits sum.splits)

lemma parse_lists_wf:
  "parse_lists ls seen = Inr out \<Longrightarrow>
    distinct (map l_name out) \<and> set (map l_name out) \<inter> set seen = {} \<and>
    (\<forall>l\<in>set out. name_ok (l_name l) \<and> l_sources l \<noteq> [] \<and> (\<forall>x\<in>set (l_sources l). source_wf x))"
proof (induction ls arbitrary: seen out)
  case Nil
  then show ?case by simp
next
  case (Cons l ls)
  then obtain srcs rest where *: "name_ok (rl_name l)" "rl_name l \<notin> set seen" "rl_sources l \<noteq> []"
      "sources_of (rl_name l) (rl_sources l) = Inr srcs"
      "parse_lists ls (rl_name l # seen) = Inr rest"
      "out = \<lparr>l_name = rl_name l, l_sources = srcs\<rparr> # rest"
    by (auto simp: check_name_Inr split: sum.splits if_splits)
  have "srcs \<noteq> []" using sources_of_length [OF *(4)] *(3) by auto
  with * Cons.IH [OF *(5)] sources_of_wf [OF *(4)] show ?case by auto
qed

lemma parse_tunnels_wf:
  "parse_tunnels ts seen confs = Inr out \<Longrightarrow>
    distinct (map t_name out) \<and> set (map t_name out) \<inter> set seen = {} \<and>
    distinct (map (\<lambda>t. components (t_conf t)) out) \<and>
    set (map (\<lambda>t. components (t_conf t)) out) \<inter> set confs = {} \<and>
    (\<forall>t\<in>set out. name_ok (t_name t) \<and> (\<forall>c\<in>set (components (t_conf t)). is_normal c))"
proof (induction ts arbitrary: seen confs out)
  case Nil
  then show ?case by simp
next
  case (Cons t ts)
  then obtain conf rest where *: "name_ok (rt_name t)" "rt_name t \<notin> set seen"
      "file_of (rt_conf t) = Some conf" "components conf \<notin> set confs"
      "parse_tunnels ts (rt_name t # seen) (components conf # confs) = Inr rest"
      "out = \<lparr>t_name = rt_name t, t_conf = conf\<rparr> # rest"
    by (auto simp: check_name_Inr split: sum.splits option.splits if_splits)
  have "\<forall>c\<in>set (components conf). is_normal c"
    using *(3) by (auto simp: file_of_def list_all_iff split: if_splits)
  with * Cons.IH [OF *(5)] show ?case by auto
qed

lemma refs_loop_Inr:
  "refs_loop rule kind ns known seen = Inr u \<longleftrightarrow>
    set ns \<subseteq> set known \<and> distinct ns \<and> set ns \<inter> set seen = {}"
  by (induction ns arbitrary: seen) auto

lemma refs_Inr:
  "refs rule kind ns known = Inr u \<longleftrightarrow> ns \<noteq> [] \<and> set ns \<subseteq> set known \<and> distinct ns"
  by (auto simp: refs_def refs_loop_Inr)

text \<open>The indices of names that are known: one each, in range, distinct.\<close>

lemma positions:
  assumes "set ts \<subseteq> set known"
  shows "map (\<lambda>i. known ! i) (List.map_filter (\<lambda>t. position (\<lambda>n. n = t) known) ts) = ts \<and>
    (\<forall>i\<in>set (List.map_filter (\<lambda>t. position (\<lambda>n. n = t) known) ts). i < length known)"
  using assms
proof (induction ts)
  case Nil
  then show ?case by (simp add: List.map_filter_simps)
next
  case (Cons t ts)
  then obtain i where i: "position (\<lambda>n. n = t) known = Some i"
    by (metis (full_types) list.set_intros(1) not_None_eq position_None subsetD)
  from position_Some [OF this] Cons i show ?case
    by (auto simp: List.map_filter_simps)
qed

lemma positions_distinct:
  assumes "set ts \<subseteq> set known" "distinct ts"
  shows "distinct (List.map_filter (\<lambda>t. position (\<lambda>n. n = t) known) ts)"
  using positions [OF assms(1)] assms(2) by (metis distinct_map)

definition rule_names_ok :: "string list \<Rightarrow> string list \<Rightarrow> rule \<Rightarrow> bool" where
  "rule_names_ok ls ts r = (name_ok (r_name r) \<and> when_wf (r_when r) \<and>
     r_lists r \<noteq> [] \<and> distinct (r_lists r) \<and> set (r_lists r) \<subseteq> set ls \<and>
     r_tunnels r \<noteq> [] \<and> distinct (r_tunnels r) \<and> (\<forall>t\<in>set (r_tunnels r). t < length ts))"

lemma parse_rules_wf:
  "parse_rules ls ts rs seen = Inr out \<Longrightarrow>
    distinct (map r_name out) \<and> set (map r_name out) \<inter> set seen = {} \<and>
    (\<forall>r\<in>set out. rule_names_ok ls ts r)"
proof (induction rs arbitrary: seen out)
  case Nil
  then show ?case by simp
next
  case (Cons r rs)
  let ?order = "List.map_filter (\<lambda>t. position (\<lambda>n. n = t) ts) (rr_tunnels r)"
  from Cons.prems obtain w rest where *: "name_ok (rr_name r)" "rr_name r \<notin> set seen"
      "When_parse (rr_when r) = Some w"
      "rr_lists r \<noteq> []" "set (rr_lists r) \<subseteq> set ls" "distinct (rr_lists r)"
      "rr_tunnels r \<noteq> []" "set (rr_tunnels r) \<subseteq> set ts" "distinct (rr_tunnels r)"
      "parse_rules ls ts rs (rr_name r # seen) = Inr rest"
      "out = \<lparr>r_name = rr_name r, r_when = w, r_lists = rr_lists r, r_tunnels = ?order\<rparr> # rest"
    by (auto simp: check_name_Inr refs_Inr split: sum.splits option.splits)
  have "?order \<noteq> []"
    using positions [OF *(8)] *(7) by auto
  then have "rule_names_ok ls ts \<lparr>r_name = rr_name r, r_when = w, r_lists = rr_lists r, r_tunnels = ?order\<rparr>"
    using * positions [OF *(8)] positions_distinct [OF *(8,9)]
    by (simp add: rule_names_ok_def When_parse_wf)
  with * Cons.IH [OF *(10)] show ?case by auto
qed

lemma unused_list_None:
  "unused_list rules ls = None \<longleftrightarrow> (\<forall>l\<in>set ls. \<exists>r\<in>set rules. l \<in> set (r_lists r))"
  by (induction ls) (auto simp: list_ex_iff)

lemma unused_tunnel_None:
  "unused_tunnel rules i ts = None \<longleftrightarrow> (\<forall>j<length ts. \<exists>r\<in>set rules. i + j \<in> set (r_tunnels r))"
proof (induction ts arbitrary: i)
  case Nil
  then show ?case by simp
next
  case (Cons t ts)
  have "(\<forall>j<length (t # ts). \<exists>r\<in>set rules. i + j \<in> set (r_tunnels r)) \<longleftrightarrow>
      (\<exists>r\<in>set rules. i \<in> set (r_tunnels r)) \<and>
      (\<forall>j<length ts. \<exists>r\<in>set rules. Suc i + j \<in> set (r_tunnels r))"
    by (simp add: All_less_Suc2)
  with Cons show ?case by (auto simp: list_ex_iff)
qed

lemma parse_settings_wf:
  assumes "parse raw = Inr s"
  shows "settings_wf s"
proof -
  from assms obtain ls_out tunnels rules g where *:
      "parse_lists (raw_lists raw) [] = Inr ls_out"
      "parse_tunnels (raw_tunnels raw) [] [] = Inr tunnels"
      "parse_rules (map l_name ls_out) (map t_name tunnels) (raw_rules raw) [] = Inr rules"
      "unused_list rules (map l_name ls_out) = None"
      "unused_tunnel rules 0 (map t_name tunnels) = None"
      "s = \<lparr>s_lists = ls_out, s_tunnels = tunnels, s_rules = rules, s_degraded_grace = g\<rparr>"
    by (auto simp: parse_def Let_def split: sum.splits if_splits option.splits)
  have "rule_names_ok (map l_name ls_out) (map t_name tunnels) r \<Longrightarrow> rule_wf s r" for r
    by (auto simp: rule_names_ok_def rule_wf_def *(6))
  with parse_lists_wf [OF *(1)] parse_tunnels_wf [OF *(2)] parse_rules_wf [OF *(3)]
    *(4,5)
  show ?thesis
    by (auto simp: settings_wf_def *(6) unused_list_None unused_tunnel_None)
qed

text \<open>What the settings take over from the file: every name, condition and reference, in its order.\<close>

definition keeps_file :: "raw_settings \<Rightarrow> settings \<Rightarrow> bool" where
  "keeps_file raw s \<longleftrightarrow>
     map l_name (s_lists s) = map rl_name (raw_lists raw) \<and>
     map (length \<circ> l_sources) (s_lists s) = map (length \<circ> rl_sources) (raw_lists raw) \<and>
     map t_name (s_tunnels s) = map rt_name (raw_tunnels raw) \<and>
     map r_name (s_rules s) = map rr_name (raw_rules raw) \<and>
     map (show_when \<circ> r_when) (s_rules s) = map rr_when (raw_rules raw) \<and>
     map r_lists (s_rules s) = map rr_lists (raw_rules raw) \<and>
     map (\<lambda>r. map (\<lambda>i. t_name (s_tunnels s ! i)) (r_tunnels r)) (s_rules s) = map rr_tunnels (raw_rules raw)"

lemma parse_lists_keeps:
  "parse_lists ls seen = Inr out \<Longrightarrow>
    map l_name out = map rl_name ls \<and> map (length \<circ> l_sources) out = map (length \<circ> rl_sources) ls"
  by (induction ls arbitrary: seen out)
    (auto split: sum.splits if_splits dest: sources_of_length)

lemma parse_tunnels_keeps: "parse_tunnels ts seen confs = Inr out \<Longrightarrow> map t_name out = map rt_name ts"
  by (induction ts arbitrary: seen confs out) (auto split: sum.splits option.splits if_splits)

lemma parse_rules_keeps:
  "parse_rules ls ts rs seen = Inr out \<Longrightarrow>
    map r_name out = map rr_name rs \<and> map (show_when \<circ> r_when) out = map rr_when rs \<and>
    map r_lists out = map rr_lists rs \<and>
    map (\<lambda>r. map (\<lambda>i. ts ! i) (r_tunnels r)) out = map rr_tunnels rs"
proof (induction rs arbitrary: seen out)
  case Nil
  then show ?case by simp
next
  case (Cons r rs)
  from Cons.prems obtain w rest where *: "When_parse (rr_when r) = Some w" "set (rr_tunnels r) \<subseteq> set ts"
      "parse_rules ls ts rs (rr_name r # seen) = Inr rest"
      "out = \<lparr>r_name = rr_name r, r_when = w, r_lists = rr_lists r,
         r_tunnels = List.map_filter (\<lambda>t. position (\<lambda>n. n = t) ts) (rr_tunnels r)\<rparr> # rest"
    by (auto simp: check_name_Inr refs_Inr split: sum.splits option.splits)
  with Cons.IH [OF *(3)] positions [OF *(2)] show_When_parse [OF *(1)] show ?case by simp
qed

lemma parse_keeps_file:
  assumes "parse raw = Inr s"
  shows "keeps_file raw s"
proof -
  from assms obtain ls_out tunnels rules g where *:
      "parse_lists (raw_lists raw) [] = Inr ls_out"
      "parse_tunnels (raw_tunnels raw) [] [] = Inr tunnels"
      "parse_rules (map l_name ls_out) (map t_name tunnels) (raw_rules raw) [] = Inr rules"
      "s = \<lparr>s_lists = ls_out, s_tunnels = tunnels, s_rules = rules, s_degraded_grace = g\<rparr>"
    by (auto simp: parse_def Let_def split: sum.splits if_splits option.splits)
  have "map (\<lambda>r. map (\<lambda>i. t_name (tunnels ! i)) (r_tunnels r)) rules =
      map (\<lambda>r. map (\<lambda>i. map t_name tunnels ! i) (r_tunnels r)) rules"
    using parse_rules_wf [OF *(3)] by (auto simp: rule_names_ok_def)
  with parse_lists_keeps [OF *(1)] parse_tunnels_keeps [OF *(2)] parse_rules_keeps [OF *(3)]
  show ?thesis by (simp add: keeps_file_def *(4))
qed

end
