(* ===== verification/Core.thy ===== *)
theory Core
  imports Config Lists
begin

text \<open>
  Model of the decisions of \<open>src/resolver.rs\<close>: what becomes of a name, which tunnel a rule takes,
  which rule a name and a subnet belong to, and why a rule refuses. Shown: the tunnel a rule takes
  is one of its own and is not left without cause, a name goes to the first rule in force that
  carries, a list and a subnet belong to the first rule in force that has them.
\<close>

section \<open>DNS messages\<close>

text \<open>
  A message of the DNS library, by the fields the code reads. Parsing bytes to it and printing it
  belong to the library and are parameters where they are used.
\<close>

datatype record_type = A | AAAA | HTTPS | SVCB | Other_type nat
datatype response_code = NoError | ServFail | NXDomain | Other_code nat
datatype message_type = Query | Response
datatype rdata = RData_A ipv4 | RData_other

record query =
  q_name :: string
  q_type :: record_type

record dns_message =
  m_id :: u16
  m_type :: message_type
  m_op_code :: nat
  m_recursion_desired :: bool
  m_recursion_available :: bool
  m_code :: response_code
  m_queries :: "query list"
  m_answers :: "rdata list"

definition ipv4_answers :: "dns_message \<Rightarrow> ipv4 list" where
  "ipv4_answers msg =
     List.map_filter (\<lambda>r. case r of RData_A a \<Rightarrow> Some a | RData_other \<Rightarrow> None) (m_answers msg)"

definition ip4 :: "nat \<Rightarrow> nat \<Rightarrow> nat \<Rightarrow> nat \<Rightarrow> ipv4" where
  "ip4 a b c d = ip_of_octets a b c d"

definition FAKEIP :: subnet where
  "FAKEIP = Subnet (ip4 198 18 0 0) 15"

definition SPECIAL :: "subnet list" where
  "SPECIAL =
     [Subnet (ip4 0 0 0 0) 8, Subnet (ip4 10 0 0 0) 8, Subnet (ip4 100 64 0 0) 10,
      Subnet (ip4 127 0 0 0) 8, Subnet (ip4 169 254 0 0) 16, Subnet (ip4 172 16 0 0) 12,
      Subnet (ip4 192 168 0 0) 16, Subnet (ip4 224 0 0 0) 3, FAKEIP]"

definition FIREFOX_CANARY :: string where
  "FIREFOX_CANARY = ''use-application-dns.net''"

definition has_fakeip :: "dns_message \<Rightarrow> bool" where
  "has_fakeip msg = list_ex (contains FAKEIP) (ipv4_answers msg)"

definition refused_type :: "record_type \<Rightarrow> bool" where
  "refused_type q = (q = AAAA \<or> q = HTTPS \<or> q = SVCB)"

definition routable :: "ipv4 \<Rightarrow> ipv4 list \<Rightarrow> bool" where
  "routable ip endpoints = (ip \<notin> set endpoints \<and> \<not> list_ex (\<lambda>s. contains s ip) SPECIAL)"

text \<open>An answer with no records, for the question of a request.\<close>

definition reply_message :: "dns_message \<Rightarrow> response_code \<Rightarrow> dns_message" where
  "reply_message req code =
     \<lparr>m_id = m_id req, m_type = Response, m_op_code = m_op_code req,
      m_recursion_desired = m_recursion_desired req, m_recursion_available = True,
      m_code = code, m_queries = m_queries req, m_answers = []\<rparr>"

definition reply :: "(dns_message \<Rightarrow> bytes option) \<Rightarrow> dns_message \<Rightarrow> response_code \<Rightarrow> bytes option" where
  "reply to_vec req code = to_vec (reply_message req code)"

datatype plan = Plan_Reply response_code | Plan_Network | Plan_Listed "string list"

definition plan :: "lists \<Rightarrow> string \<Rightarrow> plan" where
  "plan l name =
     (if normalize name = FIREFOX_CANARY then Plan_Reply NXDomain
      else let found = match_domain l name in
           if found = [] then Plan_Network else Plan_Listed found)"

lemma subnet_wf_special: "\<forall>s\<in>set SPECIAL. subnet_wf s"
  by (simp add: SPECIAL_def FAKEIP_def subnet_wf_def prefix_mask_def ip4_def ip_of_octets_def
      mask_eq_exp_minus_1)

lemma subnet_wf_fakeip: "subnet_wf FAKEIP"
  using subnet_wf_special by (simp add: SPECIAL_def)

lemma fakeip_not_routable: "contains FAKEIP ip \<Longrightarrow> \<not> routable ip es"
  by (simp add: routable_def SPECIAL_def)

section \<open>Links\<close>

record iface =
  if_name :: string
  if_index :: u16

datatype health = Health_Down | Health_Up | Health_Suspect | Health_Degraded

definition alive :: "health \<Rightarrow> bool" where
  "alive h = (h \<noteq> Health_Down)"

record link_state =
  ls_iface :: "iface option"
  ls_generation :: u32
  ls_health :: health
  ls_works :: bool
  ls_since :: "instant option"
  ls_endpoint :: "ipv4 option"

definition LinkState_default :: link_state where
  "LinkState_default = \<lparr>ls_iface = None, ls_generation = 0, ls_health = Health_Down,
     ls_works = False, ls_since = None, ls_endpoint = None\<rparr>"

definition link_good :: "link_state \<Rightarrow> bool" where
  "link_good l = (ls_iface l \<noteq> None \<and> ls_health l = Health_Up)"

record reasons =
  rs_tunnel :: bool
  rs_works :: bool
  rs_owner :: bool

definition reasons_any :: "reasons \<Rightarrow> bool" where
  "reasons_any r = (rs_tunnel r \<or> rs_works r \<or> rs_owner r)"

definition show_reasons :: "reasons \<Rightarrow> string" where
  "show_reasons r =
     (let on = List.map_filter (\<lambda>(set, name). if set then Some name else None)
                 [(rs_tunnel r, ''tunnel''), (rs_works r, ''works''), (rs_owner r, ''owner'')]
      in if on = [] then ''off'' else ''on '' @ join '','' on)"

section \<open>The tunnel of a rule\<close>

definition RETURN :: duration where "RETURN = from_mins 2"

definition opt_or :: "'a option \<Rightarrow> 'a option \<Rightarrow> 'a option" where
  "opt_or a b = (case a of None \<Rightarrow> b | Some x \<Rightarrow> Some x)"

definition tunnel_good :: "link_state list \<Rightarrow> nat \<Rightarrow> bool" where
  "tunnel_good links t = (case get links t of None \<Rightarrow> False | Some l \<Rightarrow> link_good l \<and> \<not> ls_works l)"

definition tunnel_settled :: "link_state list \<Rightarrow> instant \<Rightarrow> nat \<Rightarrow> bool" where
  "tunnel_settled links now t =
     (tunnel_good links t \<and>
      (case Option.bind (get links t) ls_since of None \<Rightarrow> False | Some s \<Rightarrow> RETURN \<le> now - s))"

definition tunnel_has_iface :: "link_state list \<Rightarrow> nat \<Rightarrow> bool" where
  "tunnel_has_iface links t = (case get links t of None \<Rightarrow> False | Some l \<Rightarrow> ls_iface l \<noteq> None)"

definition tunnel_waited :: "link_state list \<Rightarrow> nat \<Rightarrow> bool" where
  "tunnel_waited links t = (case get links t of None \<Rightarrow> False | Some l \<Rightarrow> ls_works l \<and> ls_iface l \<noteq> None)"

definition pick_any :: "nat list \<Rightarrow> link_state list \<Rightarrow> nat option \<Rightarrow> nat option" where
  "pick_any order links current =
     opt_or (List.find (tunnel_good links) order)
       (opt_or (Option.bind current (\<lambda>c. if tunnel_has_iface links c then Some c else None))
         (List.find (tunnel_has_iface links) order))"

definition pick :: "nat list \<Rightarrow> link_state list \<Rightarrow> nat option \<Rightarrow> instant \<Rightarrow> nat option" where
  "pick order links current now =
     (case current of
        Some c \<Rightarrow>
          if tunnel_waited links c then Some c
          else if tunnel_good links c then
            opt_or (List.find (tunnel_settled links now) (takeWhile (\<lambda>t. t \<noteq> c) order)) (Some c)
          else pick_any order links current
      | None \<Rightarrow> pick_any order links current)"

lemma settled_good: "tunnel_settled links now t \<Longrightarrow> tunnel_good links t"
  by (simp add: tunnel_settled_def)

lemma good_has_iface: "tunnel_good links t \<Longrightarrow> tunnel_has_iface links t"
  by (auto simp: tunnel_good_def tunnel_has_iface_def link_good_def split: option.splits)

lemma waited_has_iface: "tunnel_waited links t \<Longrightarrow> tunnel_has_iface links t"
  by (auto simp: tunnel_waited_def tunnel_has_iface_def split: option.splits)

lemma opt_or_Some: "opt_or a b = Some x \<longleftrightarrow> a = Some x \<or> (a = None \<and> b = Some x)"
  by (auto simp: opt_or_def split: option.splits)

lemma opt_or_None: "opt_or a b = None \<longleftrightarrow> a = None \<and> b = None"
  by (auto simp: opt_or_def split: option.splits)

lemma bind_if_Some: "Option.bind a (\<lambda>c. if P c then Some c else None) = Some x \<longleftrightarrow> a = Some x \<and> P x"
  by (cases a) auto

lemma pick_any_Some:
  "pick_any order links current = Some t \<Longrightarrow>
    (t \<in> set order \<or> current = Some t) \<and> tunnel_has_iface links t"
  by (auto simp: pick_any_def opt_or_Some bind_if_Some good_has_iface dest!: find_Some_in)

lemma pick_has_iface:
  "pick order links current now = Some t \<Longrightarrow>
    (t \<in> set order \<or> current = Some t) \<and> tunnel_has_iface links t"
  by (auto simp: pick_def opt_or_Some good_has_iface waited_has_iface settled_good
      split: option.splits if_splits dest!: find_Some_in pick_any_Some dest: set_takeWhileD)

lemma pick_None:
  "pick order links current now = None \<Longrightarrow> t \<in> set order \<Longrightarrow> \<not> tunnel_has_iface links t"
  by (auto simp: pick_def pick_any_def opt_or_None find_None_iff split: option.splits if_splits)

text \<open>A rule moves to a tunnel that carries whenever one does and its own does not.\<close>

lemma pick_good:
  assumes "t \<in> set order" "tunnel_good links t"
    and "\<And>c. current = Some c \<Longrightarrow> \<not> tunnel_waited links c"
  shows "\<exists>u. pick order links current now = Some u \<and> tunnel_good links u"
proof -
  have "List.find (tunnel_good links) order \<noteq> None"
    using assms(1,2) by (auto simp: find_None_iff)
  then have any: "\<exists>u. pick_any order links current = Some u \<and> tunnel_good links u"
    by (auto simp: pick_any_def opt_or_def dest: find_Some_in)
  show ?thesis
  proof (cases current)
    case None
    with any show ?thesis by (simp add: pick_def)
  next
    case (Some c)
    with any assms(3) show ?thesis
      by (auto simp: pick_def opt_or_def settled_good split: option.splits dest!: find_Some_in)
  qed
qed

text \<open>A tunnel that carries is left only for an earlier one that has carried for \<open>RETURN\<close>.\<close>

lemma pick_stays:
  assumes "tunnel_good links c" "\<not> tunnel_waited links c"
    and "pick order links (Some c) now = Some t" "t \<noteq> c"
  shows "t \<in> set (takeWhile (\<lambda>u. u \<noteq> c) order) \<and> tunnel_settled links now t"
  using assms by (auto simp: pick_def opt_or_Some dest: find_Some_in)

section \<open>The core\<close>

record rule_run =
  rn_name :: string
  rn_when :: when_cond
  rn_lists :: "string list"
  rn_tunnels :: "nat list"
  rn_active :: bool
  rn_current :: "nat option"

type_synonym placed = "nat \<times> u32"

record host_run =
  h_rule :: nat
  h_last :: nat
  h_placed :: "placed option"

definition is_placed :: "host_run \<Rightarrow> bool" where
  "is_placed h = (h_placed h \<noteq> None)"

lemma is_placed_simps [simp]:
  "is_placed \<lparr>h_rule = i, h_last = u, h_placed = p\<rparr> \<longleftrightarrow> p \<noteq> None"
  "is_placed (h\<lparr>h_placed := p\<rparr>) \<longleftrightarrow> p \<noteq> None"
  "is_placed (h\<lparr>h_last := u\<rparr>) \<longleftrightarrow> is_placed h"
  by (simp_all add: is_placed_def)

record target =
  tg_link :: nat
  tg_generation :: u32
  tg_index :: u16

definition target_placed :: "target \<Rightarrow> placed" where
  "target_placed t = (tg_link t, tg_generation t)"

text \<open>\<open>cr_unrouted\<close> is a hash set, as a list of its elements.\<close>

record core =
  cr_links :: "(string \<times> link_state) list"
  cr_rules :: "rule_run list"
  cr_hosts :: "(ipv4, host_run) hashmap"
  cr_subnets :: "(subnet, nat \<times> placed) hashmap"
  cr_unrouted :: "subnet list"
  cr_owner :: bool
  cr_use_fakeip :: bool
  cr_stopped :: bool

definition core_states :: "core \<Rightarrow> link_state list" where
  "core_states c = map snd (cr_links c)"

definition core_current :: "core \<Rightarrow> nat \<Rightarrow> link_state option" where
  "core_current c rule =
     Option.bind (get (cr_rules c) rule) (\<lambda>r.
     Option.bind (rn_current r) (\<lambda>t.
     map_option snd (get (cr_links c) t)))"

definition core_target :: "core \<Rightarrow> nat \<Rightarrow> target option" where
  "core_target c rule =
     Option.bind (get (cr_rules c) rule) (\<lambda>r.
     Option.bind (rn_current r) (\<lambda>link.
     Option.bind (map_option snd (get (cr_links c) link)) (\<lambda>l.
     Option.bind (ls_iface l) (\<lambda>i.
     Some \<lparr>tg_link = link, tg_generation = ls_generation l, tg_index = if_index i\<rparr>))))"

definition core_reasons :: "core \<Rightarrow> nat \<Rightarrow> reasons" where
  "core_reasons c rule =
     (let l = core_current c rule in
      \<lparr>rs_tunnel = (case l of None \<Rightarrow> True | Some l \<Rightarrow> \<not> (ls_iface l \<noteq> None \<and> alive (ls_health l))),
       rs_works = (case l of None \<Rightarrow> False | Some l \<Rightarrow> ls_works l),
       rs_owner = cr_owner c\<rparr>)"

definition core_carries :: "core \<Rightarrow> nat \<Rightarrow> bool" where
  "core_carries c rule =
     ((case get (cr_rules c) rule of None \<Rightarrow> False | Some r \<Rightarrow> rn_active r)
      \<and> \<not> reasons_any (core_reasons c rule))"

definition core_endpoints :: "core \<Rightarrow> ipv4 list" where
  "core_endpoints c = List.map_filter (\<lambda>(_, l). ls_endpoint l) (cr_links c)"

text \<open>The pairs of a list and a rule in force that has it, in the order of the rules.\<close>

definition active_lists :: "rule_run list \<Rightarrow> (string \<times> nat) list" where
  "active_lists rules =
     concat (map (\<lambda>(i, r). map (\<lambda>l. (l, i)) (rn_lists r)) (filter (\<lambda>(_, r). rn_active r) (enumerate 0 rules)))"

definition core_owners :: "core \<Rightarrow> (string, nat) hashmap" where
  "core_owners c = foldl (\<lambda>m (l, i). hm_or_insert l i m) [] (active_lists (cr_rules c))"

definition own_subnet ::
    "(string, nat) hashmap \<Rightarrow> (subnet, nat) hashmap \<Rightarrow> subnet \<times> string \<Rightarrow> (subnet, nat) hashmap" where
  "own_subnet owners out e =
     (let (s, list) = e in
      if overlaps s FAKEIP then out
      else (case hm_get owners list of
              None \<Rightarrow> out
            | Some r \<Rightarrow>
                (case hm_get out s of
                   Some old \<Rightarrow> hm_insert s (min old r) out
                 | None \<Rightarrow> hm_insert s r out)))"

definition core_subnet_owners :: "core \<Rightarrow> lists \<Rightarrow> (subnet, nat) hashmap" where
  "core_subnet_owners c l = foldl (own_subnet (core_owners c)) [] (subnets l)"

record pick_result =
  pk_rule :: nat
  pk_name :: string
  pk_always :: bool
  pk_via :: "u16 option"
  pk_reasons :: reasons

fun choose_loop ::
    "core \<Rightarrow> string list \<Rightarrow> nat \<Rightarrow> rule_run list \<Rightarrow> pick_result option \<Rightarrow> pick_result option" where
  "choose_loop c ls i [] first = first"
| "choose_loop c ls i (r # rs) first =
     (if \<not> rn_active r \<or> \<not> list_ex (\<lambda>l. l \<in> set ls) (rn_lists r)
      then choose_loop c ls (Suc i) rs first
      else
        let p = \<lparr>pk_rule = i, pk_name = rn_name r, pk_always = (rn_when r = Always),
                 pk_via = None, pk_reasons = core_reasons c i\<rparr>
        in case (if core_carries c i then core_target c i else None) of
             Some t \<Rightarrow> Some (p\<lparr>pk_via := Some (tg_index t)\<rparr>)
           | None \<Rightarrow> choose_loop c ls (Suc i) rs (case first of None \<Rightarrow> Some p | Some f \<Rightarrow> Some f))"

definition core_choose :: "core \<Rightarrow> string list \<Rightarrow> pick_result option" where
  "core_choose c ls = choose_loop c ls 0 (cr_rules c) None"

lemma carries_target: "core_carries c i \<Longrightarrow> \<exists>t. core_target c i = Some t"
  by (auto simp: core_carries_def reasons_any_def core_reasons_def core_current_def core_target_def
      Let_def bind_eq_Some_conv split: option.splits)

lemma target_current:
  "core_target c i = Some t \<Longrightarrow>
    \<exists>l f. core_current c i = Some l \<and> ls_iface l = Some f \<and> tg_index t = if_index f"
  by (auto simp: core_target_def core_current_def bind_eq_Some_conv)

text \<open>A rule has a name: it is in force and has one of the lists.\<close>

definition rule_has :: "core \<Rightarrow> string list \<Rightarrow> nat \<Rightarrow> bool" where
  "rule_has c ls i =
     (case get (cr_rules c) i of
        None \<Rightarrow> False
      | Some r \<Rightarrow> rn_active r \<and> set (rn_lists r) \<inter> set ls \<noteq> {})"

definition pick_refusing :: "core \<Rightarrow> nat \<Rightarrow> pick_result" where
  "pick_refusing c i =
     (let r = cr_rules c ! i in
      \<lparr>pk_rule = i, pk_name = rn_name r, pk_always = (rn_when r = Always), pk_via = None,
       pk_reasons = core_reasons c i\<rparr>)"

definition pick_through :: "core \<Rightarrow> nat \<Rightarrow> pick_result" where
  "pick_through c i = (pick_refusing c i)\<lparr>pk_via := map_option tg_index (core_target c i)\<rparr>"

lemma pick_fields [simp]:
  "pk_rule (pick_refusing c i) = i" "pk_via (pick_refusing c i) = None"
  "pk_reasons (pick_refusing c i) = core_reasons c i"
  "pk_name (pick_refusing c i) = rn_name (cr_rules c ! i)"
  "pk_always (pick_refusing c i) = (rn_when (cr_rules c ! i) = Always)"
  "pk_rule (pick_through c i) = i" "pk_via (pick_through c i) = map_option tg_index (core_target c i)"
  "pk_name (pick_through c i) = rn_name (cr_rules c ! i)"
  "pk_always (pick_through c i) = (rn_when (cr_rules c ! i) = Always)"
  by (simp_all add: pick_refusing_def pick_through_def Let_def)

definition choose_spec :: "core \<Rightarrow> string list \<Rightarrow> pick_result option" where
  "choose_spec c ls =
     (case List.find (\<lambda>i. rule_has c ls i \<and> core_carries c i) [0..<length (cr_rules c)] of
        Some i \<Rightarrow> Some (pick_through c i)
      | None \<Rightarrow> map_option (pick_refusing c) (List.find (rule_has c ls) [0..<length (cr_rules c)]))"

lemma choose_loop_spec:
  assumes "drop i (cr_rules c) = rs"
  shows "choose_loop c ls i rs first =
    (case List.find (\<lambda>i. rule_has c ls i \<and> core_carries c i) [i..<length (cr_rules c)] of
       Some j \<Rightarrow> Some (pick_through c j)
     | None \<Rightarrow> (case first of
                  Some f \<Rightarrow> Some f
                | None \<Rightarrow> map_option (pick_refusing c) (List.find (rule_has c ls) [i..<length (cr_rules c)])))"
  using assms
proof (induction rs arbitrary: i first)
  case Nil
  then show ?case by (auto split: option.splits)
next
  case (Cons r rs)
  from Cons.prems have i: "i < length (cr_rules c)" "cr_rules c ! i = r"
    by (metis drop_eq_Nil leI list.distinct(1), metis Cons.prems hd_drop_conv_nth list.sel(1)
        drop_eq_Nil leI list.distinct(1))
  have rest: "drop (Suc i) (cr_rules c) = rs"
    using Cons.prems by (simp add: drop_Suc tl_drop [symmetric])
  have upt: "[i..<length (cr_rules c)] = i # [Suc i..<length (cr_rules c)]"
    using i(1) by (rule upt_conv_Cons)
  have get: "get (cr_rules c) i = Some r" using i by simp
  have has: "rule_has c ls i \<longleftrightarrow> rn_active r \<and> list_ex (\<lambda>l. l \<in> set ls) (rn_lists r)"
    unfolding rule_has_def get by (auto simp: list_ex_iff)
  let ?P = "\<lambda>i. rule_has c ls i \<and> core_carries c i" and ?n = "length (cr_rules c)"
  have find: "List.find Q [i..<?n] = (if Q i then Some i else List.find Q [Suc i..<?n])" for Q
    by (simp add: upt)
  note IH = Cons.IH [OF rest]
  consider (skip) "\<not> rule_has c ls i"
    | (hit) t where "rule_has c ls i" "core_carries c i" "core_target c i = Some t"
    | (miss) "rule_has c ls i" "\<not> core_carries c i"
    using carries_target by blast
  then show ?case
  proof cases
    case skip
    then have "choose_loop c ls i (r # rs) first = choose_loop c ls (Suc i) rs first"
      unfolding has by simp
    with skip show ?thesis by (simp only: IH find simp_thms if_False)
  next
    case hit
    then have "choose_loop c ls i (r # rs) first = Some (pick_through c i)"
      by (simp add: pick_through_def pick_refusing_def i has)
    with hit show ?thesis by (simp only: find simp_thms if_True option.case)
  next
    case miss
    then have "choose_loop c ls i (r # rs) first =
        choose_loop c ls (Suc i) rs (case first of None \<Rightarrow> Some (pick_refusing c i) | Some f \<Rightarrow> Some f)"
      unfolding has by (cases first) (simp_all add: pick_refusing_def i)
    with miss show ?thesis
      by (cases first) (simp_all only: IH find simp_thms if_False if_True option.case option.map)
  qed
qed

lemma core_choose_spec: "core_choose c ls = choose_spec c ls"
  by (simp add: core_choose_def choose_spec_def choose_loop_spec split: option.split)

lemma find_upt:
  "List.find P [0..<n] = Some i \<longleftrightarrow> i < n \<and> P i \<and> (\<forall>j<i. \<not> P j)"
  by (auto simp: find_Some_iff)

lemma choose_via:
  assumes "core_choose c ls = Some p" "pk_via p = Some v"
  shows "rule_has c ls (pk_rule p) \<and> core_carries c (pk_rule p) \<and>
    (\<exists>t. core_target c (pk_rule p) = Some t \<and> v = tg_index t) \<and>
    (\<forall>j<pk_rule p. rule_has c ls j \<longrightarrow> \<not> core_carries c j)"
proof -
  from assms obtain i where
    i: "List.find (\<lambda>i. rule_has c ls i \<and> core_carries c i) [0..<length (cr_rules c)] = Some i"
    and p: "p = pick_through c i"
    by (auto simp: core_choose_spec choose_spec_def split: option.splits)
  with assms(2) show ?thesis
    by (auto simp: find_upt)
qed

lemma choose_no_via:
  assumes "core_choose c ls = Some p" "pk_via p = None"
  shows "rule_has c ls (pk_rule p) \<and> (\<forall>j<pk_rule p. \<not> rule_has c ls j) \<and>
    (\<forall>j. rule_has c ls j \<longrightarrow> \<not> core_carries c j) \<and> pk_reasons p = core_reasons c (pk_rule p)"
proof -
  have "List.find (\<lambda>i. rule_has c ls i \<and> core_carries c i) [0..<length (cr_rules c)] = None"
  proof (rule ccontr)
    assume "\<not> ?thesis"
    then obtain i where f: "List.find (\<lambda>i. rule_has c ls i \<and> core_carries c i) [0..<length (cr_rules c)] = Some i"
      by auto
    then have "core_carries c i" by (auto simp: find_upt)
    then obtain t where "core_target c i = Some t" using carries_target by blast
    with f assms show False
      by (auto simp: core_choose_spec choose_spec_def)
  qed
  with assms obtain i where "List.find (rule_has c ls) [0..<length (cr_rules c)] = Some i"
      "p = pick_refusing c i"
      and none: "\<forall>j<length (cr_rules c). \<not> (rule_has c ls j \<and> core_carries c j)"
    by (auto simp: core_choose_spec choose_spec_def find_None_iff)
  moreover have "\<forall>j. rule_has c ls j \<longrightarrow> \<not> core_carries c j"
    using none by (auto simp: rule_has_def split: option.splits)
  ultimately show ?thesis
    by (auto simp: find_upt)
qed

lemma choose_None: "core_choose c ls = None \<Longrightarrow> \<not> rule_has c ls j"
  by (auto simp: core_choose_spec choose_spec_def find_None_iff rule_has_def split: option.splits)

section \<open>Owners of lists and subnets\<close>

lemma map_of_same: "map_of (map (\<lambda>l. (l, i)) ls) l = (if l \<in> set ls then Some i else None)"
  by (induction ls) auto

lemma enumerate_upt: "enumerate 0 xs = map (\<lambda>i. (i, xs ! i)) [0..<length xs]"
  by (rule nth_equalityI) (simp_all add: nth_enumerate_eq)

lemma map_of_active_lists:
  "map_of (active_lists rules) l =
    List.find (\<lambda>i. rn_active (rules ! i) \<and> l \<in> set (rn_lists (rules ! i))) [0..<length rules]"
proof -
  have "map_of (concat (map (\<lambda>(i, r). map (\<lambda>l. (l, i)) (rn_lists r))
        (filter (\<lambda>(_, r). rn_active r) (map (\<lambda>i. (i, rules ! i)) js)))) l =
      List.find (\<lambda>i. rn_active (rules ! i) \<and> l \<in> set (rn_lists (rules ! i))) js" for js
    by (induction js) (auto simp: map_add_def map_of_same split: option.splits)
  then show ?thesis by (simp add: active_lists_def enumerate_upt)
qed

lemma find_cong_set: "(\<And>x. x \<in> set xs \<Longrightarrow> P x = Q x) \<Longrightarrow> List.find P xs = List.find Q xs"
  by (induction xs) auto

lemma owners_first:
  "hm_get (core_owners c) l = List.find (rule_has c [l]) [0..<length (cr_rules c)]"
  by (simp add: core_owners_def hm_or_insert_all_get map_of_active_lists)
    (rule find_cong_set, simp add: rule_has_def get_def)

lemma owners_ok: "hm_ok (core_owners c)"
  by (simp add: core_owners_def hm_or_insert_all_ok)

text \<open>The lists a subnet is written in.\<close>

definition subnet_lists :: "lists \<Rightarrow> subnet \<Rightarrow> string list" where
  "subnet_lists l s = map snd (filter (\<lambda>(t, _). t = s) (subnets l))"

lemma own_subnet_fold:
  "hm_get (foldl (own_subnet ow) [] es) s =
    (let R = set (List.map_filter (\<lambda>n. hm_get ow n) (map snd (filter (\<lambda>(t, _). t = s) es))) in
     if overlaps s FAKEIP \<or> R = {} then None else Some (Min R))"
proof (induction es rule: rev_induct)
  case Nil
  then show ?case by (simp add: List.map_filter_simps)
next
  case (snoc e es)
  obtain t n where e: "e = (t, n)" by (cases e)
  let ?R = "set (List.map_filter (\<lambda>n. hm_get ow n) (map snd (filter (\<lambda>(t, _). t = s) es)))"
  have mf: "List.map_filter f (xs @ [x]) =
      List.map_filter f xs @ (case f x of None \<Rightarrow> [] | Some y \<Rightarrow> [y])" for f :: "string \<Rightarrow> nat option" and xs x
    by (simp add: List.map_filter_def split: option.splits)
  show ?case
  proof (cases "t = s \<and> \<not> overlaps s FAKEIP \<and> hm_get ow n \<noteq> None")
    case False
    then show ?thesis
      using snoc by (auto simp: e own_subnet_def dict_simps mf Let_def split: option.splits)
  next
    case True
    then obtain r where r: "t = s" "\<not> overlaps s FAKEIP" "hm_get ow n = Some r" by auto
    show ?thesis
    proof (cases "?R = {}")
      case True
      with r snoc show ?thesis by (simp add: e own_subnet_def dict_simps mf Let_def)
    next
      case False
      then have "Min (insert r ?R) = min (Min ?R) r"
        by (simp add: min.commute)
      with False r snoc show ?thesis by (simp add: e own_subnet_def dict_simps mf Let_def)
    qed
  qed
qed

lemma subnet_owners_ok: "hm_ok (core_subnet_owners c l)"
proof -
  have "hm_ok m \<Longrightarrow> hm_ok (foldl (own_subnet ow) m es)" for ow m es
    by (induction es arbitrary: m)
      (auto simp: own_subnet_def Let_def hm.inv_ins split: option.splits)
  then show ?thesis by (simp add: core_subnet_owners_def)
qed

lemma in_map_filter: "y \<in> set (List.map_filter f xs) \<longleftrightarrow> (\<exists>x\<in>set xs. f x = Some y)"
  by (induction xs) (auto simp: List.map_filter_simps split: option.splits)

lemma rule_has_mono: "rule_has c ls i \<longleftrightarrow> (\<exists>l\<in>set ls. rule_has c [l] i)"
  by (auto simp: rule_has_def split: option.splits)

lemma subnet_owners_first:
  "hm_get (core_subnet_owners c l) s =
    (if overlaps s FAKEIP then None
     else List.find (rule_has c (subnet_lists l s)) [0..<length (cr_rules c)])"
proof (cases "overlaps s FAKEIP")
  case True
  then show ?thesis by (simp add: core_subnet_owners_def own_subnet_fold Let_def)
next
  case False
  let ?n = "length (cr_rules c)"
  let ?R = "set (List.map_filter (hm_get (core_owners c)) (subnet_lists l s))"
  have R: "r \<in> ?R \<longleftrightarrow> (\<exists>m\<in>set (subnet_lists l s). r < ?n \<and> rule_has c [m] r \<and> (\<forall>j<r. \<not> rule_has c [m] j))" for r
    by (simp add: in_map_filter owners_first find_upt Bex_def conj_commute)
  have first: "\<exists>r\<in>?R. r \<le> i" if "rule_has c (subnet_lists l s) i" "i < ?n" for i
  proof -
    from that obtain m where m: "m \<in> set (subnet_lists l s)" "rule_has c [m] i"
      by (auto simp: rule_has_mono [of c "subnet_lists l s"])
    define k where "k = (LEAST k. rule_has c [m] k)"
    have "rule_has c [m] k" "k \<le> i" "\<forall>j<k. \<not> rule_has c [m] j"
      using m(2) by (auto simp: k_def intro: LeastI Least_le dest: not_less_Least)
    with m that(2) have "k \<in> ?R" unfolding R by fastforce
    with \<open>k \<le> i\<close> show ?thesis by blast
  qed
  have in_R: "rule_has c (subnet_lists l s) r \<and> r < ?n" if "r \<in> ?R" for r
    using that unfolding R rule_has_mono [of c "subnet_lists l s"] by blast
  have get: "hm_get (core_subnet_owners c l) s = (if ?R = {} then None else Some (Min ?R))"
    using False by (simp add: core_subnet_owners_def own_subnet_fold Let_def subnet_lists_def)
  show ?thesis
  proof (cases "?R = {}")
    case True
    with first have "List.find (rule_has c (subnet_lists l s)) [0..<?n] = None"
      by (auto simp: find_None_iff)
    with True False get show ?thesis by simp
  next
    case False2: False
    have "Min ?R \<in> ?R" using False2 by (intro Min_in) auto
    moreover have "\<not> rule_has c (subnet_lists l s) j" if "j < Min ?R" for j
    proof
      assume "rule_has c (subnet_lists l s) j"
      moreover have "j < ?n" using that in_R [OF \<open>Min ?R \<in> ?R\<close>] by simp
      ultimately obtain r where "r \<in> ?R" "r \<le> j" using first by blast
      moreover from this have "Min ?R \<le> r" by simp
      ultimately show False using that by simp
    qed
    ultimately have "List.find (rule_has c (subnet_lists l s)) [0..<?n] = Some (Min ?R)"
      using in_R by (auto simp: find_upt)
    with False2 False get show ?thesis by simp
  qed
qed

end
