(* ===== verification/Pf.thy ===== *)
theory Pf
  imports Probe Core
begin

text \<open>
  Model of \<open>src/pf.rs\<close>: the anchor ruleset of the kill switch as text, the table files, and the
  operations that load, change and release them. The packet filter itself is a parameter;
  \<open>pf_documented\<close> states what its manual says of \<open>quick\<close> rules, on the lines of a ruleset.
  Shown: what leaves and what does not under the ruleset, for every shape and every content of the
  tables; the table file of a rule reads back; a load that succeeded wrote every table.
\<close>

section \<open>The shape\<close>

definition ANCHOR :: string where "ANCHOR = ''com.apple/mac-gate''"
definition PFCTL :: string where "PFCTL = ''/sbin/pfctl''"
definition HOSTS :: string where "HOSTS = ''mac_gate_h''"
definition NETS :: string where "NETS = ''mac_gate_n''"
definition HOSTS_FILE :: string where "HOSTS_FILE = ''pf-hosts''"
definition NETS_FILE :: string where "NETS_FILE = ''pf-nets''"
definition TOKEN_FILE :: string where "TOKEN_FILE = ''pf-token''"
definition STEP :: duration where "STEP = from_secs 10"

record shape =
  sh_rules :: "string list option list"
  sh_use_fakeip :: bool
  sh_endpoints :: "ipv4 list"
  sh_network :: "(string \<times> ipv4) option"

definition show_bool :: "bool \<Rightarrow> string" where
  "show_bool b = (if b then ''true'' else ''false'')"

definition show_shape :: "shape \<Rightarrow> string" where
  "show_shape s =
     (let rules = map (\<lambda>r. case r of
            None \<Rightarrow> ''off''
          | Some t \<Rightarrow> if t = [] then ''none'' else join '','' t) (sh_rules s);
          endpoints = map show_ip (sh_endpoints s)
      in ''rules='' @ join '' '' rules @ '' use_fakeip='' @ show_bool (sh_use_fakeip s) @
         '' endpoints='' @ (if endpoints = [] then ''none'' else join '','' endpoints) @
         '' network='' @ (case sh_network s of None \<Rightarrow> ''none'' | Some (i, d) \<Rightarrow> i @ '' dns='' @ show_ip d))"

definition table_file :: "path \<Rightarrow> string \<Rightarrow> nat \<Rightarrow> path" where
  "table_file dir kind rule = path_join dir (kind @ ''-'' @ show_nat rule)"

text \<open>\<open>writeln!\<close> to a string.\<close>

definition writeln :: "string \<Rightarrow> string" where
  "writeln s = s @ [NL]"

definition rules_on :: "shape \<Rightarrow> (nat \<times> string list) list" where
  "rules_on s = List.map_filter (\<lambda>(i, t). map_option (Pair i) t) (enumerate 0 (sh_rules s))"

section \<open>The ruleset\<close>

definition ruleset :: "shape \<Rightarrow> path \<Rightarrow> string" where
  "ruleset s dir =
     concat (map (\<lambda>(i, _).
       concat (map (\<lambda>(table, kind).
         writeln (''table <'' @ table @ show_nat i @ ''> persist file '' @ [CHR 0x22] @
           table_file dir kind i @ [CHR 0x22])) [(HOSTS, HOSTS_FILE), (NETS, NETS_FILE)])) (rules_on s)) @
     concat (map (\<lambda>ip. writeln (''pass out quick inet to '' @ show_ip ip @ '' no state'')) (sh_endpoints s)) @
     (case sh_network s of
        None \<Rightarrow> []
      | Some (iface, dns) \<Rightarrow>
          writeln (''pass out quick on '' @ iface @ '' inet proto { udp tcp } to '' @ show_ip dns @
            '' port 53 no state'') @
          writeln (''pass out quick on '' @ iface @ '' inet proto icmp to { '' @
            join '' '' (map show_ip TARGETS) @ '' } icmp-type echoreq no state'')) @
     concat (map (\<lambda>(i, tunnels).
       (case tunnels of
          [] \<Rightarrow> []
        | _ \<Rightarrow>
          (let on = (case tunnels of [one] \<Rightarrow> one | many \<Rightarrow> ''{ '' @ join '' '' many @ '' }'')
           in concat (map (\<lambda>table.
                writeln (''pass out quick on '' @ on @ '' inet to <'' @ table @ show_nat i @ ''> no state''))
                [HOSTS, NETS])))) (rules_on s)) @
     concat (map (\<lambda>(i, _).
       writeln (''block drop out quick inet to <'' @ HOSTS @ show_nat i @ ''>'') @
       (if \<not> sh_use_fakeip s
        then writeln (''block drop out quick inet to <'' @ NETS @ show_nat i @ ''>'') else [])) (rules_on s))"

section \<open>Tokens, tables and files\<close>

definition token_line :: "string \<Rightarrow> string option" where
  "token_line line =
     Option.bind (split_once (CHR '':'') line) (\<lambda>(key, value).
       let value = trim value in
       if trim key = ''Token'' \<and> value \<noteq> [] \<and> list_all is_digit value then Some value else None)"

definition parse_token :: "string \<Rightarrow> string option" where
  "parse_token txt = find_map token_line (lines txt)"

definition write_private :: "'w os \<Rightarrow> path \<Rightarrow> string \<Rightarrow> 'w \<Rightarrow> unit io_result \<times> 'w" where
  "write_private os p txt w = os_write os p txt w"

definition parse_table :: "string \<Rightarrow> ipv4 list" where
  "parse_table txt = List.map_filter parse_ip (split_whitespace txt)"

definition write_lines :: "('a \<Rightarrow> string) \<Rightarrow> 'a list \<Rightarrow> string" where
  "write_lines show items = foldl (\<lambda>s i. s @ writeln (show i)) [] items"

record tables =
  tb_hosts :: "ipv4 list list"
  tb_nets :: "subnet list list"

text \<open>A list by its index, none out of range.\<close>

definition nth_or_empty :: "'a list list \<Rightarrow> nat \<Rightarrow> 'a list" where
  "nth_or_empty xs i = (case get xs i of None \<Rightarrow> [] | Some x \<Rightarrow> x)"

section \<open>Operations\<close>

text \<open>
  \<open>Pf\<close> holds the directory; its lock makes each of these one step. Every operation takes the
  operating system and returns what it answered.
\<close>

definition Pf_enable :: "'w os \<Rightarrow> path \<Rightarrow> 'w \<Rightarrow> unit io_result \<times> 'w" where
  "Pf_enable os dir w =
     (let p = path_join dir TOKEN_FILE;
          old = (case os_read os p w of Inl _ \<Rightarrow> None | Inr t \<Rightarrow> Some t)
      in case run_both os PFCTL [''-E''] None STEP w of
           (Inl e, w) \<Rightarrow> (Inl e, w)
         | (Inr (out, err), w) \<Rightarrow>
             (case opt_or (parse_token out) (parse_token err) of
                None \<Rightarrow> (Inl (OtherError ''pfctl -E gave no token''), w)
              | Some token \<Rightarrow>
                  (case write_private os p (writeln token) w of
                     (Inl e, w) \<Rightarrow> (Inl e, w)
                   | (Inr _, w) \<Rightarrow>
                       (case map_option trim old of
                          Some t \<Rightarrow>
                            if t \<noteq> [] \<and> t \<noteq> token
                            then (Inr (), snd (run os PFCTL [''-X'', t] None STEP w))
                            else (Inr (), w)
                        | None \<Rightarrow> (Inr (), w)))))"

fun write_tables :: "'w os \<Rightarrow> path \<Rightarrow> tables \<Rightarrow> nat list \<Rightarrow> 'w \<Rightarrow> unit io_result \<times> 'w" where
  "write_tables os dir t [] w = (Inr (), w)"
| "write_tables os dir t (i # is) w =
     (let hosts = write_lines show_ip (nth_or_empty (tb_hosts t) i);
          nets = write_lines show_subnet (nth_or_empty (tb_nets t) i)
      in case write_private os (table_file dir HOSTS_FILE i) hosts w of
           (Inl e, w) \<Rightarrow> (Inl e, w)
         | (Inr _, w) \<Rightarrow>
             (case write_private os (table_file dir NETS_FILE i) nets w of
                (Inl e, w) \<Rightarrow> (Inl e, w)
              | (Inr _, w) \<Rightarrow> write_tables os dir t is w))"

definition Pf_load :: "'w os \<Rightarrow> path \<Rightarrow> shape \<Rightarrow> tables \<Rightarrow> 'w \<Rightarrow> unit io_result \<times> 'w" where
  "Pf_load os dir s t w =
     (case write_tables os dir t [0..<length (sh_rules s)] w of
        (Inl e, w) \<Rightarrow> (Inl e, w)
      | (Inr _, w) \<Rightarrow>
          (case run os PFCTL [''-q'', ''-a'', ANCHOR, ''-f'', ''-''] (Some (ruleset s dir)) STEP w of
             (Inl e, w) \<Rightarrow> (Inl e, w)
           | (Inr _, w) \<Rightarrow> (Inr (), w)))"

fun Pf_held_from :: "'w os \<Rightarrow> nat list \<Rightarrow> 'w \<Rightarrow> (nat \<times> ipv4) list \<times> 'w" where
  "Pf_held_from os [] w = ([], w)"
| "Pf_held_from os (i # is) w =
     (case run os PFCTL [''-q'', ''-a'', ANCHOR, ''-t'', HOSTS @ show_nat i, ''-T'', ''show''] None STEP w of
        (Inl _, w) \<Rightarrow> Pf_held_from os is w
      | (Inr out, w) \<Rightarrow>
          (case Pf_held_from os is w of
             (held, w) \<Rightarrow> (map (Pair i) (parse_table out) @ held, w)))"

definition Pf_held_hosts :: "'w os \<Rightarrow> nat \<Rightarrow> 'w \<Rightarrow> (nat \<times> ipv4) list \<times> 'w" where
  "Pf_held_hosts os rules w = Pf_held_from os [0..<rules] w"

definition Pf_table :: "'w os \<Rightarrow> string \<Rightarrow> nat \<Rightarrow> ipv4 list \<Rightarrow> 'w \<Rightarrow> unit io_result \<times> 'w" where
  "Pf_table os oper rule ips w =
     (if ips = [] then (Inr (), w)
      else case run os PFCTL
             ([''-q'', ''-a'', ANCHOR, ''-t'', HOSTS @ show_nat rule, ''-T'', oper] @ map show_ip ips)
             None STEP w of
             (Inl e, w) \<Rightarrow> (Inl e, w)
           | (Inr _, w) \<Rightarrow> (Inr (), w))"

definition Pf_add :: "'w os \<Rightarrow> nat \<Rightarrow> ipv4 list \<Rightarrow> 'w \<Rightarrow> unit io_result \<times> 'w" where
  "Pf_add os rule ips w = Pf_table os ''add'' rule ips w"

definition Pf_delete :: "'w os \<Rightarrow> nat \<Rightarrow> ipv4 list \<Rightarrow> 'w \<Rightarrow> unit io_result \<times> 'w" where
  "Pf_delete os rule ips w = Pf_table os ''delete'' rule ips w"

text \<open>\<open>Result::and\<close>: the first error, else the second result.\<close>

definition res_and :: "'a io_result \<Rightarrow> 'b io_result \<Rightarrow> 'b io_result" where
  "res_and a b = (case a of Inl e \<Rightarrow> Inl e | Inr _ \<Rightarrow> b)"

fun remove_tables :: "'w os \<Rightarrow> path \<Rightarrow> string list \<Rightarrow> 'w \<Rightarrow> 'w" where
  "remove_tables os dir [] w = w"
| "remove_tables os dir (n # ns) w =
     (if starts_with n HOSTS_FILE \<or> starts_with n NETS_FILE
      then remove_tables os dir ns (snd (os_remove os (path_join dir n) w))
      else remove_tables os dir ns w)"

definition Pf_release :: "'w os \<Rightarrow> path \<Rightarrow> 'w \<Rightarrow> unit io_result \<times> 'w" where
  "Pf_release os dir w =
     (let (rules, w) = run os PFCTL [''-q'', ''-a'', ANCHOR, ''-F'', ''rules''] None STEP w;
          (tables, w) = run os PFCTL [''-q'', ''-a'', ANCHOR, ''-F'', ''Tables''] None STEP w;
          p = path_join dir TOKEN_FILE;
          (token, w) = (case os_read os p w of
             Inr t \<Rightarrow> run os PFCTL [''-X'', trim t] None STEP w
           | Inl e \<Rightarrow> (Inl e, w));
          (_, w) = os_remove os p w;
          w = (case os_list os dir w of Inr entries \<Rightarrow> remove_tables os dir entries w | Inl _ \<Rightarrow> w)
      in (case res_and (res_and rules tables) token of Inl e \<Rightarrow> Inl e | Inr _ \<Rightarrow> Inr (), w))"

section \<open>What the ruleset means\<close>

datatype table_id = Hosts_of nat | Nets_of nat

datatype anchor_line =
    Table_line table_id
  | Pass_server ipv4
  | Pass_dns string ipv4
  | Pass_probe string
  | Pass_on "string list" table_id
  | Block_to table_id

definition anchor :: "shape \<Rightarrow> anchor_line list" where
  "anchor s =
     concat (map (\<lambda>(i, _). [Table_line (Hosts_of i), Table_line (Nets_of i)]) (rules_on s)) @
     map Pass_server (sh_endpoints s) @
     (case sh_network s of None \<Rightarrow> [] | Some (iface, dns) \<Rightarrow> [Pass_dns iface dns, Pass_probe iface]) @
     concat (map (\<lambda>(i, ts). if ts = [] then [] else [Pass_on ts (Hosts_of i), Pass_on ts (Nets_of i)]) (rules_on s)) @
     concat (map (\<lambda>(i, _). Block_to (Hosts_of i) # (if sh_use_fakeip s then [] else [Block_to (Nets_of i)])) (rules_on s))"

fun table_name :: "table_id \<Rightarrow> string" where
  "table_name (Hosts_of i) = HOSTS @ show_nat i"
| "table_name (Nets_of i) = NETS @ show_nat i"

fun table_path :: "path \<Rightarrow> table_id \<Rightarrow> path" where
  "table_path dir (Hosts_of i) = table_file dir HOSTS_FILE i"
| "table_path dir (Nets_of i) = table_file dir NETS_FILE i"

fun show_line :: "path \<Rightarrow> anchor_line \<Rightarrow> string" where
  "show_line dir (Table_line t) =
     ''table <'' @ table_name t @ ''> persist file '' @ [CHR 0x22] @ table_path dir t @ [CHR 0x22]"
| "show_line dir (Pass_server ip) = ''pass out quick inet to '' @ show_ip ip @ '' no state''"
| "show_line dir (Pass_dns iface dns) =
     ''pass out quick on '' @ iface @ '' inet proto { udp tcp } to '' @ show_ip dns @ '' port 53 no state''"
| "show_line dir (Pass_probe iface) =
     ''pass out quick on '' @ iface @ '' inet proto icmp to { '' @ join '' '' (map show_ip TARGETS) @
     '' } icmp-type echoreq no state''"
| "show_line dir (Pass_on ts t) =
     ''pass out quick on '' @ (case ts of [one] \<Rightarrow> one | _ \<Rightarrow> ''{ '' @ join '' '' ts @ '' }'') @
     '' inet to <'' @ table_name t @ ''> no state''"
| "show_line dir (Block_to t) = ''block drop out quick inet to <'' @ table_name t @ ''>''"

text \<open>The text of the ruleset is the anchor, line by line.\<close>

lemma concat_map_case_prod:
  "concat (map f (concat (map g xs))) = concat (map (\<lambda>x. concat (map f (g x))) xs)"
  by (induction xs) auto

lemma ruleset_anchor: "ruleset s dir = concat (map (\<lambda>l. writeln (show_line dir l)) (anchor s))"
proof -
  let ?w = "\<lambda>l. writeln (show_line dir l)"
  have a: "concat (map (\<lambda>(i, _).
       concat (map (\<lambda>(table, kind).
         writeln (''table <'' @ table @ show_nat i @ ''> persist file '' @ [CHR 0x22] @
           table_file dir kind i @ [CHR 0x22])) [(HOSTS, HOSTS_FILE), (NETS, NETS_FILE)])) (rules_on s)) =
    concat (map ?w (concat (map (\<lambda>(i, _). [Table_line (Hosts_of i), Table_line (Nets_of i)]) (rules_on s))))"
    unfolding concat_map_case_prod by (intro arg_cong [where f = concat] map_cong refl) auto
  have b: "concat (map (\<lambda>ip. writeln (''pass out quick inet to '' @ show_ip ip @ '' no state'')) (sh_endpoints s)) =
    concat (map ?w (map Pass_server (sh_endpoints s)))"
    by (simp add: comp_def)
  have c: "concat (map (\<lambda>(i, tunnels).
       (case tunnels of
          [] \<Rightarrow> []
        | _ \<Rightarrow>
          (let on = (case tunnels of [one] \<Rightarrow> one | many \<Rightarrow> ''{ '' @ join '' '' many @ '' }'')
           in concat (map (\<lambda>table.
                writeln (''pass out quick on '' @ on @ '' inet to <'' @ table @ show_nat i @ ''> no state''))
                [HOSTS, NETS])))) (rules_on s)) =
    concat (map ?w (concat (map (\<lambda>(i, ts). if ts = [] then [] else [Pass_on ts (Hosts_of i), Pass_on ts (Nets_of i)]) (rules_on s))))"
    unfolding concat_map_case_prod
    by (intro arg_cong [where f = concat] map_cong refl) (auto split: list.split)
  have d: "concat (map (\<lambda>(i, _).
       writeln (''block drop out quick inet to <'' @ HOSTS @ show_nat i @ ''>'') @
       (if \<not> sh_use_fakeip s
        then writeln (''block drop out quick inet to <'' @ NETS @ show_nat i @ ''>'') else [])) (rules_on s)) =
    concat (map ?w (concat (map (\<lambda>(i, _). Block_to (Hosts_of i) # (if sh_use_fakeip s then [] else [Block_to (Nets_of i)])) (rules_on s))))"
    unfolding concat_map_case_prod by (intro arg_cong [where f = concat] map_cong refl) auto
  show ?thesis
    unfolding ruleset_def anchor_def map_append concat_append a b c d
    by (simp split: option.split)
qed

text \<open>A packet on its way out, and what a line says of it.\<close>

datatype packet_kind = Udp_to nat | Tcp_to nat | Echo_request | Other_packet

record packet =
  pkt_iface :: string
  pkt_dst :: ipv4
  pkt_kind :: packet_kind

datatype pf_action = Pass | Drop

type_synonym table_content = "table_id \<Rightarrow> ipv4 \<Rightarrow> bool"

fun line_action :: "table_content \<Rightarrow> packet \<Rightarrow> anchor_line \<Rightarrow> pf_action option" where
  "line_action tbl p (Table_line t) = None"
| "line_action tbl p (Pass_server ip) = (if pkt_dst p = ip then Some Pass else None)"
| "line_action tbl p (Pass_dns iface dns) =
     (if pkt_iface p = iface \<and> pkt_dst p = dns \<and> pkt_kind p \<in> {Udp_to 53, Tcp_to 53} then Some Pass else None)"
| "line_action tbl p (Pass_probe iface) =
     (if pkt_iface p = iface \<and> pkt_dst p \<in> set TARGETS \<and> pkt_kind p = Echo_request then Some Pass else None)"
| "line_action tbl p (Pass_on ts t) =
     (if pkt_iface p \<in> set ts \<and> tbl t (pkt_dst p) then Some Pass else None)"
| "line_action tbl p (Block_to t) = (if tbl t (pkt_dst p) then Some Drop else None)"

type_synonym evaluator = "anchor_line list \<Rightarrow> table_content \<Rightarrow> packet \<Rightarrow> pf_action option"

definition first_match :: evaluator where
  "first_match ls tbl p = find_map (line_action tbl p) ls"

text \<open>
  The manual of the packet filter: a matching rule with \<open>quick\<close> is the last one evaluated, and
  every line that acts here has it. So the first line that matches decides.
\<close>

definition pf_documented :: "evaluator \<Rightarrow> bool" where
  "pf_documented ev \<longleftrightarrow> (\<forall>ls tbl p. ev ls tbl p = first_match ls tbl p)"

text \<open>The tables as they are loaded.\<close>

fun loaded :: "tables \<Rightarrow> table_content" where
  "loaded t (Hosts_of i) ip = (ip \<in> set (nth_or_empty (tb_hosts t) i))"
| "loaded t (Nets_of i) ip = (\<exists>s\<in>set (nth_or_empty (tb_nets t) i). contains s ip)"

text \<open>What is open past the tables, what a rule holds, and what it blocks.\<close>

definition exempt :: "shape \<Rightarrow> packet \<Rightarrow> bool" where
  "exempt s p \<longleftrightarrow> pkt_dst p \<in> set (sh_endpoints s) \<or>
     (\<exists>iface dns. sh_network s = Some (iface, dns) \<and> pkt_iface p = iface \<and>
       (pkt_dst p = dns \<and> pkt_kind p \<in> {Udp_to 53, Tcp_to 53} \<or>
        pkt_dst p \<in> set TARGETS \<and> pkt_kind p = Echo_request))"

definition rule_holds :: "table_content \<Rightarrow> nat \<Rightarrow> ipv4 \<Rightarrow> bool" where
  "rule_holds tbl i ip \<longleftrightarrow> tbl (Hosts_of i) ip \<or> tbl (Nets_of i) ip"

definition rule_blocks :: "shape \<Rightarrow> table_content \<Rightarrow> nat \<Rightarrow> ipv4 \<Rightarrow> bool" where
  "rule_blocks s tbl i ip \<longleftrightarrow> tbl (Hosts_of i) ip \<or> (\<not> sh_use_fakeip s \<and> tbl (Nets_of i) ip)"

lemma find_map_append:
  "find_map f (xs @ ys) = (case find_map f xs of Some y \<Rightarrow> Some y | None \<Rightarrow> find_map f ys)"
  by (induction xs) (auto split: option.splits)

text \<open>A part of the ruleset whose lines all say the same when they say anything.\<close>

lemma find_map_uniform:
  assumes "\<And>l. l \<in> set ls \<Longrightarrow> f l = None \<or> f l = Some a"
  shows "find_map f ls = (if \<exists>l\<in>set ls. f l = Some a then Some a else None)"
  using assms
proof (induction ls)
  case (Cons l ls)
  have "f l = None \<or> f l = Some a" by (rule Cons.prems) simp
  moreover have "find_map f ls = (if \<exists>l\<in>set ls. f l = Some a then Some a else None)"
    by (rule Cons.IH) (simp add: Cons.prems)
  ultimately show ?case by auto
qed simp

lemma bex_concat_map: "(\<exists>l\<in>set (concat (map g xs)). P l) \<longleftrightarrow> (\<exists>x\<in>set xs. \<exists>l\<in>set (g x). P l)"
  by auto

lemma first_match_anchor:
  "first_match (anchor s) tbl p =
    (if exempt s p \<or> (\<exists>(i, ts)\<in>set (rules_on s). pkt_iface p \<in> set ts \<and> rule_holds tbl i (pkt_dst p))
     then Some Pass
     else if \<exists>(i, _)\<in>set (rules_on s). rule_blocks s tbl i (pkt_dst p) then Some Drop
     else None)"
proof -
  let ?f = "line_action tbl p"
  let ?tables = "concat (map (\<lambda>(i, _). [Table_line (Hosts_of i), Table_line (Nets_of i)]) (rules_on s))"
  let ?open = "map Pass_server (sh_endpoints s) @
     (case sh_network s of None \<Rightarrow> [] | Some (iface, dns) \<Rightarrow> [Pass_dns iface dns, Pass_probe iface])"
  let ?on = "concat (map (\<lambda>(i, ts). if ts = [] then [] else [Pass_on ts (Hosts_of i), Pass_on ts (Nets_of i)]) (rules_on s))"
  let ?block = "concat (map (\<lambda>(i, _). Block_to (Hosts_of i) # (if sh_use_fakeip s then [] else [Block_to (Nets_of i)])) (rules_on s))"
  have a: "find_map ?f ?tables = None" by (auto simp: find_map_None)
  have b: "find_map ?f ?open = (if exempt s p then Some Pass else None)"
  proof -
    have "(\<exists>l\<in>set ?open. ?f l = Some Pass) \<longleftrightarrow> exempt s p"
      by (cases "sh_network s") (auto simp: exempt_def bex_Un image_iff split: if_splits)
    moreover have "?f l = None \<or> ?f l = Some Pass" if "l \<in> set ?open" for l
      using that by (auto split: option.splits)
    ultimately show ?thesis using find_map_uniform [of ?open ?f Pass] by auto
  qed
  have c: "find_map ?f ?on =
      (if \<exists>(i, ts)\<in>set (rules_on s). pkt_iface p \<in> set ts \<and> rule_holds tbl i (pkt_dst p) then Some Pass else None)"
  proof -
    have "(\<exists>l\<in>set ?on. ?f l = Some Pass) \<longleftrightarrow>
        (\<exists>(i, ts)\<in>set (rules_on s). pkt_iface p \<in> set ts \<and> rule_holds tbl i (pkt_dst p))"
      unfolding bex_concat_map
      by (intro bex_cong refl, simp only: split_beta)
        (case_tac "snd x", simp_all add: rule_holds_def)
    moreover have "?f l = None \<or> ?f l = Some Pass" if "l \<in> set ?on" for l
      using that by (auto split: if_splits)
    ultimately show ?thesis using find_map_uniform [of ?on ?f Pass] by auto
  qed
  have d: "find_map ?f ?block =
      (if \<exists>(i, _)\<in>set (rules_on s). rule_blocks s tbl i (pkt_dst p) then Some Drop else None)"
  proof -
    have "(\<exists>l\<in>set ?block. ?f l = Some Drop) \<longleftrightarrow>
        (\<exists>(i, _)\<in>set (rules_on s). rule_blocks s tbl i (pkt_dst p))"
      unfolding bex_concat_map
      by (intro bex_cong refl, simp only: split_beta)
        (cases "sh_use_fakeip s", simp_all add: rule_blocks_def)
    moreover have "?f l = None \<or> ?f l = Some Drop" if "l \<in> set ?block" for l
      using that by (auto split: if_splits)
    ultimately show ?thesis using find_map_uniform [of ?block ?f Drop] by auto
  qed
  have "first_match (anchor s) tbl p = find_map ?f (?tables @ ?open @ ?on @ ?block)"
    by (simp add: first_match_def anchor_def)
  also have "\<dots> = (case find_map ?f ?open of Some y \<Rightarrow> Some y | None \<Rightarrow>
      (case find_map ?f ?on of Some y \<Rightarrow> Some y | None \<Rightarrow> find_map ?f ?block))"
    unfolding find_map_append [of ?f ?tables] find_map_append [of ?f ?open] find_map_append [of ?f ?on] a
    by simp
  finally show ?thesis unfolding b c d by simp
qed

section \<open>Table files\<close>

lemma write_lines_concat: "write_lines show xs = concat (map (\<lambda>x. writeln (show x)) xs)"
proof -
  have "foldl (\<lambda>s i. s @ writeln (show i)) s xs = s @ concat (map (\<lambda>x. writeln (show x)) xs)" for s
    by (induction xs arbitrary: s) auto
  then show ?thesis by (simp add: write_lines_def)
qed

text \<open>What the filter shows of a host table, one indented address a line, reads back.\<close>

lemma parse_table_show:
  "parse_table (concat (map (\<lambda>ip. indent @ show_ip ip @ [NL]) ips)) = ips"
  if "\<forall>c\<in>set indent. is_ws c"
proof -
  have skip: "words_acc [] (indent @ s) = words_acc [] s" for s
    using that by (induction indent) auto
  have "split_whitespace (concat (map (\<lambda>ip. indent @ show_ip ip @ [NL]) ips)) = map show_ip ips"
  proof (induction ips)
    case (Cons ip ips)
    have "split_whitespace (show_ip ip @ NL # t) = show_ip ip # split_whitespace t" for t
      by (rule split_whitespace_word) (simp_all add: show_ip_no_ws show_ip_nonempty)
    with Cons show ?case by (simp add: split_whitespace_def skip)
  qed simp
  then have "parse_table (concat (map (\<lambda>ip. indent @ show_ip ip @ [NL]) ips)) =
      List.map_filter parse_ip (map show_ip ips)"
    by (simp add: parse_table_def)
  also have "\<dots> = ips"
    by (induction ips) (simp_all add: List.map_filter_simps parse_show_ip)
  finally show ?thesis .
qed

lemma parse_table_lines: "parse_table (write_lines show_ip ips) = ips"
  using parse_table_show [of "[]" ips] by (simp add: write_lines_concat writeln_def)

lemma table_path_inj: "table_path dir t = table_path dir u \<longleftrightarrow> t = u"
  by (cases t; cases u)
    (auto simp: table_file_def path_join_inj HOSTS_FILE_def NETS_FILE_def dest: show_nat_inj)

lemma table_path_simps [simp]:
  "table_file dir HOSTS_FILE i = table_path dir (Hosts_of i)"
  "table_file dir NETS_FILE i = table_path dir (Nets_of i)"
  by simp_all

declare table_path.simps [simp del]

fun file_text :: "tables \<Rightarrow> table_id \<Rightarrow> string" where
  "file_text t (Hosts_of i) = write_lines show_ip (nth_or_empty (tb_hosts t) i)"
| "file_text t (Nets_of i) = write_lines show_subnet (nth_or_empty (tb_nets t) i)"

lemma write_tables_frame:
  assumes "disk_ok os" "write_tables os dir t is w = (r, w')"
    "\<forall>i\<in>set is. q \<noteq> table_path dir (Hosts_of i) \<and> q \<noteq> table_path dir (Nets_of i)"
  shows "os_read os q w' = os_read os q w"
  using assms(2,3)
proof (induction "is" arbitrary: w)
  case Nil
  then show ?case by simp
next
  case (Cons i "is")
  obtain a w1 where a: "os_write os (table_path dir (Hosts_of i)) (file_text t (Hosts_of i)) w = (a, w1)"
    by fastforce
  obtain b w2 where b: "os_write os (table_path dir (Nets_of i)) (file_text t (Nets_of i)) w1 = (b, w2)"
    by fastforce
  have 1: "os_read os q w1 = os_read os q w" "os_read os q w2 = os_read os q w1"
    using disk_write_other [OF assms(1), of q] a b Cons.prems(2) by (metis list.set_intros(1) snd_conv)+
  show ?case
    using Cons.prems 1 Cons.IH
    by (cases a; cases b) (auto simp: write_private_def a [simplified] b [simplified])
qed

lemma write_tables_ok:
  assumes "disk_ok os" "write_tables os dir t is w = (Inr u, w')" "i \<in> set is" "distinct is"
  shows "os_read os (table_path dir (Hosts_of i)) w' = Inr (file_text t (Hosts_of i)) \<and>
    os_read os (table_path dir (Nets_of i)) w' = Inr (file_text t (Nets_of i))"
  using assms(2-4)
proof (induction "is" arbitrary: w)
  case Nil
  then show ?case by simp
next
  case (Cons j "is")
  obtain a w1 where a: "os_write os (table_path dir (Hosts_of j)) (file_text t (Hosts_of j)) w = (a, w1)"
    by fastforce
  obtain b w2 where b: "os_write os (table_path dir (Nets_of j)) (file_text t (Nets_of j)) w1 = (b, w2)"
    by fastforce
  have rest: "write_tables os dir t is w2 = (Inr u, w')" and ab: "a = Inr ()" "b = Inr ()"
    using Cons.prems(1) by (cases a; cases b; simp add: write_private_def a [simplified] b [simplified])+
  show ?case
  proof (cases "i = j")
    case False
    with Cons rest show ?thesis by simp
  next
    case True
    then have out: "\<forall>k\<in>set is. table_path dir (Hosts_of i) \<noteq> table_path dir (Hosts_of k) \<and>
        table_path dir (Hosts_of i) \<noteq> table_path dir (Nets_of k) \<and>
        table_path dir (Nets_of i) \<noteq> table_path dir (Hosts_of k) \<and>
        table_path dir (Nets_of i) \<noteq> table_path dir (Nets_of k)"
      using Cons.prems(3) by (auto simp: table_path_inj)
    have n: "os_read os (table_path dir (Nets_of i)) w2 = Inr (file_text t (Nets_of i))"
      using disk_write [OF assms(1)] b ab True by (metis fst_conv snd_conv)
    have "os_read os (table_path dir (Hosts_of i)) w1 = Inr (file_text t (Hosts_of i))"
      using disk_write [OF assms(1)] a ab True by (metis fst_conv snd_conv)
    then have h: "os_read os (table_path dir (Hosts_of i)) w2 = Inr (file_text t (Hosts_of i))"
      using disk_write_other [OF assms(1), of "table_path dir (Hosts_of i)"] b True
      by (metis snd_conv table_path_inj table_id.distinct(1))
    from out h n show ?thesis
      using write_tables_frame [OF assms(1) rest, of "table_path dir (Hosts_of i)"]
        write_tables_frame [OF assms(1) rest, of "table_path dir (Nets_of i)"] by simp
  qed
qed

text \<open>A load that succeeded gave the filter the ruleset, with every table on the disk.\<close>

lemma Pf_load_Inr:
  assumes "disk_ok os" "Pf_load os dir s t w = (Inr u, w')"
  shows "\<exists>w1 status out err.
    (\<forall>i<length (sh_rules s).
      os_read os (table_path dir (Hosts_of i)) w1 = Inr (file_text t (Hosts_of i)) \<and>
      os_read os (table_path dir (Nets_of i)) w1 = Inr (file_text t (Nets_of i))) \<and>
    os_exec os PFCTL [''-q'', ''-a'', ANCHOR, ''-f'', ''-''] (Some (ruleset s dir)) STEP w1 =
      (Exited True status out err, w')"
proof -
  obtain a w1 where a: "write_tables os dir t [0..<length (sh_rules s)] w = (a, w1)" by fastforce
  obtain v out where v: "a = Inr v"
    "run os PFCTL [''-q'', ''-a'', ANCHOR, ''-f'', ''-''] (Some (ruleset s dir)) STEP w1 = (Inr out, w')"
    using assms(2) by (auto simp: Pf_load_def a split: sum.splits prod.splits)
  with write_tables_ok [OF assms(1) a [unfolded v(1)]] show ?thesis
    by (auto simp: run_Inr)
qed

lemma parse_token_digits:
  "parse_token txt = Some t \<Longrightarrow> t \<noteq> [] \<and> list_all is_digit t"
  by (auto simp: parse_token_def token_line_def Let_def bind_eq_Some_conv dest!: find_map_SomeD
      split: if_splits)

end
