(* ===== verification/Net.thy ===== *)
theory Net
  imports Upstream Core
begin

text \<open>
  Model of \<open>src/net.rs\<close>: the network of the default route, its DNS, the probe for fake addresses,
  the clock that notices sleep, and the wait for an interface event. Shown: a sleep is noticed
  exactly when the wall clock ran ahead of the monotonic one by more than the gap, and is not
  counted twice; route messages of the process itself wake nobody.
\<close>

definition SHORT :: duration where "SHORT = from_secs 5"
definition FAKEIP_PROBE :: string where "FAKEIP_PROBE = ''fakeip.podkop.fyi.''"
definition SLEEP_GAP :: duration where "SLEEP_GAP = from_secs 5"

record network =
  nw_iface :: string
  nw_index :: u16
  nw_addr :: ipv4
  nw_gateway :: ipv4
  nw_dns :: ipv4

definition nonzero :: "u32 \<Rightarrow> u32 option" where
  "nonzero x = (if x = 0 then None else Some x)"

definition Network_bound :: "network \<Rightarrow> u32 option" where
  "Network_bound n = nonzero (ucast (nw_index n))"

definition Network_upstream :: "network \<Rightarrow> upstream" where
  "Network_upstream n = \<lparr>up_server = (nw_dns n, 53), up_bound_if = Network_bound n\<rparr>"

definition show_network :: "network \<Rightarrow> string" where
  "show_network n =
     nw_iface n @ '' '' @ show_ip (nw_addr n) @ '' gw='' @ show_ip (nw_gateway n) @ '' dns='' @ show_ip (nw_dns n)"

text \<open>One line of \<open>route get\<close>: the last gateway and the last interface named count.\<close>

definition route_get_line ::
    "ipv4 option \<times> string option \<Rightarrow> string \<Rightarrow> ipv4 option \<times> string option" where
  "route_get_line s line =
     (case s of (gateway, ifc) \<Rightarrow>
       (case split_once (CHR '':'') (trim line) of
          None \<Rightarrow> (gateway, ifc)
        | Some (key, v) \<Rightarrow>
            if key = ''gateway'' then (parse_ip (trim v), ifc)
            else if key = ''interface'' then (gateway, Some (trim v))
            else (gateway, ifc)))"

definition parse_route_get :: "string \<Rightarrow> (ipv4 \<times> string) option" where
  "parse_route_get out =
     (case foldl route_get_line (None, None) (lines out) of
        (Some gateway, Some ifc) \<Rightarrow> Some (gateway, ifc)
      | _ \<Rightarrow> None)"

text \<open>\<open>if_index\<close> asks the system for the index of an interface: a parameter.\<close>

definition net_current :: "'w os \<Rightarrow> (string \<Rightarrow> u16 io_result) \<Rightarrow> 'w \<Rightarrow> network option \<times> 'w" where
  "net_current os if_index_of w =
     (case run os ''/sbin/route'' [''-n'', ''get'', ''default''] None SHORT w of
        (Inl _, w) \<Rightarrow> (None, w)
      | (Inr out, w) \<Rightarrow>
        (case parse_route_get out of
           None \<Rightarrow> (None, w)
         | Some (gateway, ifc) \<Rightarrow>
           (case if_index_of ifc of
              Inl _ \<Rightarrow> (None, w)
            | Inr index \<Rightarrow>
              (case run os ''/usr/sbin/ipconfig'' [''getifaddr'', ifc] None SHORT w of
                 (Inl _, w) \<Rightarrow> (None, w)
               | (Inr got, w) \<Rightarrow>
                 (case parse_ip (trim got) of
                    None \<Rightarrow> (None, w)
                  | Some addr \<Rightarrow>
                    (case run os ''/usr/sbin/ipconfig'' [''getoption'', ifc, ''domain_name_server''] None SHORT w of
                       (got, w) \<Rightarrow>
                         (let dns = (case got of
                                Inl _ \<Rightarrow> gateway
                              | Inr s \<Rightarrow> (case parse_ip (trim s) of None \<Rightarrow> gateway | Some d \<Rightarrow> d))
                          in (Some \<lparr>nw_iface = ifc, nw_index = index, nw_addr = addr,
                                nw_gateway = gateway, nw_dns = dns\<rparr>, w))))))))"

text \<open>
  A query for the addresses of a name. The DNS library reads the name, prints the message and
  parses the answer; \<open>nanos\<close> is the clock that gives the id.
\<close>

record dns_lib =
  name_from_ascii :: "string \<Rightarrow> string option"
  to_vec :: "dns_message \<Rightarrow> bytes option"
  from_vec :: "bytes \<Rightarrow> dns_message option"

definition query_message :: "u32 \<Rightarrow> string \<Rightarrow> dns_message" where
  "query_message nanos name =
     \<lparr>m_id = ucast (nanos AND 0xffff), m_type = Query, m_op_code = 0, m_recursion_desired = True,
      m_recursion_available = False, m_code = NoError,
      m_queries = [\<lparr>q_name = name, q_type = A\<rparr>], m_answers = []\<rparr>"

definition query_a ::
    "'w net \<Rightarrow> dns_lib \<Rightarrow> u32 \<Rightarrow> upstream \<Rightarrow> string \<Rightarrow> duration \<Rightarrow> 'w \<Rightarrow> dns_message io_result \<times> 'w" where
  "query_a net lib nanos up name limit w =
     (case name_from_ascii lib name of
        None \<Rightarrow> (Inl InvalidInput, w)
      | Some n \<Rightarrow>
        (case to_vec lib (query_message nanos n) of
           None \<Rightarrow> (Inl (OtherError ''encode''), w)
         | Some b \<Rightarrow>
           (case exchange net up b limit w of
              (Inl e, w) \<Rightarrow> (Inl e, w)
            | (Inr answer, w) \<Rightarrow>
                (case from_vec lib answer of
                   None \<Rightarrow> (Inl (OtherError ''decode''), w)
                 | Some m \<Rightarrow> (Inr m, w)))))"

definition upstream_has_fakeip ::
    "'w net \<Rightarrow> dns_lib \<Rightarrow> u32 \<Rightarrow> upstream \<Rightarrow> 'w \<Rightarrow> bool io_result \<times> 'w" where
  "upstream_has_fakeip net lib nanos up w =
     (case query_a net lib nanos up FAKEIP_PROBE SHORT w of
        (Inl e, w) \<Rightarrow> (Inl e, w)
      | (Inr m, w) \<Rightarrow> (Inr (has_fakeip m), w))"

definition resolve_ipv4 ::
    "'w net \<Rightarrow> dns_lib \<Rightarrow> u32 \<Rightarrow> upstream \<Rightarrow> string \<Rightarrow> 'w \<Rightarrow> ipv4 io_result \<times> 'w" where
  "resolve_ipv4 net lib nanos up name w =
     (case query_a net lib nanos up name SHORT w of
        (Inl e, w) \<Rightarrow> (Inl e, w)
      | (Inr m, w) \<Rightarrow>
          (case ipv4_answers m of [] \<Rightarrow> (Inl NotFound, w) | a # _ \<Rightarrow> (Inr a, w)))"

section \<open>Sleep\<close>

record clock =
  ck_wall :: nat
  ck_mono :: instant

text \<open>\<open>slept\<close>; the readings of the two clocks are its input.\<close>

definition Clock_slept :: "nat \<Rightarrow> instant \<Rightarrow> clock \<Rightarrow> duration option \<times> clock" where
  "Clock_slept wtime mtime c =
     (let dw = wtime - ck_wall c;
          dm = mtime - ck_mono c
      in (if dm \<le> dw \<and> SLEEP_GAP < dw - dm then Some (dw - dm) else None,
          c\<lparr>ck_wall := wtime, ck_mono := mtime\<rparr>))"

section \<open>Interface events\<close>

definition RTM_NEWADDR :: nat where "RTM_NEWADDR = 0xc"
definition RTM_DELADDR :: nat where "RTM_DELADDR = 0xd"
definition RTM_IFINFO :: nat where "RTM_IFINFO = 0xe"
definition ENOBUFS :: int where "ENOBUFS = 55"

definition is_link_event :: "u8 \<Rightarrow> bool" where
  "is_link_event kind = (unat kind \<in> {RTM_NEWADDR, RTM_DELADDR, RTM_IFINFO})"

text \<open>What a read of the socket gave; None when it would have blocked.\<close>

fun next_event :: "bytes io_result option list \<Rightarrow> unit io_result option" where
  "next_event [] = None"
| "next_event (None # rest) = next_event rest"
| "next_event (Some (Inl e) # rest) = (if e = Errno ENOBUFS then Some (Inr ()) else Some (Inl e))"
| "next_event (Some (Inr b) # rest) =
     (if 3 < length b \<and> is_link_event (b ! 3) then Some (Inr ()) else next_event rest)"

lemma message_kind: "message kind d g s ! 3 = byte kind"
  by (simp add: message_layout header_def ne_bytes16_def)

lemma message_no_event:
  "\<not> is_link_event (message RTM_ADD d g s ! 3) \<and> \<not> is_link_event (message RTM_DELETE d g s ! 3)"
  by (simp add: message_kind is_link_event_def byte_def RTM_ADD_def RTM_DELETE_def RTM_NEWADDR_def
      RTM_DELADDR_def RTM_IFINFO_def)

text \<open>The process's own messages are skipped, however many.\<close>

lemma next_event_skips:
  "\<forall>x\<in>set xs. \<exists>b. x = Some (Inr b) \<and> \<not> is_link_event (b ! 3) \<Longrightarrow> next_event (xs @ ys) = next_event ys"
  by (induction xs) auto

lemma Clock_slept_twice:
  "fst (Clock_slept wtime mtime (snd (Clock_slept wtime mtime c))) = None"
  by (simp add: Clock_slept_def Let_def SLEEP_GAP_def)

end
