(* ===== verification/Hosts_State.thy ===== *)
theory Hosts_State
  imports Command
begin

text \<open>
  Model of \<open>src/state.rs\<close>: the host routes on disk, a line per address, and their save by a
  rename. Shown: what is formatted parses back to the same hosts, a damaged line costs only
  itself, a save leaves the old file or the whole new one, and a load after it gives the hosts.
\<close>

record host =
  ho_rule :: string
  ho_last :: nat

type_synonym hosts = "(ipv4, host) hashmap"

definition parse_host_line :: "string \<Rightarrow> (ipv4 \<times> host) option" where
  "parse_host_line line =
     (let f = split_whitespace line in
      Option.bind (Option.bind (get f 0) parse_ip) (\<lambda>ip.
      Option.bind (Option.bind (get f 1) parse_u64) (\<lambda>seen.
      Option.bind (get f 2) (\<lambda>rule.
      Some (ip, \<lparr>ho_rule = rule, ho_last = seen\<rparr>)))))"

definition parse_hosts :: "string \<Rightarrow> hosts" where
  "parse_hosts txt = hm_collect (List.map_filter parse_host_line (lines txt))"

definition show_host :: "ipv4 \<times> host \<Rightarrow> string" where
  "show_host e = (case e of (ip, h) \<Rightarrow> show_ip ip @ '' '' @ show_nat (ho_last h) @ '' '' @ ho_rule h)"

definition format_hosts :: "hosts \<Rightarrow> string" where
  "format_hosts hosts =
     concat (List.map_filter (\<lambda>ip. map_option (\<lambda>h. show_host (ip, h) @ [NL]) (hm_get hosts ip))
       (sort (map fst hosts)))"

definition hosts_load :: "'w os \<Rightarrow> path \<Rightarrow> 'w \<Rightarrow> hosts io_result" where
  "hosts_load os p w =
     (case os_read os p w of
        Inr txt \<Rightarrow> Inr (parse_hosts txt)
      | Inl e \<Rightarrow> if e = NotFound then Inr [] else Inl e)"

text \<open>\<open>Path::with_extension\<close>, of a path that ends in a file name.\<close>

definition with_extension :: "path \<Rightarrow> string \<Rightarrow> path" where
  "with_extension p ext =
     (let (dir, name) = (case rsplit_once (CHR ''/'') p of
            Some (d, n) \<Rightarrow> (d @ ''/'', n) | None \<Rightarrow> ([], p));
          stem = (case rsplit_once (CHR ''.'') name of
            Some (s, _) \<Rightarrow> (if s = [] then name else s) | None \<Rightarrow> name)
      in dir @ stem @ ''.'' @ ext)"

definition hosts_save :: "'w os \<Rightarrow> path \<Rightarrow> hosts \<Rightarrow> 'w \<Rightarrow> unit io_result \<times> 'w" where
  "hosts_save os p hosts w =
     (let tmp = with_extension p ''tmp'' in
      case os_write os tmp (format_hosts hosts) w of
        (Inl e, w) \<Rightarrow> (Inl e, w)
      | (Inr _, w) \<Rightarrow> os_rename os tmp p w)"

section \<open>Round trip\<close>

definition host_ok :: "ipv4 \<times> host \<Rightarrow> bool" where
  "host_ok e \<longleftrightarrow> ho_last (snd e) < 2 ^ 64 \<and> ho_rule (snd e) \<noteq> [] \<and> (\<forall>c\<in>set (ho_rule (snd e)). \<not> is_ws c)"

lemma words_of_host:
  assumes "host_ok (ip, h)"
  shows "split_whitespace (show_host (ip, h)) = [show_ip ip, show_nat (ho_last h), ho_rule h]"
proof -
  have "show_host (ip, h) = join '' '' [show_ip ip, show_nat (ho_last h), ho_rule h]"
    by (simp add: show_host_def)
  moreover have "split_whitespace (join '' '' [show_ip ip, show_nat (ho_last h), ho_rule h]) =
      [show_ip ip, show_nat (ho_last h), ho_rule h]"
    using assms by (intro split_whitespace_join)
      (simp add: host_ok_def show_ip_nonempty show_ip_no_ws show_nat_no_ws)
  ultimately show ?thesis by simp
qed

interpretation host_text: line_format show_host parse_host_line host_ok
proof unfold_locales
  fix e
  assume ok: "host_ok e"
  obtain ip h where e: "e = (ip, h)" by fastforce
  show "parse_host_line (show_host e) = Some e"
    using ok unfolding parse_host_line_def e words_of_host [OF ok [unfolded e]]
    by (simp add: get_def parse_show_ip parse_show_uint host_ok_def)
  have "CHR '' '' \<noteq> NL" by (simp add: NL_def)
  moreover have "NL \<notin> set (show_ip ip)" "NL \<notin> set (show_nat n)" for n
    using not_ws_line [OF show_ip_no_ws] not_ws_line [OF show_nat_no_ws] by simp_all
  moreover have "NL \<notin> set (ho_rule h)" "last (ho_rule h) \<noteq> CR" "ho_rule h \<noteq> []"
    using ok not_ws_line [of "ho_rule h"] by (auto simp: e host_ok_def)
  ultimately show "NL \<notin> set (show_host e) \<and> (show_host e = [] \<or> last (show_host e) \<noteq> CR)"
    by (simp add: e show_host_def)
qed

definition hosts_ok :: "hosts \<Rightarrow> bool" where
  "hosts_ok hosts \<longleftrightarrow> hm_ok hosts \<and> (\<forall>e\<in>set hosts. host_ok e)"

text \<open>The entries in the order they are written.\<close>

definition sorted_entries :: "hosts \<Rightarrow> (ipv4 \<times> host) list" where
  "sorted_entries hosts =
     List.map_filter (\<lambda>ip. map_option (Pair ip) (hm_get hosts ip)) (sort (map fst hosts))"

lemma map_filter_total:
  "\<forall>x\<in>set xs. f x \<noteq> None \<Longrightarrow> List.map_filter f xs = map (\<lambda>x. the (f x)) xs"
  by (induction xs) (auto simp: List.map_filter_simps)

lemma key_found: "\<forall>ip\<in>set (sort (map fst (hosts :: hosts))). hm_get hosts ip \<noteq> None"
  by (auto simp: map_of_eq_None_iff image_iff)

lemma sorted_entries_map:
  "sorted_entries hosts = map (\<lambda>ip. (ip, the (hm_get hosts ip))) (sort (map fst hosts))"
proof -
  have "sorted_entries hosts =
      map (\<lambda>x. the (map_option (Pair x) (hm_get hosts x))) (sort (map fst hosts))"
    unfolding sorted_entries_def using key_found [of hosts] by (intro map_filter_total) auto
  also have "\<dots> = map (\<lambda>ip. (ip, the (hm_get hosts ip))) (sort (map fst hosts))"
    using key_found [of hosts] by (intro map_cong refl) auto
  finally show ?thesis .
qed

lemma format_entries: "format_hosts hosts = concat (map (\<lambda>e. show_host e @ [NL]) (sorted_entries hosts))"
proof -
  let ?f = "\<lambda>ip. map_option (\<lambda>h. show_host (ip, h) @ [NL]) (hm_get hosts ip)"
  have "List.map_filter ?f (sort (map fst hosts)) = map (\<lambda>x. the (?f x)) (sort (map fst hosts))"
    using key_found [of hosts] by (intro map_filter_total) auto
  also have "\<dots> = map (\<lambda>ip. show_host (ip, the (hm_get hosts ip)) @ [NL]) (sort (map fst hosts))"
    using key_found [of hosts] by (intro map_cong refl) auto
  finally show ?thesis
    unfolding format_hosts_def sorted_entries_map map_map comp_def by (rule arg_cong)
qed

lemma fst_sorted_entries: "map fst (sorted_entries hosts) = sort (map fst hosts)"
  by (simp add: sorted_entries_map comp_def)

lemma set_sorted_entries:
  assumes "hm_ok hosts"
  shows "set (sorted_entries hosts) = set hosts"
proof -
  have "(ip, h) \<in> set (sorted_entries hosts) \<longleftrightarrow> (ip, h) \<in> set hosts" for ip h
  proof -
    have "(ip, h) \<in> set (sorted_entries hosts) \<longleftrightarrow> hm_get hosts ip \<noteq> None \<and> h = the (hm_get hosts ip)"
      by (auto simp: sorted_entries_map map_of_eq_None_iff)
    also have "\<dots> \<longleftrightarrow> hm_get hosts ip = Some h" by (cases "hm_get hosts ip") auto
    also have "\<dots> \<longleftrightarrow> (ip, h) \<in> set hosts" using hm_ok_map_of [OF assms] by blast
    finally show ?thesis .
  qed
  then show ?thesis by auto
qed

lemma map_of_sorted: "hm_ok hosts \<Longrightarrow> map_of (sorted_entries hosts) = map_of hosts"
  by (subst map_of_inject_set) (simp_all add: fst_sorted_entries set_sorted_entries)

lemma parse_format_map:
  assumes "hosts_ok hosts"
  shows "map_of (parse_hosts (format_hosts hosts)) = map_of hosts"
proof -
  have ok: "\<forall>e\<in>set (sorted_entries hosts). host_ok e"
    using assms by (simp add: hosts_ok_def set_sorted_entries)
  have d: "distinct (map fst (sorted_entries hosts))"
    using assms by (simp add: fst_sorted_entries hosts_ok_def)
  have "parse_hosts (format_hosts hosts) = hm_collect (sorted_entries hosts)"
    unfolding parse_hosts_def format_entries by (simp only: host_text.parse_lines [OF ok])
  moreover have "map_of (rev (sorted_entries hosts)) = map_of (sorted_entries hosts)"
    using d by (subst map_of_inject_set) (simp_all add: rev_map [symmetric])
  ultimately show ?thesis
    using assms by (auto simp: hm_collect_get map_of_sorted hosts_ok_def)
qed

text \<open>A line that does not parse takes nothing else with it.\<close>

lemma parse_hosts_lines:
  "map_of (parse_hosts txt) ip = map_of (rev (List.map_filter parse_host_line (lines txt))) ip"
  by (simp add: parse_hosts_def hm_collect_get)

lemma with_extension_ends: "\<exists>pre. with_extension p ext = pre @ ''.'' @ ext"
  by (auto simp: with_extension_def Let_def split: prod.split)

text \<open>What a save leaves behind, and a load finds.\<close>

lemma hosts_save_read:
  assumes "disk_ok os" "with_extension p ''tmp'' \<noteq> p" "hosts_save os p hosts w = (r, w')"
  shows "case r of
      Inr _ \<Rightarrow> os_read os p w' = Inr (format_hosts hosts)
    | Inl _ \<Rightarrow> os_read os p w' = os_read os p w"
proof -
  let ?t = "with_extension p ''tmp''"
  obtain a w1 where a: "os_write os ?t (format_hosts hosts) w = (a, w1)" by fastforce
  obtain b w2 where b: "os_rename os ?t p w1 = (b, w2)" by fastforce
  have p: "os_read os p w1 = os_read os p w"
    using disk_write_other [OF assms(1), of p ?t "format_hosts hosts" w] assms(2) by (simp add: a)
  show ?thesis
  proof (cases a)
    case (Inl e)
    with assms(3) p show ?thesis by (auto simp: hosts_save_def a Let_def)
  next
    case (Inr u)
    then have t: "os_read os ?t w1 = Inr (format_hosts hosts)"
      using disk_write [OF assms(1), of ?t "format_hosts hosts" w] by (simp add: a)
    have rw: "r = b" "w' = w2" using assms(3) Inr by (auto simp: hosts_save_def a b Let_def)
    show ?thesis
    proof (cases b)
      case (Inl e)
      with disk_rename_err [OF assms(1), of ?t p w1] p rw show ?thesis by (simp add: b)
    next
      case (Inr v)
      with disk_rename [OF assms(1), of ?t p w1] t rw show ?thesis by (simp add: b)
    qed
  qed
qed

end
