(* ===== verification/Resolver.thy ===== *)
theory Resolver
  imports Pf Net Hosts_State
begin

text \<open>
  Model of \<open>Resolver\<close> of \<open>src/resolver.rs\<close>: its state, the handling of a query, the routes of
  hosts and subnets, their expiry, and the kill switch kept in line with them.

  A method that does not wait is a function of the state. One that waits (an exchange, a command
  of the packet filter, its lock) is cut at each wait: \<open>en_others\<close> is what every other task does to
  the state and the world in the meantime, and is arbitrary. The kernel, the operating system, the
  network and the DNS library are parameters. Lines of the journal are output nobody reads back
  and are left out.
\<close>

section \<open>State\<close>

record 'k resolver =
  rv_lists :: lists
  rv_limit :: duration
  rv_routes :: "'k route_socket"
  rv_pf :: "path option"
  rv_pf_stale :: bool
  rv_pf_shape :: "shape option"
  rv_tunnel_dns :: ipv4
  rv_upstream :: "upstream option"
  rv_network :: "(string \<times> ipv4) option"
  rv_core :: core
  rv_dirty :: bool

record ('k, 'w) env =
  en_kernel :: "'k kernel"
  en_os :: "'w os"
  en_net :: "'w net"
  en_lib :: dns_lib
  en_others :: "'k resolver \<times> 'w \<Rightarrow> 'k resolver \<times> 'w"
  en_unix :: "'w \<Rightarrow> nat"

definition Resolver_new ::
    "lists \<Rightarrow> rule list \<Rightarrow> string list \<Rightarrow> ipv4 \<Rightarrow> 'k route_socket \<Rightarrow> path option \<Rightarrow> duration \<Rightarrow> 'k resolver" where
  "Resolver_new l rules links tunnel_dns routes pf limit =
     \<lparr>rv_lists = l, rv_limit = limit, rv_routes = routes, rv_pf = pf, rv_pf_stale = True,
      rv_pf_shape = None, rv_tunnel_dns = tunnel_dns, rv_upstream = None, rv_network = None,
      rv_core =
        \<lparr>cr_links = map (\<lambda>n. (n, LinkState_default)) links,
         cr_rules = map (\<lambda>r. \<lparr>rn_name = r_name r, rn_when = r_when r, rn_lists = r_lists r,
           rn_tunnels = r_tunnels r, rn_active = False, rn_current = None\<rparr>) rules,
         cr_hosts = [], cr_subnets = [], cr_unrouted = [], cr_owner = False,
         cr_use_fakeip = False, cr_stopped = False\<rparr>,
      rv_dirty = False\<rparr>"

section \<open>Settings and links\<close>

definition set_lists :: "lists \<Rightarrow> 'k resolver \<Rightarrow> 'k resolver" where
  "set_lists l r = r\<lparr>rv_lists := l, rv_pf_stale := True\<rparr>"

definition set_upstream :: "upstream option \<Rightarrow> 'k resolver \<Rightarrow> 'k resolver" where
  "set_upstream up r = r\<lparr>rv_upstream := up\<rparr>"

definition set_network :: "network option \<Rightarrow> 'k resolver \<Rightarrow> 'k resolver" where
  "set_network n r =
     (set_upstream (map_option Network_upstream n) r)
       \<lparr>rv_network := map_option (\<lambda>n. (nw_iface n, nw_dns n)) n\<rparr>"

definition set_use_fakeip :: "bool \<Rightarrow> 'k resolver \<Rightarrow> 'k resolver" where
  "set_use_fakeip b r = r\<lparr>rv_core := (rv_core r)\<lparr>cr_use_fakeip := b\<rparr>\<rparr>"

definition use_fakeip :: "'k resolver \<Rightarrow> bool" where
  "use_fakeip r = cr_use_fakeip (rv_core r)"

definition set_owner :: "bool \<Rightarrow> 'k resolver \<Rightarrow> 'k resolver" where
  "set_owner b r = r\<lparr>rv_core := (rv_core r)\<lparr>cr_owner := b\<rparr>\<rparr>"

definition set_country :: "string \<Rightarrow> 'k resolver \<Rightarrow> (string \<times> bool) list \<times> 'k resolver" where
  "set_country country r =
     (let rules = cr_rules (rv_core r);
          changed = List.map_filter (\<lambda>x. let active = holds (rn_when x) country in
            if active \<noteq> rn_active x then Some (rn_name x, active) else None) rules;
          r = r\<lparr>rv_core := (rv_core r)\<lparr>cr_rules := map (\<lambda>x. x\<lparr>rn_active := holds (rn_when x) country\<rparr>) rules\<rparr>\<rparr>
      in (changed, if changed \<noteq> [] then r\<lparr>rv_pf_stale := True\<rparr> else r))"

definition wanted :: "'k resolver \<Rightarrow> bool list" where
  "wanted r =
     map (\<lambda>t. list_ex (\<lambda>x. rn_active x \<and> t \<in> set (rn_tunnels x)) (cr_rules (rv_core r)))
       [0..<length (cr_links (rv_core r))]"

definition set_link :: "nat \<Rightarrow> link_state \<Rightarrow> 'k resolver \<Rightarrow> 'k resolver" where
  "set_link link s r =
     r\<lparr>rv_core := (rv_core r)\<lparr>cr_links := modify_nth link (\<lambda>(n, _). (n, s)) (cr_links (rv_core r))\<rparr>\<rparr>"

definition fetch_iface :: "'k resolver \<Rightarrow> string option" where
  "fetch_iface r =
     (let c = rv_core r in
      find_map (\<lambda>i. Option.bind (core_current c i) (\<lambda>l. map_option if_name (ls_iface l)))
        (filter (core_carries c) [0..<length (cr_rules c)]))"

definition all_routed :: "'k resolver \<Rightarrow> bool" where
  "all_routed r =
     (let c = rv_core r in
      list_all (\<lambda>i. \<not> rn_active (cr_rules c ! i) \<or> core_target c i \<noteq> None) [0..<length (cr_rules c)])"

definition resolver_reasons :: "'k resolver \<Rightarrow> (string \<times> reasons) list" where
  "resolver_reasons r =
     map (\<lambda>(i, x). (rn_name x, core_reasons (rv_core r) i))
       (filter (\<lambda>(_, x). rn_active x) (enumerate 0 (cr_rules (rv_core r))))"

definition show_link_state :: "link_state \<Rightarrow> string" where
  "show_link_state l =
     (case ls_iface l of
        None \<Rightarrow> ''down''
      | Some i \<Rightarrow> if_name i @ ''#'' @ show_nat (unat (if_index i)) @
          (case ls_health l of
             Health_Down \<Rightarrow> ''/dead''
           | Health_Up \<Rightarrow> ''/alive''
           | Health_Suspect \<Rightarrow> ''/suspect''
           | Health_Degraded \<Rightarrow> ''/degraded''))"

definition status :: "'k resolver \<Rightarrow> string" where
  "status r =
     (let c = rv_core r;
          rules = map (\<lambda>x. rn_name x @ ''='' @
            (if \<not> rn_active x then ''off''
             else case rn_current x of
                    None \<Rightarrow> ''none''
                  | Some t \<Rightarrow> (case get (cr_links c) t of None \<Rightarrow> ''?'' | Some (n, _) \<Rightarrow> n))) (cr_rules c);
          links = map (\<lambda>(n, l). n @ ''='' @ show_link_state l) (cr_links c)
      in ''rules='' @ join '','' rules @ '' tunnels='' @ join '','' links @
         '' suffixes='' @ show_nat (suffix_count (rv_lists r)) @
         '' subnets='' @ show_nat (length (subnets (rv_lists r))) @
         '' hosts='' @ show_nat (length (cr_hosts c)) @
         '' use_fakeip='' @ show_bool (cr_use_fakeip c) @ '' owner='' @ show_bool (cr_owner c))"

section \<open>The route of a host\<close>

definition route_host ::
    "'k kernel \<Rightarrow> nat \<Rightarrow> ipv4 \<Rightarrow> nat \<Rightarrow> 'k resolver \<Rightarrow> bool io_result \<times> 'k resolver" where
  "route_host krn now ip rule r =
     (let c = rv_core r; prior = hm_get (cr_hosts c) ip in
      if cr_stopped c then (Inl (OtherError ''stopped''), r)
      else case (case prior of
                   Some h \<Rightarrow> if h_rule h < rule \<and> core_carries c (h_rule h) then Some h else None
                 | None \<Rightarrow> None) of
        Some h \<Rightarrow>
          (Inr False, r\<lparr>rv_core := c\<lparr>cr_hosts := hm_insert ip (h\<lparr>h_last := now\<rparr>) (cr_hosts c)\<rparr>,
                        rv_dirty := True\<rparr>)
      | None \<Rightarrow>
        (case core_target c rule of
           None \<Rightarrow> (Inl NotConnected, r)
         | Some t \<Rightarrow>
           (case RouteSocket_set krn (rv_routes r) (Subnet_host ip) (tg_index t) of
              (Inl e, routes) \<Rightarrow> (Inl e, r\<lparr>rv_routes := routes\<rparr>)
            | (Inr outcome, routes) \<Rightarrow>
              (let new_here = (case prior of None \<Rightarrow> True | Some h \<Rightarrow> h_rule h \<noteq> rule);
                   c = c\<lparr>cr_hosts := hm_insert ip
                     \<lparr>h_rule = rule, h_last = now, h_placed = Some (target_placed t)\<rparr> (cr_hosts c)\<rparr>
               in (Inr new_here,
                   r\<lparr>rv_routes := routes, rv_core := c, rv_dirty := True,
                     rv_pf_stale := (if prior \<noteq> None \<and> new_here then True else rv_pf_stale r)\<rparr>)))))"

section \<open>A query\<close>

text \<open>
  What becomes of a query: nothing, an answer of our own with a code and no records, or the bytes
  a server gave.
\<close>

datatype answer = No_answer | Own response_code | Given bytes

definition answer_bytes :: "dns_lib \<Rightarrow> dns_message \<Rightarrow> answer \<Rightarrow> bytes option" where
  "answer_bytes lib req a =
     (case a of No_answer \<Rightarrow> None | Own code \<Rightarrow> reply (to_vec lib) req code | Given b \<Rightarrow> Some b)"

text \<open>An exchange with a server, and what the others did meanwhile.\<close>

definition await_exchange ::
    "('k, 'w) env \<Rightarrow> upstream \<Rightarrow> bytes \<Rightarrow> 'k resolver \<Rightarrow> 'w \<Rightarrow> bytes io_result \<times> 'k resolver \<times> 'w" where
  "await_exchange env up query r w =
     (let (res, w) = exchange (en_net env) up query (rv_limit r) w
      in (res, en_others env (r, w)))"

definition forward ::
    "('k, 'w) env \<Rightarrow> bytes \<Rightarrow> 'k resolver \<Rightarrow> 'w \<Rightarrow> answer \<times> 'k resolver \<times> 'w" where
  "forward env query r w =
     (case rv_upstream r of
        None \<Rightarrow> (Own ServFail, r, w)
      | Some network \<Rightarrow>
          (case await_exchange env network query r w of
             (Inr answer, rw) \<Rightarrow> (Given answer, rw)
           | (Inl _, rw) \<Rightarrow> (Own ServFail, rw)))"

text \<open>The routes of the addresses of an answer; the addresses that are new to the rule's table.\<close>

fun route_answers ::
    "'k kernel \<Rightarrow> nat \<Rightarrow> ipv4 list \<Rightarrow> nat \<Rightarrow> ipv4 list \<Rightarrow> 'k resolver \<Rightarrow> ipv4 list io_result \<times> 'k resolver" where
  "route_answers krn now endpoints rule [] r = (Inr [], r)"
| "route_answers krn now endpoints rule (ip # ips) r =
     (if \<not> routable ip endpoints then route_answers krn now endpoints rule ips r
      else case route_host krn now ip rule r of
             (Inl e, r) \<Rightarrow> (Inl e, r)
           | (Inr is_new, r) \<Rightarrow>
               (case route_answers krn now endpoints rule ips r of
                  (Inl e, r) \<Rightarrow> (Inl e, r)
                | (Inr new, r) \<Rightarrow> (Inr (if is_new then ip # new else new), r)))"

text \<open>
  A table is changed under the lock of the packet filter, at which others may go first, by a command
  that is waited for; with no addresses nothing is done.
\<close>

definition change_table ::
    "('k, 'w) env \<Rightarrow> ('w \<Rightarrow> unit io_result \<times> 'w) \<Rightarrow> ipv4 list \<Rightarrow> 'k resolver \<Rightarrow> 'w \<Rightarrow>
      unit io_result \<times> 'k resolver \<times> 'w" where
  "change_table env change ips r w =
     (if ips = [] then (Inr (), r, w)
      else (let (r, w) = en_others env (r, w);
                (res, w) = change w
            in (res, en_others env (r, w))))"

text \<open>The part of \<open>listed\<close> after the answer of the tunnel came.\<close>

definition place_answer ::
    "('k, 'w) env \<Rightarrow> pick_result \<Rightarrow> bytes \<Rightarrow> dns_message \<Rightarrow> 'k resolver \<Rightarrow> 'w \<Rightarrow> answer \<times> 'k resolver \<times> 'w" where
  "place_answer env pk b answer r w =
     (case route_answers (en_kernel env) (en_unix env w) (core_endpoints (rv_core r)) (pk_rule pk)
             (ipv4_answers answer) r of
        (Inl _, r) \<Rightarrow> (Own ServFail, r, w)
      | (Inr new, r) \<Rightarrow>
          (case rv_pf r of
             None \<Rightarrow> (Given b, r, w)
           | Some dir \<Rightarrow>
               (case change_table env (Pf_add (en_os env) (pk_rule pk) new) new r w of
                  (Inr _, r, w) \<Rightarrow> (Given b, r, w)
                | (Inl _, r, w) \<Rightarrow> (Own ServFail, r\<lparr>rv_pf_stale := True\<rparr>, w))))"

definition through_tunnel ::
    "('k, 'w) env \<Rightarrow> bytes \<Rightarrow> pick_result \<Rightarrow> 'k resolver \<Rightarrow> 'w \<Rightarrow> answer \<times> 'k resolver \<times> 'w" where
  "through_tunnel env query pk r w =
     (case pk_via pk of
        None \<Rightarrow> (Own ServFail, r, w)
      | Some index \<Rightarrow>
          (case await_exchange env
                  \<lparr>up_server = (rv_tunnel_dns r, 53), up_bound_if = nonzero (ucast index)\<rparr> query r w of
             (Inl _, rw) \<Rightarrow> (Own ServFail, rw)
           | (Inr b, r, w) \<Rightarrow>
               (case from_vec (en_lib env) b of
                  None \<Rightarrow> (Own ServFail, r, w)
                | Some answer \<Rightarrow> place_answer env pk b answer r w)))"

definition router_first :: "pick_result \<Rightarrow> bool" where
  "router_first pk = (\<not> (pk_always pk \<and> pk_via pk \<noteq> None))"

definition listed ::
    "('k, 'w) env \<Rightarrow> bytes \<Rightarrow> pick_result \<Rightarrow> 'k resolver \<Rightarrow> 'w \<Rightarrow> answer \<times> 'k resolver \<times> 'w" where
  "listed env query pk r w =
     (if router_first pk \<and> use_fakeip r
      then (case rv_upstream r of
              None \<Rightarrow> through_tunnel env query pk r w
            | Some network \<Rightarrow>
                (case await_exchange env network query r w of
                   (Inl _, r, w) \<Rightarrow> through_tunnel env query pk r w
                 | (Inr b, r, w) \<Rightarrow>
                     (case from_vec (en_lib env) b of
                        None \<Rightarrow> through_tunnel env query pk r w
                      | Some m \<Rightarrow> if has_fakeip m then (Given b, r, w)
                                  else through_tunnel env query pk r w)))
      else through_tunnel env query pk r w)"

definition handle_request ::
    "('k, 'w) env \<Rightarrow> dns_message \<Rightarrow> bytes \<Rightarrow> 'k resolver \<Rightarrow> 'w \<Rightarrow> answer \<times> 'k resolver \<times> 'w" where
  "handle_request env req query r w =
     (case m_queries req of
        [q] \<Rightarrow>
          (let name = normalize (q_name q) in
           case plan (rv_lists r) name of
             Plan_Reply code \<Rightarrow> (Own code, r, w)
           | Plan_Network \<Rightarrow> forward env query r w
           | Plan_Listed found \<Rightarrow>
               (case core_choose (rv_core r) found of
                  None \<Rightarrow> forward env query r w
                | Some pk \<Rightarrow>
                    if refused_type (q_type q) then (Own NoError, r, w)
                    else listed env query pk r w))
      | _ \<Rightarrow> forward env query r w)"

definition handle ::
    "('k, 'w) env \<Rightarrow> bytes \<Rightarrow> 'k resolver \<Rightarrow> 'w \<Rightarrow> bytes option \<times> 'k resolver \<times> 'w" where
  "handle env query r w =
     (case from_vec (en_lib env) query of
        None \<Rightarrow> (None, r, w)
      | Some req \<Rightarrow>
          if m_type req \<noteq> Query then (None, r, w)
          else (let (a, rw) = handle_request env req query r w
                in (answer_bytes (en_lib env) req a, rw)))"

section \<open>Hosts from the state\<close>

definition load_host ::
    "nat \<Rightarrow> (ipv4, host_run) hashmap \<Rightarrow> ipv4 \<times> nat \<times> nat \<Rightarrow> (ipv4, host_run) hashmap" where
  "load_host rules m e =
     (case e of (ip, rule, seen) \<Rightarrow>
        if rule < rules
        then hm_or_insert ip \<lparr>h_rule = rule, h_last = seen, h_placed = None\<rparr> m else m)"

definition load_hosts :: "(ipv4 \<times> nat \<times> nat) list \<Rightarrow> 'k resolver \<Rightarrow> 'k resolver" where
  "load_hosts hosts r =
     (let c = rv_core r in
      r\<lparr>rv_core := c\<lparr>cr_hosts := foldl (load_host (length (cr_rules c))) (cr_hosts c) hosts\<rparr>,
        rv_pf_stale := True\<rparr>)"

definition hosts_snapshot :: "'k resolver \<Rightarrow> hosts" where
  "hosts_snapshot r =
     hm_collect (List.map_filter (\<lambda>(ip, h).
       map_option (\<lambda>x. (ip, \<lparr>ho_rule = rn_name x, ho_last = h_last h\<rparr>)) (get (cr_rules (rv_core r)) (h_rule h)))
       (cr_hosts (rv_core r)))"

definition host_count :: "'k resolver \<Rightarrow> nat" where
  "host_count r = length (cr_hosts (rv_core r))"

definition take_dirty :: "'k resolver \<Rightarrow> bool \<times> 'k resolver" where
  "take_dirty r = (rv_dirty r, r\<lparr>rv_dirty := False\<rparr>)"

definition mark_dirty :: "'k resolver \<Rightarrow> 'k resolver" where
  "mark_dirty r = r\<lparr>rv_dirty := True\<rparr>"

section \<open>Reconciling the routes\<close>

record moves =
  mv_added :: nat
  mv_moved :: nat
  mv_removed :: nat
  mv_failed :: nat

definition Moves_default :: moves where
  "Moves_default = \<lparr>mv_added = 0, mv_moved = 0, mv_removed = 0, mv_failed = 0\<rparr>"

definition Moves_count :: "outcome io_result \<Rightarrow> moves \<Rightarrow> moves" where
  "Moves_count r m =
     (case r of
        Inr out \<Rightarrow> if out = Added then m\<lparr>mv_added := mv_added m + 1\<rparr> else m\<lparr>mv_moved := mv_moved m + 1\<rparr>
      | Inl _ \<Rightarrow> m\<lparr>mv_failed := mv_failed m + 1\<rparr>)"

definition pick_tunnels :: "instant \<Rightarrow> core \<Rightarrow> core" where
  "pick_tunnels now c =
     (let links = core_states c in
      c\<lparr>cr_rules := map (\<lambda>r. r\<lparr>rn_current :=
          (if rn_active r then pick (rn_tunnels r) links (rn_current r) now else None)\<rparr>) (cr_rules c)\<rparr>)"

text \<open>
  The loop of \<open>place_hosts\<close> over the hosts: the entries as it leaves them, those to drop, the
  socket, the moves by rule.
\<close>

definition host_kept :: "bool list \<Rightarrow> ipv4 list \<Rightarrow> ipv4 \<Rightarrow> host_run \<Rightarrow> bool" where
  "host_kept active endpoints ip h =
     ((case get active (h_rule h) of None \<Rightarrow> False | Some a \<Rightarrow> a) \<and> routable ip endpoints)"

definition target_at :: "target option list \<Rightarrow> nat \<Rightarrow> target option" where
  "target_at targets r = Option.bind (get targets r) (\<lambda>t. t)"

definition place_host ::
    "'k kernel \<Rightarrow> bool list \<Rightarrow> target option list \<Rightarrow> ipv4 list \<Rightarrow> ipv4 \<Rightarrow> host_run \<Rightarrow>
      'k route_socket \<Rightarrow> moves list \<Rightarrow> host_run \<times> 'k route_socket \<times> moves list" where
  "place_host krn active targets endpoints ip h s ms =
     (if \<not> host_kept active endpoints ip h
      then (h, if is_placed h then snd (RouteSocket_delete krn s (Subnet_host ip)) else s, ms)
      else (case target_at targets (h_rule h) of
              None \<Rightarrow> (h, s, ms)
            | Some t \<Rightarrow>
                if h_placed h \<noteq> Some (target_placed t)
                then (let (res, s) = RouteSocket_set krn s (Subnet_host ip) (tg_index t)
                      in (case res of Inr _ \<Rightarrow> h\<lparr>h_placed := Some (target_placed t)\<rparr> | Inl _ \<Rightarrow> h,
                          s, modify_nth (h_rule h) (Moves_count res) ms))
                else (h, s, ms)))"

fun place_hosts_loop ::
    "'k kernel \<Rightarrow> bool list \<Rightarrow> target option list \<Rightarrow> ipv4 list \<Rightarrow> (ipv4 \<times> host_run) list \<Rightarrow>
      'k route_socket \<Rightarrow> moves list \<Rightarrow>
      (ipv4 \<times> host_run) list \<times> (ipv4 \<times> nat) list \<times> 'k route_socket \<times> moves list" where
  "place_hosts_loop krn active targets endpoints [] s ms = ([], [], s, ms)"
| "place_hosts_loop krn active targets endpoints ((ip, h) # rest) s ms =
     (let (h', s, ms) = place_host krn active targets endpoints ip h s ms;
          (hs, dropped, s, ms) = place_hosts_loop krn active targets endpoints rest s ms
      in ((ip, h') # hs,
          if host_kept active endpoints ip h then dropped else (ip, h_rule h) # dropped, s, ms))"

definition place_hosts :: "'k kernel \<Rightarrow> 'k resolver \<Rightarrow> (moves list \<times> nat list) \<times> 'k resolver" where
  "place_hosts krn r =
     (let c = rv_core r;
          rules = length (cr_rules c);
          active = map rn_active (cr_rules c);
          targets = map (core_target c) [0..<rules];
          (hs, dropped, s, ms) =
            place_hosts_loop krn active targets (core_endpoints c) (cr_hosts c) (rv_routes r)
              (replicate rules Moves_default);
          hosts = foldl (\<lambda>m (ip, _). hm_remove ip m) hs dropped;
          by_rule = foldl (\<lambda>n (_, rule). modify_nth rule Suc n) (replicate rules 0) dropped;
          r = r\<lparr>rv_core := c\<lparr>cr_hosts := hosts\<rparr>, rv_routes := s\<rparr>
      in ((ms, by_rule), if dropped \<noteq> [] then r\<lparr>rv_dirty := True, rv_pf_stale := True\<rparr> else r))"

text \<open>The subnets to route, and those passed over for holding a tunnel server.\<close>

definition placeable :: "core \<Rightarrow> nat \<Rightarrow> target option" where
  "placeable c r =
     (if cr_use_fakeip c \<and> rs_tunnel (core_reasons c r) then None else core_target c r)"

definition want_subnet ::
    "target option list \<Rightarrow> ipv4 list \<Rightarrow> (subnet, nat \<times> target) hashmap \<times> subnet list \<Rightarrow>
      subnet \<times> nat \<Rightarrow> (subnet, nat \<times> target) hashmap \<times> subnet list" where
  "want_subnet targets endpoints acc e =
     (case acc of (want, skipped) \<Rightarrow> (case e of (s, r) \<Rightarrow>
        if list_ex (contains s) endpoints then (want, push_new s skipped)
        else (case target_at targets r of
                Some t \<Rightarrow> (hm_insert s (r, t) want, skipped)
              | None \<Rightarrow> (want, skipped))))"

definition wanted_subnets ::
    "core \<Rightarrow> lists \<Rightarrow> (subnet, nat \<times> target) hashmap \<times> subnet list" where
  "wanted_subnets c l =
     foldl (want_subnet (map (placeable c) [0..<length (cr_rules c)]) (core_endpoints c)) ([], [])
       (core_subnet_owners c l)"

definition subnet_gone :: "(subnet, nat \<times> target) hashmap \<Rightarrow> subnet \<times> nat \<times> placed \<Rightarrow> bool" where
  "subnet_gone want e =
     (case e of (s, r, p) \<Rightarrow>
        (case hm_get want s of None \<Rightarrow> True | Some (wr, wt) \<Rightarrow> wr \<noteq> r \<or> target_placed wt \<noteq> p))"

fun remove_gone ::
    "'k kernel \<Rightarrow> (subnet, nat \<times> target) hashmap \<Rightarrow> (subnet \<times> nat) list \<Rightarrow>
      (subnet, nat \<times> placed) hashmap \<Rightarrow> 'k route_socket \<Rightarrow> moves list \<Rightarrow>
      (subnet, nat \<times> placed) hashmap \<times> 'k route_socket \<times> moves list" where
  "remove_gone krn want [] m s ms = (m, s, ms)"
| "remove_gone krn want ((x, r) # gone) m s ms =
     (let m = hm_remove x m in
      if hm_get want x = None
      then (case RouteSocket_delete krn s x of
              (Inr True, s) \<Rightarrow>
                remove_gone krn want gone m s (modify_nth r (\<lambda>v. v\<lparr>mv_removed := mv_removed v + 1\<rparr>) ms)
            | (_, s) \<Rightarrow> remove_gone krn want gone m s ms)
      else remove_gone krn want gone m s ms)"

definition place_subnet ::
    "'k kernel \<Rightarrow> subnet \<times> nat \<times> target \<Rightarrow>
      (subnet, nat \<times> placed) hashmap \<Rightarrow> 'k route_socket \<Rightarrow> moves list \<Rightarrow>
      (subnet, nat \<times> placed) hashmap \<times> 'k route_socket \<times> moves list" where
  "place_subnet krn e m s ms =
     (case e of (x, r, t) \<Rightarrow>
        if hm_get m x \<noteq> None then (m, s, ms)
        else (let (res, s) = RouteSocket_set krn s x (tg_index t)
              in (case res of Inr _ \<Rightarrow> hm_insert x (r, target_placed t) m | Inl _ \<Rightarrow> m,
                  s, modify_nth r (Moves_count res) ms)))"

fun place_wanted ::
    "'k kernel \<Rightarrow> (subnet \<times> nat \<times> target) list \<Rightarrow>
      (subnet, nat \<times> placed) hashmap \<Rightarrow> 'k route_socket \<Rightarrow> moves list \<Rightarrow>
      (subnet, nat \<times> placed) hashmap \<times> 'k route_socket \<times> moves list" where
  "place_wanted krn [] m s ms = (m, s, ms)"
| "place_wanted krn (e # want) m s ms =
     (let (m, s, ms) = place_subnet krn e m s ms in place_wanted krn want m s ms)"

definition place_subnets :: "'k kernel \<Rightarrow> lists \<Rightarrow> 'k resolver \<Rightarrow> moves list \<times> 'k resolver" where
  "place_subnets krn l r =
     (let c = rv_core r;
          (want, skipped) = wanted_subnets c l;
          gone = map (\<lambda>(s, x, _). (s, x)) (filter (subnet_gone want) (cr_subnets c));
          (m, s, ms) = remove_gone krn want gone (cr_subnets c) (rv_routes r)
            (replicate (length (cr_rules c)) Moves_default);
          (m, s, ms) = place_wanted krn want m s ms
      in (ms, r\<lparr>rv_core := c\<lparr>cr_unrouted := skipped, cr_subnets := m\<rparr>, rv_routes := s\<rparr>))"

definition reconcile :: "'k kernel \<Rightarrow> instant \<Rightarrow> 'k resolver \<Rightarrow> 'k resolver" where
  "reconcile krn now r =
     (if cr_stopped (rv_core r) then r
      else let r1 = r\<lparr>rv_core := pick_tunnels now (rv_core r)\<rparr>;
               r2 = snd (place_hosts krn r1)
           in snd (place_subnets krn (rv_lists r) r2))"

section \<open>Taking routes back\<close>

text \<open>Deleting routes one by one; how many were there.\<close>

fun delete_routes :: "'k kernel \<Rightarrow> subnet list \<Rightarrow> 'k route_socket \<Rightarrow> nat \<times> 'k route_socket" where
  "delete_routes krn [] s = (0, s)"
| "delete_routes krn (d # ds) s =
     (let (res, s) = RouteSocket_delete krn s d;
          (n, s) = delete_routes krn ds s
      in (if res = Inr True then n + 1 else n, s))"

definition placed_routes :: "core \<Rightarrow> subnet list" where
  "placed_routes c =
     List.map_filter (\<lambda>(ip, h). if is_placed h then Some (Subnet_host ip) else None) (cr_hosts c)
     @ map fst (cr_subnets c)"

definition remove_all :: "'k kernel \<Rightarrow> 'k resolver \<Rightarrow> nat \<times> 'k resolver" where
  "remove_all krn r =
     (let c = rv_core r;
          (n, s) = delete_routes krn (placed_routes c) (rv_routes r)
      in (n, r\<lparr>rv_core := c\<lparr>cr_stopped := True,
                cr_hosts := map (\<lambda>(ip, h). (ip, h\<lparr>h_placed := None\<rparr>)) (cr_hosts c),
                cr_subnets := []\<rparr>,
             rv_routes := s\<rparr>))"

text \<open>\<open>expire\<close>: the hosts out of their window, dropped under one lock.\<close>

definition expired :: "nat \<Rightarrow> nat \<Rightarrow> ipv4 \<times> host_run \<Rightarrow> bool" where
  "expired now window e = (window < now - h_last (snd e))"

fun group_gone :: "(ipv4 \<times> host_run) list \<Rightarrow> (nat, ipv4 list) hashmap \<Rightarrow> (nat, ipv4 list) hashmap" where
  "group_gone [] m = m"
| "group_gone ((ip, h) # gone) m =
     group_gone gone (hm_insert (h_rule h)
       ((case hm_get m (h_rule h) of None \<Rightarrow> [] | Some ips \<Rightarrow> ips) @ [ip]) m)"

fun expire_tables ::
    "('k, 'w) env \<Rightarrow> (nat \<times> ipv4 list) list \<Rightarrow> 'k resolver \<Rightarrow> 'w \<Rightarrow> 'k resolver \<times> 'w" where
  "expire_tables env [] r w = (r, w)"
| "expire_tables env ((rule, ips) # rest) r w =
     (let (res, r, w) = change_table env (Pf_delete (en_os env) rule ips) ips r w;
          r = (case res of Inl _ \<Rightarrow> r\<lparr>rv_pf_stale := True\<rparr> | Inr _ \<Rightarrow> r)
      in expire_tables env rest r w)"

definition expire_hosts :: "'k kernel \<Rightarrow> nat \<Rightarrow> nat \<Rightarrow> 'k resolver \<Rightarrow> (ipv4 \<times> host_run) list \<times> 'k resolver" where
  "expire_hosts krn now window r =
     (let c = rv_core r;
          gone = filter (expired now window) (cr_hosts c);
          hosts = foldl (\<lambda>m (ip, _). hm_remove ip m) (cr_hosts c) gone;
          r = r\<lparr>rv_core := c\<lparr>cr_hosts := hosts\<rparr>\<rparr>
      in if gone = [] then ([], r)
         else (gone, r\<lparr>rv_dirty := True,
           rv_routes := snd (delete_routes krn
             (List.map_filter (\<lambda>(ip, h). if is_placed h then Some (Subnet_host ip) else None) gone)
             (rv_routes r))\<rparr>))"

definition expire :: "('k, 'w) env \<Rightarrow> nat \<Rightarrow> nat \<Rightarrow> 'k resolver \<Rightarrow> 'w \<Rightarrow> nat \<times> 'k resolver \<times> 'w" where
  "expire env now window r w =
     (let (gone, r) = expire_hosts (en_kernel env) now window r in
      if gone = [] then (0, r, w)
      else (length gone,
        case rv_pf r of
          None \<Rightarrow> (r, w)
        | Some _ \<Rightarrow> expire_tables env (group_gone gone []) r w))"

section \<open>The kill switch\<close>

definition resolver_shape :: "'k resolver \<Rightarrow> shape" where
  "resolver_shape r =
     (let c = rv_core r in
      \<lparr>sh_rules = map (\<lambda>x. if rn_active x
           then Some (List.map_filter (\<lambda>t. Option.bind (get (cr_links c) t) (\<lambda>l. map_option if_name (ls_iface (snd l))))
             (rn_tunnels x))
           else None) (cr_rules c),
       sh_use_fakeip = cr_use_fakeip c,
       sh_endpoints = core_endpoints c,
       sh_network = rv_network r\<rparr>)"

definition resolver_tables :: "'k resolver \<Rightarrow> tables" where
  "resolver_tables r =
     (let c = rv_core r;
          rules = length (cr_rules c);
          hosts = foldl (\<lambda>t (ip, h). modify_nth (h_rule h) (\<lambda>x. x @ [ip]) t) (replicate rules []) (cr_hosts c);
          nets = foldl (\<lambda>t (s, o'). modify_nth o' (\<lambda>x. x @ [s]) t) (replicate rules [])
            (core_subnet_owners c (rv_lists r))
      in \<lparr>tb_hosts = map sort hosts, tb_nets = map (sort_key (\<lambda>s. (sn_addr s, sn_prefix s))) nets\<rparr>)"

definition sync_pf :: "('k, 'w) env \<Rightarrow> 'k resolver \<Rightarrow> 'w \<Rightarrow> unit io_result \<times> 'k resolver \<times> 'w" where
  "sync_pf env r w =
     (case rv_pf r of
        None \<Rightarrow> (Inr (), r, w)
      | Some dir \<Rightarrow>
          (let (r, w) = en_others env (r, w);
               s = resolver_shape r;
               stale = rv_pf_stale r;
               r = r\<lparr>rv_pf_stale := False\<rparr>
           in if \<not> stale \<and> rv_pf_shape r = Some s then (Inr (), r, w)
              else (let (r, w) = en_others env (r, w);
                        (res, w) = Pf_load (en_os env) dir s (resolver_tables r) w;
                        (r, w) = en_others env (r, w)
                    in case res of
                         Inr _ \<Rightarrow> (Inr (), r\<lparr>rv_pf_shape := Some s\<rparr>, w)
                       | Inl e \<Rightarrow> (Inl e, r\<lparr>rv_pf_stale := True, rv_pf_shape := None\<rparr>, w))))"

definition covers :: "ipv4 \<Rightarrow> 'k resolver \<Rightarrow> bool" where
  "covers ip r =
     (let c = rv_core r in
      (case hm_get (cr_hosts c) ip of None \<Rightarrow> False | Some h \<Rightarrow> is_placed h) \<or>
      list_ex (\<lambda>(n, _). contains n ip) (cr_subnets c))"

definition held :: "ipv4 \<Rightarrow> 'k resolver \<Rightarrow> bool" where
  "held ip r =
     (let c = rv_core r in
      hm_get (cr_hosts c) ip \<noteq> None \<or> list_ex (\<lambda>(s, _). contains s ip) (core_subnet_owners c (rv_lists r)))"

end
