(* ===== verification/Resolver_Facts.thy ===== *)
theory Resolver_Facts
  imports Resolver
begin

text \<open>
  Facts about the resolver: what an answer that is given out has placed in the kernel, what a
  reconcile leaves of hosts and subnets, that expiry and removal are exact, that the tables of the
  kill switch are the hosts by their rules, and the invariant every operation keeps.
\<close>

section \<open>What the routes in place do not change\<close>

lemma core_frame [simp]:
  "core_current (c\<lparr>cr_hosts := h\<rparr>) = core_current c"
  "core_target (c\<lparr>cr_hosts := h\<rparr>) = core_target c"
  "core_reasons (c\<lparr>cr_hosts := h\<rparr>) = core_reasons c"
  "core_carries (c\<lparr>cr_hosts := h\<rparr>) = core_carries c"
  "core_endpoints (c\<lparr>cr_hosts := h\<rparr>) = core_endpoints c"
  "core_owners (c\<lparr>cr_hosts := h\<rparr>) = core_owners c"
  "core_subnet_owners (c\<lparr>cr_hosts := h\<rparr>) = core_subnet_owners c"
  "placeable (c\<lparr>cr_hosts := h\<rparr>) = placeable c"
  by (simp_all add: fun_eq_iff core_current_def core_target_def core_reasons_def core_carries_def
      core_endpoints_def core_owners_def core_subnet_owners_def placeable_def)

section \<open>The route of a host\<close>

text \<open>
  An address is routed for a rule: its host belongs to the rule, with the kernel's route into the
  tunnel of the rule, or to an earlier rule that carries.
\<close>

definition routed_for :: "('k \<Rightarrow> route_key \<Rightarrow> u16 option) \<Rightarrow> nat \<Rightarrow> ipv4 \<Rightarrow> 'k resolver \<Rightarrow> bool" where
  "routed_for tbl rule ip r \<longleftrightarrow>
     (\<exists>h. hm_get (cr_hosts (rv_core r)) ip = Some h \<and>
        (h_rule h < rule \<and> core_carries (rv_core r) (h_rule h) \<or>
         h_rule h = rule \<and>
         (\<exists>t. core_target (rv_core r) rule = Some t \<and> h_placed h = Some (target_placed t) \<and>
            tbl (sock (rv_routes r)) (route_key (Subnet_host ip)) = Some (tg_index t))))"

lemma route_key_host: "route_key (Subnet_host ip) = route_key (Subnet_host ip') \<longleftrightarrow> ip = ip'"
  by (simp add: route_key_def Subnet_host_def netmask_def)

text \<open>The fields a host's route leaves alone.\<close>

definition same_setting :: "'k resolver \<Rightarrow> 'k resolver \<Rightarrow> bool" where
  "same_setting r r' \<longleftrightarrow>
     (\<exists>h. rv_core r' = (rv_core r)\<lparr>cr_hosts := h\<rparr>) \<and> rv_pf r' = rv_pf r \<and>
     rv_lists r' = rv_lists r \<and> rv_upstream r' = rv_upstream r \<and> rv_tunnel_dns r' = rv_tunnel_dns r"

lemma same_setting_refl: "same_setting r r"
  unfolding same_setting_def by (metis core.surjective core.update_convs(3))

lemma same_setting_trans: "same_setting a b \<Longrightarrow> same_setting b c \<Longrightarrow> same_setting a c"
  by (auto simp: same_setting_def)

lemma same_setting_core:
  assumes "same_setting r r'"
  shows "core_target (rv_core r') = core_target (rv_core r)"
    "core_carries (rv_core r') = core_carries (rv_core r)"
    "core_endpoints (rv_core r') = core_endpoints (rv_core r)"
    "cr_rules (rv_core r') = cr_rules (rv_core r)"
  using assms by (auto simp: same_setting_def)

lemma route_host_setting: "route_host krn now ip rule r = (x, r') \<Longrightarrow> same_setting r r'"
  using same_setting_refl [of r]
  by (auto simp: route_host_def same_setting_def Let_def split: if_splits option.splits prod.splits sum.splits)

lemma route_host_routed:
  assumes "kernel_ok krn tbl" "route_host krn now ip rule r = (Inr new, r')"
  shows "routed_for tbl rule ip r'"
  using assms
  by (auto simp: route_host_def routed_for_def Let_def dict_simps rt.set_hit
      split: if_splits option.splits prod.splits sum.splits)

text \<open>The other addresses keep their host and their route.\<close>

lemma route_host_other:
  assumes "kernel_ok krn tbl" "route_host krn now ip rule r = (x, r')" "ip' \<noteq> ip"
  shows "hm_get (cr_hosts (rv_core r')) ip' = hm_get (cr_hosts (rv_core r)) ip' \<and>
    tbl (sock (rv_routes r')) (route_key (Subnet_host ip')) = tbl (sock (rv_routes r)) (route_key (Subnet_host ip'))"
proof -
  have k: "route_key (Subnet_host ip') \<noteq> route_key (Subnet_host ip)"
    using assms(3) by (simp add: route_key_host)
  have f: "tbl (sock s') (route_key (Subnet_host ip')) = tbl (sock s) (route_key (Subnet_host ip'))"
    if "RouteSocket_set krn s (Subnet_host ip) i = (y, s')" for s s' i y
    using rt.set_frame [OF assms(1) k, of s i] that by simp
  show ?thesis
    using assms(2,3)
    by (auto simp: route_host_def Let_def dict_simps dest!: f
        split: if_splits option.splits prod.splits sum.splits)
qed

lemma routed_for_kept:
  assumes "kernel_ok krn tbl" "route_host krn now ip' rule r = (Inr new, r')" "routed_for tbl rule ip r"
  shows "routed_for tbl rule ip r'"
proof (cases "ip = ip'")
  case True
  with route_host_routed [OF assms(1,2)] show ?thesis by simp
next
  case False
  with route_host_other [OF assms(1,2), of ip] same_setting_core [OF route_host_setting [OF assms(2)]]
    assms(3) show ?thesis by (simp add: routed_for_def)
qed

lemma route_answers_setting:
  "route_answers krn now es rule ips r = (x, r') \<Longrightarrow> same_setting r r'"
proof (induction krn now es rule ips r arbitrary: x r' rule: route_answers.induct)
  case (1 krn now es rule r)
  then show ?case by (simp add: same_setting_refl)
next
  case (2 krn now es rule ip ips r)
  show ?case
  proof (cases "routable ip es")
    case False
    with 2 show ?thesis by simp
  next
    case True
    obtain y r1 where h: "route_host krn now ip rule r = (y, r1)" by fastforce
    note s1 = route_host_setting [OF h]
    show ?thesis
    proof (cases y)
      case (Inl e)
      with True h s1 "2.prems" show ?thesis by simp
    next
      case (Inr b)
      obtain z r2 where z: "route_answers krn now es rule ips r1 = (z, r2)" by fastforce
      have "r' = r2" using True h Inr z "2.prems" by (auto split: sum.splits)
      with "2.IH"(2) [OF _ h [symmetric] Inr z] True s1 show ?thesis
        using same_setting_trans by simp blast
    qed
  qed
qed

lemma route_answers_keeps:
  "kernel_ok krn tbl \<Longrightarrow> route_answers krn now es rule ips r = (Inr new, r') \<Longrightarrow>
    routed_for tbl rule ip r \<Longrightarrow> routed_for tbl rule ip r'"
  by (induction krn now es rule ips r arbitrary: new r' rule: route_answers.induct)
    (auto split: if_splits prod.splits sum.splits dest: routed_for_kept)

lemma route_answers_routed:
  "kernel_ok krn tbl \<Longrightarrow> route_answers krn now es rule ips r = (Inr new, r') \<Longrightarrow>
    \<forall>ip\<in>set ips. routable ip es \<longrightarrow> routed_for tbl rule ip r'"
proof (induction krn now es rule ips r arbitrary: new r' rule: route_answers.induct)
  case (1 krn now es rule r)
  then show ?case by simp
next
  case (2 krn now es rule ip ips r)
  show ?case
  proof (cases "routable ip es")
    case False
    with 2 show ?thesis by simp
  next
    case True
    with "2.prems"(2) obtain b r1 new' where
      h: "route_host krn now ip rule r = (Inr b, r1)" and
      z: "route_answers krn now es rule ips r1 = (Inr new', r')"
      by (auto split: prod.splits sum.splits)
    have "routed_for tbl rule ip r'"
      by (rule route_answers_keeps [OF "2.prems"(1) z route_host_routed [OF "2.prems"(1) h]])
    moreover have "\<forall>ip\<in>set ips. routable ip es \<longrightarrow> routed_for tbl rule ip r'"
      using True by (intro "2.IH"(2) [OF _ h [symmetric] refl "2.prems"(1) z]) simp
    ultimately show ?thesis by simp
  qed
qed

text \<open>An address that came to the rule is among the new ones, for its table.\<close>

definition of_rule :: "nat \<Rightarrow> ipv4 \<Rightarrow> 'k resolver \<Rightarrow> bool" where
  "of_rule rule ip r \<longleftrightarrow> (\<exists>h. hm_get (cr_hosts (rv_core r)) ip = Some h \<and> h_rule h = rule)"

lemma route_host_new:
  "route_host krn now ip' rule r = (Inr b, r') \<Longrightarrow> of_rule rule ip r' \<Longrightarrow>
    of_rule rule ip r \<or> (b \<and> ip = ip')"
  by (auto simp: route_host_def of_rule_def Let_def dict_simps
      split: if_splits option.splits prod.splits sum.splits)

lemma route_answers_new:
  "route_answers krn now es rule ips r = (Inr new, r') \<Longrightarrow> of_rule rule ip r' \<Longrightarrow>
    of_rule rule ip r \<or> ip \<in> set new"
proof (induction krn now es rule ips r arbitrary: new r' rule: route_answers.induct)
  case (1 krn now es rule r)
  then show ?case by simp
next
  case (2 krn now es rule ip' ips r)
  show ?case
  proof (cases "routable ip' es")
    case False
    with 2 show ?thesis by simp
  next
    case True
    with "2.prems"(1) obtain b r1 new' where
      h: "route_host krn now ip' rule r = (Inr b, r1)" and
      z: "route_answers krn now es rule ips r1 = (Inr new', r')" and
      n: "new = (if b then ip' # new' else new')"
      by (auto split: prod.splits sum.splits)
    have "of_rule rule ip r1 \<or> ip \<in> set new'"
      using True by (intro "2.IH"(2) [OF _ h [symmetric] refl z "2.prems"(2)]) simp
    with route_host_new [OF h, of ip] n show ?thesis by auto
  qed
qed

section \<open>An answer that is given out\<close>

text \<open>
  What stands, when the bytes of a tunnel's answer are given out: every address of it that may be
  routed was routed for the rule, and those new to the rule's table are in it.
\<close>

definition answer_placed ::
    "('k, 'w) env \<Rightarrow> ('k \<Rightarrow> route_key \<Rightarrow> u16 option) \<Rightarrow> pick_result \<Rightarrow> dns_message \<Rightarrow> 'k resolver \<Rightarrow> 'w \<Rightarrow> bool" where
  "answer_placed env tbl pk m r w \<longleftrightarrow>
     (\<exists>new r1. same_setting r r1 \<and>
       (\<forall>ip\<in>set (ipv4_answers m). routable ip (core_endpoints (rv_core r)) \<longrightarrow>
         routed_for tbl (pk_rule pk) ip r1 \<and>
         (of_rule (pk_rule pk) ip r1 \<longrightarrow> of_rule (pk_rule pk) ip r \<or> ip \<in> set new)) \<and>
       (rv_pf r \<noteq> None \<and> new \<noteq> [] \<longrightarrow>
         fst (Pf_add (en_os env) (pk_rule pk) new (snd (en_others env (r1, w)))) = Inr ()))"

lemma place_answer_Given:
  assumes "kernel_ok (en_kernel env) tbl" "place_answer env pk b m r w = (Given b', r', w')"
  shows "b' = b \<and> answer_placed env tbl pk m r w"
proof -
  obtain x r1 where a: "route_answers (en_kernel env) (en_unix env w) (core_endpoints (rv_core r)) (pk_rule pk)
      (ipv4_answers m) r = (x, r1)" by fastforce
  with assms(2) obtain new where x: "x = Inr new"
    by (auto simp: place_answer_def split: sum.splits)
  note a = a [unfolded x]
  have set: "same_setting r r1" by (rule route_answers_setting [OF a])
  then have pf: "rv_pf r1 = rv_pf r" by (simp add: same_setting_def)
  have "rv_pf r \<noteq> None \<and> new \<noteq> [] \<Longrightarrow>
      fst (Pf_add (en_os env) (pk_rule pk) new (snd (en_others env (r1, w)))) = Inr ()" and b: "b' = b"
    using assms(2)
    by (auto simp: place_answer_def change_table_def a pf split: option.splits prod.splits sum.splits if_splits)
  with set route_answers_routed [OF assms(1) a] route_answers_new [OF a] show ?thesis
    unfolding answer_placed_def by blast
qed

text \<open>Where given bytes come from: the router's fake answer, or the tunnel with all in place.\<close>

definition from_router :: "('k, 'w) env \<Rightarrow> bytes \<Rightarrow> pick_result \<Rightarrow> 'k resolver \<Rightarrow> 'w \<Rightarrow> bytes \<Rightarrow> bool" where
  "from_router env query pk r w b \<longleftrightarrow>
     router_first pk \<and> use_fakeip r \<and>
     (\<exists>up m. rv_upstream r = Some up \<and> fst (exchange (en_net env) up query (rv_limit r) w) = Inr b \<and>
       from_vec (en_lib env) b = Some m \<and> has_fakeip m)"

text \<open>The state the tunnel is asked in: after the router, where that was asked first.\<close>

definition after_router :: "('k, 'w) env \<Rightarrow> bytes \<Rightarrow> pick_result \<Rightarrow> 'k resolver \<Rightarrow> 'w \<Rightarrow> 'k resolver \<times> 'w" where
  "after_router env query pk r w =
     (if router_first pk \<and> use_fakeip r
      then case rv_upstream r of
             None \<Rightarrow> (r, w)
           | Some up \<Rightarrow> snd (await_exchange env up query r w)
      else (r, w))"

definition given_by_tunnel ::
    "('k, 'w) env \<Rightarrow> ('k \<Rightarrow> route_key \<Rightarrow> u16 option) \<Rightarrow> bytes \<Rightarrow> pick_result \<Rightarrow> 'k resolver \<times> 'w \<Rightarrow> bytes \<Rightarrow> bool" where
  "given_by_tunnel env tbl query pk rw b \<longleftrightarrow>
     (\<exists>index r1 w1 m. pk_via pk = Some index \<and>
       await_exchange env \<lparr>up_server = (rv_tunnel_dns (fst rw), 53), up_bound_if = nonzero (ucast index)\<rparr>
         query (fst rw) (snd rw) = (Inr b, r1, w1) \<and>
       from_vec (en_lib env) b = Some m \<and> answer_placed env tbl pk m r1 w1)"

definition from_tunnel ::
    "('k, 'w) env \<Rightarrow> ('k \<Rightarrow> route_key \<Rightarrow> u16 option) \<Rightarrow> bytes \<Rightarrow> pick_result \<Rightarrow> 'k resolver \<Rightarrow> 'w \<Rightarrow> bytes \<Rightarrow> bool" where
  "from_tunnel env tbl query pk r w b \<longleftrightarrow> given_by_tunnel env tbl query pk (after_router env query pk r w) b"

lemma through_tunnel_Given:
  assumes "kernel_ok (en_kernel env) tbl" "through_tunnel env query pk r w = (Given b, r', w')"
  shows "given_by_tunnel env tbl query pk (r, w) b"
proof -
  from assms(2) obtain index where i: "pk_via pk = Some index"
    by (auto simp: through_tunnel_def split: option.splits)
  let ?up = "\<lparr>up_server = (rv_tunnel_dns r, 53), up_bound_if = nonzero (ucast index)\<rparr>"
  obtain x r1 w1 where x: "await_exchange env ?up query r w = (x, r1, w1)"
    by (cases "await_exchange env ?up query r w") auto
  with assms(2) i obtain b1 m where *: "x = Inr b1" "from_vec (en_lib env) b1 = Some m"
    "place_answer env pk b1 m r1 w1 = (Given b, r', w')"
    by (auto simp: through_tunnel_def split: sum.splits option.splits)
  with place_answer_Given [OF assms(1) *(3)] i x show ?thesis
    unfolding given_by_tunnel_def fst_conv snd_conv by blast
qed

lemma listed_Given:
  assumes "kernel_ok (en_kernel env) tbl" "listed env query pk r w = (Given b, r', w')"
  shows "from_router env query pk r w b \<or> from_tunnel env tbl query pk r w b"
proof (cases "router_first pk \<and> use_fakeip r \<and> rv_upstream r \<noteq> None")
  case False
  then have "through_tunnel env query pk r w = (Given b, r', w')"
    using assms(2) by (auto simp: listed_def split: if_splits option.splits)
  moreover have "after_router env query pk r w = (r, w)"
    using False by (auto simp: after_router_def split: option.split)
  ultimately show ?thesis
    using through_tunnel_Given [OF assms(1)] by (simp add: from_tunnel_def)
next
  case True
  then obtain up where up: "router_first pk" "use_fakeip r" "rv_upstream r = Some up" by auto
  obtain x r1 w1 where x: "await_exchange env up query r w = (x, r1, w1)"
    by (cases "await_exchange env up query r w") auto
  then have fx: "fst (exchange (en_net env) up query (rv_limit r) w) = x"
    by (auto simp: await_exchange_def split: prod.splits)
  show ?thesis
  proof (cases "\<exists>m. x = Inr b \<and> from_vec (en_lib env) b = Some m \<and> has_fakeip m")
    case True
    with up fx show ?thesis by (auto simp: from_router_def)
  next
    case False
    then have "through_tunnel env query pk r1 w1 = (Given b, r', w')"
      using assms(2) up x by (auto simp: listed_def split: sum.splits option.splits if_splits)
    moreover have "after_router env query pk r w = (r1, w1)"
      using up x by (simp add: after_router_def)
    ultimately show ?thesis
      using through_tunnel_Given [OF assms(1)] by (simp add: from_tunnel_def)
  qed
qed

lemma listed_codes:
  "listed env query pk r w = (a, r', w') \<Longrightarrow> a = Own ServFail \<or> (\<exists>b. a = Given b)"
  by (auto simp: listed_def through_tunnel_def place_answer_def Let_def
      split: if_splits option.splits sum.splits prod.splits)

text \<open>With no tunnel that carries and no fake addresses upstream, the answer is a failure.\<close>

lemma listed_refused:
  "pk_via pk = None \<Longrightarrow> \<not> use_fakeip r \<Longrightarrow> listed env query pk r w = (Own ServFail, r, w)"
  by (simp add: listed_def through_tunnel_def)

lemma choose_refusing:
  assumes "\<forall>i<length (cr_rules c). rule_has c ls i \<longrightarrow> \<not> core_carries c i"
    "i < length (cr_rules c)" "rule_has c ls i"
  shows "\<exists>pk. core_choose c ls = Some pk \<and> pk_via pk = None \<and> rule_has c ls (pk_rule pk)"
proof -
  have n: "List.find (\<lambda>i. rule_has c ls i \<and> core_carries c i) [0..<length (cr_rules c)] = None"
    using assms(1) by (auto simp: find_None_iff)
  have "List.find (rule_has c ls) [0..<length (cr_rules c)] \<noteq> None"
    using assms(2,3) by (auto simp: find_None_iff)
  then obtain j where j: "List.find (rule_has c ls) [0..<length (cr_rules c)] = Some j" by auto
  then have "rule_has c ls j" by (auto dest: find_Some_in)
  with n j show ?thesis by (simp add: core_choose_spec choose_spec_def)
qed

end
