(* ===== verification/Resolver_Inv.thy ===== *)
theory Resolver_Inv
  imports Resolver_Facts
begin

text \<open>
  The resolver as a state machine: its steps, the invariant they keep, and the routes it leaves in
  the kernel. A method that waits is a run of steps with those of the other tasks between.
\<close>

section \<open>Steps\<close>

inductive rv_step :: "'k kernel \<Rightarrow> 'k resolver \<Rightarrow> 'k resolver \<Rightarrow> bool" for krn where
  step_lists: "lists_ok l \<Longrightarrow> rv_step krn r (set_lists l r)"
| step_network: "rv_step krn r (set_network n r)"
| step_upstream: "rv_step krn r (set_upstream u r)"
| step_use_fakeip: "rv_step krn r (set_use_fakeip b r)"
| step_owner: "rv_step krn r (set_owner b r)"
| step_country: "rv_step krn r (snd (set_country country r))"
| step_link: "rv_step krn r (set_link link s r)"
| step_route: "rv_step krn r (snd (route_host krn now ip rule r))"
| step_load: "rv_step krn r (load_hosts hosts r)"
| step_reconcile: "rv_step krn r (reconcile krn now r)"
| step_remove_all: "rv_step krn r (snd (remove_all krn r))"
| step_expire: "rv_step krn r (snd (expire_hosts krn unix window r))"
| step_dirty: "rv_step krn r (r\<lparr>rv_dirty := b\<rparr>)"
| step_stale: "rv_step krn r (r\<lparr>rv_pf_stale := b\<rparr>)"
| step_shape: "rv_step krn r (r\<lparr>rv_pf_shape := sh\<rparr>)"

abbreviation rv_run :: "'k kernel \<Rightarrow> 'k resolver \<Rightarrow> 'k resolver \<Rightarrow> bool" where
  "rv_run krn \<equiv> (rv_step krn)\<^sup>*\<^sup>*"

text \<open>The other tasks take steps too.\<close>

definition env_ok :: "('k, 'w) env \<Rightarrow> bool" where
  "env_ok env \<longleftrightarrow> (\<forall>r w. rv_run (en_kernel env) r (fst (en_others env (r, w))))"

lemma step_route': "route_host krn now ip rule r = (x, r') \<Longrightarrow> rv_step krn r r'"
  using step_route [of krn r now ip rule] by simp

lemma route_answers_run: "route_answers krn now es rule ips r = (x, r') \<Longrightarrow> rv_run krn r r'"
proof (induction krn now es rule ips r arbitrary: x r' rule: route_answers.induct)
  case (1 krn now es rule r)
  then show ?case by simp
next
  case (2 krn now es rule ip ips r)
  show ?case
  proof (cases "routable ip es")
    case False
    with 2 show ?thesis by simp
  next
    case True
    obtain y r1 where h: "route_host krn now ip rule r = (y, r1)" by fastforce
    note s1 = step_route' [OF h]
    show ?thesis
    proof (cases y)
      case (Inl e)
      with True h s1 "2.prems" show ?thesis by auto
    next
      case (Inr b)
      obtain z r2 where z: "route_answers krn now es rule ips r1 = (z, r2)" by fastforce
      have r2: "r' = r2" using True h Inr z "2.prems" by (auto split: sum.splits)
      have "rv_run krn r1 r2" using True by (intro "2.IH"(2) [OF _ h [symmetric] Inr z]) simp
      with s1 r2 show ?thesis by simp
    qed
  qed
qed

lemma others_run:
  "env_ok env \<Longrightarrow> en_others env (r, w) = (r', w') \<Longrightarrow> rv_run (en_kernel env) r r'"
  unfolding env_ok_def by (metis fst_conv)

lemma await_exchange_run:
  "env_ok env \<Longrightarrow> await_exchange env up query r w = (x, r', w') \<Longrightarrow> rv_run (en_kernel env) r r'"
  by (auto simp: await_exchange_def split: prod.splits dest: others_run)

lemma forward_run:
  "env_ok env \<Longrightarrow> forward env query r w = (x, r', w') \<Longrightarrow> rv_run (en_kernel env) r r'"
  by (auto simp: forward_def split: option.splits prod.splits sum.splits dest: await_exchange_run)

lemma change_table_run:
  assumes "env_ok env" "change_table env change ips r w = (x, r', w')"
  shows "rv_run (en_kernel env) r r'"
  using assms(2)
  by (auto simp: change_table_def split: if_splits prod.splits dest!: others_run [OF assms(1)] intro: rtranclp_trans)

lemma place_answer_run:
  assumes "env_ok env" "place_answer env pk b m r w = (x, r', w')"
  shows "rv_run (en_kernel env) r r'"
proof -
  obtain y r1 where a: "route_answers (en_kernel env) (en_unix env w) (core_endpoints (rv_core r)) (pk_rule pk)
      (ipv4_answers m) r = (y, r1)" by fastforce
  note r1 = route_answers_run [OF a]
  have "rv_run (en_kernel env) r1 r'"
    using assms(2)
    by (auto simp: place_answer_def a split: sum.splits option.splits prod.splits
        dest!: change_table_run [OF assms(1)] intro: rtranclp.rtrancl_into_rtrancl step_stale)
  with r1 show ?thesis by (rule rtranclp_trans)
qed

lemma through_tunnel_run:
  assumes "env_ok env" "through_tunnel env query pk r w = (x, r', w')"
  shows "rv_run (en_kernel env) r r'"
  using assms(2)
  by (auto simp: through_tunnel_def split: option.splits prod.splits sum.splits
      dest!: await_exchange_run [OF assms(1)] place_answer_run [OF assms(1)] intro: rtranclp_trans)

lemma listed_run:
  assumes "env_ok env" "listed env query pk r w = (x, r', w')"
  shows "rv_run (en_kernel env) r r'"
  using assms(2)
  by (auto simp: listed_def split: if_splits option.splits prod.splits sum.splits
      dest!: await_exchange_run [OF assms(1)] through_tunnel_run [OF assms(1)] intro: rtranclp_trans)

lemma handle_run:
  assumes "env_ok env" "handle env query r w = (x, r', w')"
  shows "rv_run (en_kernel env) r r'"
  using assms(2)
  by (auto simp: handle_def handle_request_def Let_def
      split: option.splits prod.splits if_splits plan.splits list.splits
      dest!: forward_run [OF assms(1)] listed_run [OF assms(1)])

lemma expire_tables_run:
  "env_ok env \<Longrightarrow> expire_tables env gs r w = (r', w') \<Longrightarrow> rv_run (en_kernel env) r r'"
proof (induction env gs r w arbitrary: r' w' rule: expire_tables.induct)
  case (1 env r w)
  then show ?case by simp
next
  case (2 env rule ips rest r w)
  obtain res r2 w2 where o: "change_table env (Pf_delete (en_os env) rule ips) ips r w = (res, r2, w2)"
    by (metis prod_cases3)
  define r3 where "r3 = (case res of Inl _ \<Rightarrow> r2\<lparr>rv_pf_stale := True\<rparr> | Inr _ \<Rightarrow> r2)"
  have "rv_run (en_kernel env) r r2" using change_table_run [OF "2.prems"(1) o] .
  moreover have "rv_run (en_kernel env) r2 r3"
    by (cases res) (auto simp: r3_def intro: step_stale)
  moreover have "rv_run (en_kernel env) r3 r'"
    by (rule "2.IH" [OF o [symmetric] refl refl r3_def "2.prems"(1)])
      (use "2.prems"(2) in \<open>simp add: o r3_def\<close>)
  ultimately show ?case by (meson rtranclp_trans)
qed

lemma expire_run:
  assumes "env_ok env" "expire env unix window r w = (n, r', w')"
  shows "rv_run (en_kernel env) r r'"
proof -
  obtain gone r1 where g: "expire_hosts (en_kernel env) unix window r = (gone, r1)" by fastforce
  have s: "rv_step (en_kernel env) r r1"
    using step_expire [of "en_kernel env" r unix window] by (simp add: g)
  show ?thesis
  proof (cases "gone = []")
    case True
    then have "r' = r1" using assms(2) by (simp add: expire_def g)
    with s show ?thesis by simp
  next
    case False
    with assms(2) have "rv_run (en_kernel env) r1 r'"
      by (auto simp: expire_def g split: option.splits dest: expire_tables_run [OF assms(1)])
    with s show ?thesis by (rule converse_rtranclp_into_rtranclp)
  qed
qed

lemma sync_pf_run:
  assumes "env_ok env" "sync_pf env r w = (x, r', w')"
  shows "rv_run (en_kernel env) r r'"
proof (cases "rv_pf r")
  case None
  with assms(2) show ?thesis by (simp add: sync_pf_def)
next
  case (Some dir)
  let ?run = "rv_run (en_kernel env)"
  obtain r1 w1 where o1: "en_others env (r, w) = (r1, w1)" by fastforce
  let ?r2 = "r1\<lparr>rv_pf_stale := False\<rparr>"
  have r2: "?run r ?r2"
    using others_run [OF assms(1) o1] by (rule rtranclp.rtrancl_into_rtrancl) (rule step_stale)
  obtain r3 w3 where o3: "en_others env (?r2, w1) = (r3, w3)" by fastforce
  obtain y w4 where l: "Pf_load (en_os env) dir (resolver_shape r1) (resolver_tables r3) w3 = (y, w4)"
    by fastforce
  obtain r5 w5 where o5: "en_others env (r3, w4) = (r5, w5)" by fastforce
  have shape: "resolver_shape ?r2 = resolver_shape r1" by (simp add: resolver_shape_def)
  have r5: "?run r r5"
    using r2 others_run [OF assms(1) o3] others_run [OF assms(1) o5] by (meson rtranclp_trans)
  have ok: "?run r (r5\<lparr>rv_pf_shape := sh\<rparr>)" for sh
    using r5 by (rule rtranclp.rtrancl_into_rtrancl) (rule step_shape)
  have "?run r (r5\<lparr>rv_pf_stale := True\<rparr>)"
    using r5 by (rule rtranclp.rtrancl_into_rtrancl) (rule step_stale)
  then have err: "?run r (r5\<lparr>rv_pf_stale := True, rv_pf_shape := sh\<rparr>)" for sh
    by (rule rtranclp.rtrancl_into_rtrancl) (rule step_shape)
  from assms(2) show ?thesis
    using r2 ok err
    by (auto simp: sync_pf_def Some o1 o3 o5 l Let_def split: if_splits sum.splits)
qed

section \<open>The hosts after a reconcile\<close>

lemma delete_filter: "hm_remove k m = filter (\<lambda>e. fst e \<noteq> k) m"
  by (induction m) auto

lemma foldl_remove:
  "foldl (\<lambda>m (k, _). hm_remove k m) m ds = filter (\<lambda>e. fst e \<notin> fst ` set ds) m"
proof (induction ds arbitrary: m)
  case Nil
  then show ?case by simp
next
  case (Cons d ds)
  obtain k v where d: "d = (k, v)" by fastforce
  have "foldl (\<lambda>m (k, _). hm_remove k m) m (d # ds) = filter (\<lambda>e. fst e \<notin> fst ` set ds) (hm_remove k m)"
    by (simp add: d Cons.IH)
  then show ?case by (simp add: d delete_filter)
qed

text \<open>One step of the loop, and a run of it on the rest.\<close>

lemma place_host_rule:
  "place_host krn act tg es ip h s ms = (h', s', ms') \<Longrightarrow> h_rule h' = h_rule h \<and> h_last h' = h_last h"
  by (auto simp: place_host_def Let_def split: if_splits option.splits prod.splits sum.splits)

lemma place_hosts_loop_Cons:
  assumes "place_hosts_loop krn act tg es ((ip, h) # rest) s ms = (hs', dr, s', ms')"
  obtains h1 s1 ms1 hs1 dr1 where
    "place_host krn act tg es ip h s ms = (h1, s1, ms1)"
    "place_hosts_loop krn act tg es rest s1 ms1 = (hs1, dr1, s', ms')"
    "hs' = (ip, h1) # hs1"
    "dr = (if host_kept act es ip h then dr1 else (ip, h_rule h) # dr1)"
  using assms by (auto simp: Let_def split: prod.splits)

text \<open>The loop keeps the keys and the rules; it drops what is not kept.\<close>

definition host_key :: "ipv4 \<times> host_run \<Rightarrow> ipv4 \<times> nat" where
  "host_key e = (fst e, h_rule (snd e))"

lemma place_hosts_loop_keys:
  "place_hosts_loop krn act tg es hs s ms = (hs', dr, s', ms') \<Longrightarrow>
    map host_key hs' = map host_key hs \<and>
    dr = map host_key (filter (\<lambda>(ip, h). \<not> host_kept act es ip h) hs)"
proof (induction hs arbitrary: hs' dr s s' ms ms')
  case Nil
  then show ?case by simp
next
  case (Cons e rest)
  obtain ip h where e: "e = (ip, h)" by fastforce
  from Cons.prems [unfolded e] obtain h1 s1 ms1 hs1 dr1 where
    *: "place_host krn act tg es ip h s ms = (h1, s1, ms1)"
    "place_hosts_loop krn act tg es rest s1 ms1 = (hs1, dr1, s', ms')"
    "hs' = (ip, h1) # hs1"
    "dr = (if host_kept act es ip h then dr1 else (ip, h_rule h) # dr1)"
    by (rule place_hosts_loop_Cons)
  from Cons.IH [OF *(2)] place_host_rule [OF *(1)] *(3,4) show ?case by (simp add: e host_key_def)
qed

lemma host_key_in:
  "map host_key hs' = map host_key hs \<Longrightarrow> (ip, h') \<in> set hs' \<Longrightarrow> \<exists>h. (ip, h) \<in> set hs \<and> h_rule h = h_rule h'"
proof -
  assume m: "map host_key hs' = map host_key hs" and i: "(ip, h') \<in> set hs'"
  have "(ip, h_rule h') \<in> set (map host_key hs')" using i by (force simp: host_key_def)
  then have "(ip, h_rule h') \<in> set (map host_key hs)" by (simp only: m)
  then show ?thesis by (auto simp: host_key_def)
qed

lemma host_key_fst: "map host_key hs' = map host_key hs \<Longrightarrow> map fst hs' = map fst hs"
proof -
  assume "map host_key hs' = map host_key hs"
  then have "map fst (map host_key hs') = map fst (map host_key hs)" by (rule arg_cong)
  then show ?thesis by (simp add: host_key_def comp_def)
qed

text \<open>What the loop makes of one host, and of the kernel's table at its address.\<close>

definition host_placed ::
    "('k \<Rightarrow> route_key \<Rightarrow> u16 option) \<Rightarrow> target option list \<Rightarrow> ipv4 \<Rightarrow> host_run \<Rightarrow> host_run \<Rightarrow> 'k \<Rightarrow> bool" where
  "host_placed tbl targets ip h h' k \<longleftrightarrow>
     h_rule h' = h_rule h \<and> h_last h' = h_last h \<and>
     (h' = h \<or>
      (\<exists>t. target_at targets (h_rule h) = Some t \<and> h_placed h \<noteq> Some (target_placed t) \<and>
         h_placed h' = Some (target_placed t) \<and> tbl k (route_key (Subnet_host ip)) = Some (tg_index t)))"

lemma place_host_frame:
  assumes "kernel_ok krn tbl" "place_host krn act tg es ip h s ms = (h', s', ms')" "x \<noteq> route_key (Subnet_host ip)"
  shows "tbl (sock s') x = tbl (sock s) x"
proof -
  have "tbl (sock s2) x = tbl (sock s1) x" if "RouteSocket_set krn s1 (Subnet_host ip) i = (y, s2)" for s1 s2 i y
    using rt.set_frame [OF assms(1,3), of s1 i] that by simp
  moreover have "tbl (sock (snd (RouteSocket_delete krn s (Subnet_host ip)))) x = tbl (sock s) x"
    using rt.del_frame [OF assms(1,3)] .
  ultimately show ?thesis using assms(2)
    by (auto simp: place_host_def Let_def split: if_splits option.splits prod.splits)
qed

lemma place_host_placed:
  assumes "kernel_ok krn tbl" "place_host krn act tg es ip h s ms = (h', s', ms')"
  shows "host_placed tbl tg ip h h' (sock s')"
proof -
  have "tbl (sock s2) (route_key (Subnet_host ip)) = Some i"
    if "RouteSocket_set krn s1 (Subnet_host ip) i = (Inr out, s2)" for s1 s2 i out
    using rt.set_hit [OF assms(1) that] .
  then show ?thesis using assms(2)
    by (auto simp: place_host_def host_placed_def Let_def split: if_splits option.splits prod.splits sum.splits)
qed

lemma place_hosts_loop_frame:
  assumes "kernel_ok krn tbl"
  shows "place_hosts_loop krn act tg es hs s ms = (hs', dr, s', ms') \<Longrightarrow>
    x \<notin> (route_key \<circ> Subnet_host \<circ> fst) ` set hs \<Longrightarrow> tbl (sock s') x = tbl (sock s) x"
proof (induction hs arbitrary: hs' dr s s' ms ms')
  case Nil
  then show ?case by simp
next
  case (Cons e rest)
  obtain ip h where e: "e = (ip, h)" by fastforce
  from Cons.prems(1) [unfolded e] obtain h1 s1 ms1 hs1 dr1 where
    *: "place_host krn act tg es ip h s ms = (h1, s1, ms1)"
    "place_hosts_loop krn act tg es rest s1 ms1 = (hs1, dr1, s', ms')"
    by (rule place_hosts_loop_Cons)
  have "x \<noteq> route_key (Subnet_host ip)" using Cons.prems(2) by (simp add: e)
  with Cons.IH [OF *(2)] place_host_frame [OF assms *(1)] Cons.prems(2) show ?case by simp
qed

lemma place_hosts_loop_placed:
  assumes "kernel_ok krn tbl"
  shows "place_hosts_loop krn act tg es hs s ms = (hs', dr, s', ms') \<Longrightarrow> hm_ok hs \<Longrightarrow>
    (ip, h') \<in> set hs' \<Longrightarrow> \<exists>h. (ip, h) \<in> set hs \<and> host_placed tbl tg ip h h' (sock s')"
proof (induction hs arbitrary: hs' dr s s' ms ms')
  case Nil
  then show ?case by simp
next
  case (Cons e rest)
  obtain ip1 h where e: "e = (ip1, h)" by fastforce
  from Cons.prems(1) [unfolded e] obtain h1 s1 ms1 hs1 dr1 where
    *: "place_host krn act tg es ip1 h s ms = (h1, s1, ms1)"
    "place_hosts_loop krn act tg es rest s1 ms1 = (hs1, dr1, s', ms')"
    "hs' = (ip1, h1) # hs1"
    by (rule place_hosts_loop_Cons)
  show ?case
  proof (cases "(ip, h') \<in> set hs1")
    case True
    with Cons.IH [OF *(2)] Cons.prems(2) show ?thesis by (auto simp: e)
  next
    case False
    with Cons.prems(3) *(3) have eq: "ip = ip1" "h' = h1" by auto
    have "route_key (Subnet_host ip1) \<notin> (route_key \<circ> Subnet_host \<circ> fst) ` set rest"
      using Cons.prems(2) by (auto simp: e route_key_host image_iff)
    then have "tbl (sock s') (route_key (Subnet_host ip1)) = tbl (sock s1) (route_key (Subnet_host ip1))"
      by (rule place_hosts_loop_frame [OF assms *(2)])
    with place_host_placed [OF assms *(1)] have "host_placed tbl tg ip1 h h1 (sock s')"
      by (simp add: host_placed_def)
    with eq show ?thesis by (auto simp: e)
  qed
qed

text \<open>After \<open>place_hosts\<close>: the hosts that stay are those of rules in force with an address to route.\<close>

definition keeps_host :: "core \<Rightarrow> ipv4 \<Rightarrow> host_run \<Rightarrow> bool" where
  "keeps_host c ip h \<longleftrightarrow>
     (\<exists>x. get (cr_rules c) (h_rule h) = Some x \<and> rn_active x) \<and> routable ip (core_endpoints c)"

lemma host_kept_keeps: "host_kept (map rn_active (cr_rules c)) (core_endpoints c) ip h \<longleftrightarrow> keeps_host c ip h"
  by (auto simp: host_kept_def keeps_host_def get_def)

lemma target_at_core: "target_at (map (core_target c) [0..<length (cr_rules c)]) i = core_target c i"
  by (auto simp: target_at_def get_def core_target_def)

lemma keeps_host_rule: "h_rule h = h_rule h' \<Longrightarrow> keeps_host c ip h = keeps_host c ip h'"
  by (simp add: keeps_host_def)

lemma place_hosts_core:
  assumes "snd (place_hosts krn r) = r'" "hm_ok (cr_hosts (rv_core r))"
  obtains hs' dr s' ms' where
    "place_hosts_loop krn (map rn_active (cr_rules (rv_core r)))
       (map (core_target (rv_core r)) [0..<length (cr_rules (rv_core r))]) (core_endpoints (rv_core r))
       (cr_hosts (rv_core r)) (rv_routes r) (replicate (length (cr_rules (rv_core r))) Moves_default)
     = (hs', dr, s', ms')"
    "rv_core r' = (rv_core r)\<lparr>cr_hosts := filter (\<lambda>(ip, h). keeps_host (rv_core r) ip h) hs'\<rparr>"
    "rv_routes r' = s'" "rv_lists r' = rv_lists r"
proof -
  let ?c = "rv_core r" and ?hs = "cr_hosts (rv_core r)"
  obtain hs' dr s' ms' where l:
    "place_hosts_loop krn (map rn_active (cr_rules ?c)) (map (core_target ?c) [0..<length (cr_rules ?c)])
       (core_endpoints ?c) ?hs (rv_routes r) (replicate (length (cr_rules ?c)) Moves_default) = (hs', dr, s', ms')"
    using prod_cases4 by blast
  note k = place_hosts_loop_keys [OF l]
  have dr: "ip \<in> fst ` set dr \<longleftrightarrow> (\<exists>h. (ip, h) \<in> set ?hs \<and> \<not> keeps_host ?c ip h)" for ip
    unfolding conjunct2 [OF k] by (force simp: host_kept_keeps host_key_def)
  have "filter (\<lambda>e. fst e \<notin> fst ` set dr) hs' = filter (\<lambda>(ip, h). keeps_host ?c ip h) hs'"
  proof (rule filter_cong [OF refl])
    fix e assume e: "e \<in> set hs'"
    obtain ip h' where i: "e = (ip, h')" by fastforce
    from host_key_in [OF conjunct1 [OF k] e [unfolded i]] obtain h where
      h: "(ip, h) \<in> set ?hs" "h_rule h = h_rule h'" by blast
    have "h2 = h" if "(ip, h2) \<in> set ?hs" for h2
      using that h(1) unfolding hm_ok_map_of [OF assms(2)] by simp
    then have "ip \<in> fst ` set dr \<longleftrightarrow> \<not> keeps_host ?c ip h"
      unfolding dr using h(1) by blast
    then show "(fst e \<notin> fst ` set dr) = (case e of (ip, h) \<Rightarrow> keeps_host ?c ip h)"
      using keeps_host_rule [OF h(2), of ?c ip] by (simp add: i)
  qed
  then have "rv_core r' = ?c\<lparr>cr_hosts := filter (\<lambda>(ip, h). keeps_host ?c ip h) hs'\<rparr>" "rv_routes r' = s'"
    "rv_lists r' = rv_lists r"
    using assms(1) by (auto simp: place_hosts_def l Let_def foldl_remove)
  with l that show ?thesis by blast
qed

text \<open>The hosts a reconcile leaves, one by one.\<close>

lemma place_hosts_get:
  assumes "kernel_ok krn tbl" "hm_ok (cr_hosts (rv_core r))" "snd (place_hosts krn r) = r'"
  shows "case hm_get (cr_hosts (rv_core r)) ip of
      None \<Rightarrow> hm_get (cr_hosts (rv_core r')) ip = None
    | Some h \<Rightarrow>
        if keeps_host (rv_core r) ip h
        then \<exists>h'. hm_get (cr_hosts (rv_core r')) ip = Some h' \<and>
          h_rule h' = h_rule h \<and> h_last h' = h_last h \<and>
          (h' = h \<or> (\<exists>t. core_target (rv_core r) (h_rule h) = Some t \<and> h_placed h \<noteq> Some (target_placed t) \<and>
             h_placed h' = Some (target_placed t) \<and>
             tbl (sock (rv_routes r')) (route_key (Subnet_host ip)) = Some (tg_index t)))
        else hm_get (cr_hosts (rv_core r')) ip = None"
proof -
  obtain hs' dr s' ms' where *:
    "place_hosts_loop krn (map rn_active (cr_rules (rv_core r)))
       (map (core_target (rv_core r)) [0..<length (cr_rules (rv_core r))]) (core_endpoints (rv_core r))
       (cr_hosts (rv_core r)) (rv_routes r) (replicate (length (cr_rules (rv_core r))) Moves_default)
     = (hs', dr, s', ms')"
    "rv_core r' = (rv_core r)\<lparr>cr_hosts := filter (\<lambda>(ip, h). keeps_host (rv_core r) ip h) hs'\<rparr>"
    "rv_routes r' = s'"
    by (rule place_hosts_core [OF assms(3,2)])
  note fst_eq = host_key_fst [OF conjunct1 [OF place_hosts_loop_keys [OF *(1)]]]
  have ok': "hm_ok hs'" using assms(2) by (simp add: fst_eq)
  show ?thesis
  proof (cases "hm_get (cr_hosts (rv_core r)) ip")
    case None
    then have "ip \<notin> fst ` set hs'" using fst_eq by (metis map_of_eq_None_iff set_map)
    then have "hm_get hs' ip = None" by (simp add: map_of_eq_None_iff)
    then have "hm_get (cr_hosts (rv_core r')) ip = None"
      by (simp add: *(2) map_of_filter_ok [OF ok'])
    then show ?thesis unfolding None option.case .
  next
    case (Some h)
    then have "ip \<in> fst ` set hs'" using fst_eq by (metis map_of_eq_None_iff option.distinct(1) set_map)
    then obtain h' where h': "(ip, h') \<in> set hs'" by auto
    from place_hosts_loop_placed [OF assms(1) *(1) assms(2) h'] obtain h0 where
      h0: "(ip, h0) \<in> set (cr_hosts (rv_core r))"
        "host_placed tbl (map (core_target (rv_core r)) [0..<length (cr_rules (rv_core r))]) ip h0 h' (sock s')"
      by blast
    have "h0 = h" using h0(1) Some unfolding hm_ok_map_of [OF assms(2)] by simp
    note hp = h0(2) [unfolded this host_placed_def target_at_core]
    have g: "hm_get hs' ip = Some h'" using h' unfolding hm_ok_map_of [OF ok'] .
    have "hm_get (cr_hosts (rv_core r')) ip = (if keeps_host (rv_core r) ip h' then Some h' else None)"
      using g by (simp add: *(2) map_of_filter_ok [OF ok'])
    moreover have "keeps_host (rv_core r) ip h' = keeps_host (rv_core r) ip h"
      using hp by (intro keeps_host_rule) simp
    ultimately have "hm_get (cr_hosts (rv_core r')) ip = (if keeps_host (rv_core r) ip h then Some h' else None)"
      by simp
    then show ?thesis unfolding Some option.case *(3)
      by (cases "keeps_host (rv_core r) ip h") (simp_all only: if_True if_False, use hp in blast)
  qed
qed

section \<open>The subnets after a reconcile\<close>

lemma want_fold:
  "distinct (map fst es) \<Longrightarrow>
    map_of (fst (foldl (want_subnet T E) (w0, k0) es)) s =
      (case map_of es s of
         None \<Rightarrow> map_of w0 s
       | Some r \<Rightarrow> if list_ex (contains s) E then map_of w0 s
                   else (case target_at T r of None \<Rightarrow> map_of w0 s | Some t \<Rightarrow> Some (r, t)))"
proof (induction es arbitrary: w0 k0)
  case Nil
  then show ?case by simp
next
  case (Cons e es)
  obtain s1 r1 where e: "e = (s1, r1)" by fastforce
  obtain w1 k1 where w1: "want_subnet T E (w0, k0) e = (w1, k1)" by fastforce
  have IH: "map_of (fst (foldl (want_subnet T E) (w0, k0) (e # es))) s =
      (case map_of es s of
         None \<Rightarrow> map_of w1 s
       | Some r \<Rightarrow> if list_ex (contains s) E then map_of w1 s
                   else (case target_at T r of None \<Rightarrow> map_of w1 s | Some t \<Rightarrow> Some (r, t)))"
    using Cons.IH [of w1 k1] Cons.prems by (simp add: w1)
  have w1s: "map_of w1 s = (if s = s1 \<and> \<not> list_ex (contains s1) E
      then (case target_at T r1 of None \<Rightarrow> map_of w0 s | Some t \<Rightarrow> Some (r1, t)) else map_of w0 s)"
    using w1 by (auto simp: want_subnet_def e dict_simps split: if_splits option.splits)
  show ?case
  proof (cases "s = s1")
    case True
    then have "map_of es s = None" using Cons.prems by (auto simp: e map_of_eq_None_iff)
    with IH w1s True show ?thesis by (simp add: e)
  next
    case False
    then have "map_of w1 s = map_of w0 s" using w1s by simp
    with IH False show ?thesis unfolding e by (simp cong: option.case_cong if_cong)
  qed
qed

lemma want_fold_ok: "hm_ok w0 \<Longrightarrow> hm_ok (fst (foldl (want_subnet T E) (w0, k0) es))"
proof (induction es arbitrary: w0 k0)
  case Nil
  then show ?case by simp
next
  case (Cons e es)
  obtain w1 k1 where w1: "want_subnet T E (w0, k0) e = (w1, k1)" by fastforce
  then have "hm_ok w1" using Cons.prems
    by (auto simp: want_subnet_def hm.inv_ins split: prod.splits if_splits option.splits)
  with Cons.IH w1 show ?case by simp
qed

lemma target_at_placeable: "target_at (map (placeable c) [0..<length (cr_rules c)]) i = placeable c i"
  by (auto simp: target_at_def get_def placeable_def core_target_def)

text \<open>A subnet is wanted where the first rule in force that has it has a tunnel for it.\<close>

lemma wanted_get:
  "hm_get (fst (wanted_subnets c l)) s = Some (r, t) \<longleftrightarrow>
    hm_get (core_subnet_owners c l) s = Some r \<and> \<not> list_ex (contains s) (core_endpoints c) \<and> placeable c r = Some t"
  by (auto simp: wanted_subnets_def want_fold [OF subnet_owners_ok] target_at_placeable
      split: option.splits if_splits)

lemma wanted_ok: "hm_ok (fst (wanted_subnets c l))"
  by (simp add: wanted_subnets_def want_fold_ok)

lemma placeable_bound: "placeable c i = Some t \<Longrightarrow> i < length (cr_rules c)"
  by (auto simp: placeable_def core_target_def bind_eq_Some_conv split: if_splits)

lemma wanted_bound: "(s, r, t) \<in> set (fst (wanted_subnets c l)) \<Longrightarrow> r < length (cr_rules c)"
  using wanted_get [of c l s r t] placeable_bound by (auto simp: hm_ok_map_of [OF wanted_ok])

lemma own_subnet_keys:
  "fst ` set (foldl (own_subnet ow) m es) \<subseteq> fst ` set m \<union> fst ` set es"
proof (induction es arbitrary: m)
  case Nil
  then show ?case by simp
next
  case (Cons e es)
  obtain s n where e: "e = (s, n)" by fastforce
  have "fst ` set (own_subnet ow m e) \<subseteq> fst ` set m \<union> {fst e}"
    by (cases "hm_get ow n"; cases "hm_get m s") (auto simp: e own_subnet_def dom_update)
  with Cons.IH [of "own_subnet ow m e"] show ?case by auto
qed

lemma wanted_wf:
  assumes "lists_ok l" "s \<in> fst ` set (fst (wanted_subnets c l))"
  shows "subnet_wf s"
proof -
  obtain r t where "(s, r, t) \<in> set (fst (wanted_subnets c l))" using assms(2) by force
  then have "hm_get (core_subnet_owners c l) s = Some r"
    using wanted_get [of c l s r t] by (simp add: hm_ok_map_of [OF wanted_ok])
  then have "s \<in> fst ` set (core_subnet_owners c l)" by (force dest: map_of_SomeD)
  then have "s \<in> fst ` set (subnets l)"
    using own_subnet_keys [of "core_owners c" "[]" "subnets l"] by (auto simp: core_subnet_owners_def)
  with assms(1) show ?thesis by (auto simp: lists_ok_def)
qed

lemma prefix_mask_inj:
  assumes "unat p \<le> 32" "unat q \<le> 32" "prefix_mask p = prefix_mask q"
  shows "p = q"
proof -
  have "\<not> unat a < unat b" if "prefix_mask a = prefix_mask b" "unat b \<le> 32" for a b :: u8
  proof
    assume "unat a < unat b"
    then have "bit (prefix_mask b) (31 - unat a)" "\<not> bit (prefix_mask a) (31 - unat a)"
      using that(2) by (auto simp: bit_prefix_mask)
    with that(1) show False by simp
  qed
  with assms have "unat p = unat q" by (metis linorder_neqE_nat)
  then show ?thesis by (rule word_unat_eq_iff [THEN iffD2])
qed

lemma route_key_inj:
  "subnet_wf a \<Longrightarrow> subnet_wf b \<Longrightarrow> route_key a = route_key b \<Longrightarrow> a = b"
  by (cases a; cases b) (auto simp: route_key_def netmask_def subnet_wf_def intro: prefix_mask_inj)

text \<open>The removal of what is gone.\<close>

lemma remove_gone_map:
  "remove_gone krn want gone m s ms = (m', s', ms') \<Longrightarrow> m' = filter (\<lambda>e. fst e \<notin> fst ` set gone) m"
proof (induction gone arbitrary: m s ms)
  case Nil
  then show ?case by simp
next
  case (Cons e gone)
  obtain x i where e: "e = (x, i)" by fastforce
  from Cons.prems obtain s1 ms1 where "remove_gone krn want gone (hm_remove x m) s1 ms1 = (m', s', ms')"
    by (auto simp: e Let_def split: if_splits prod.splits sum.splits bool.splits)
  with Cons.IH have "m' = filter (\<lambda>e. fst e \<notin> fst ` set gone) (hm_remove x m)" by blast
  then show ?case by (simp add: e delete_filter)
qed

lemma remove_gone_Cons:
  assumes "remove_gone krn want ((x, i) # gone) m s ms = (m', s', ms')"
  obtains s1 ms1 where "remove_gone krn want gone (hm_remove x m) s1 ms1 = (m', s', ms')"
    "s1 = (if hm_get want x = None then snd (RouteSocket_delete krn s x) else s)"
  using assms by (auto simp: Let_def split: if_splits prod.splits sum.splits bool.splits)

text \<open>The placing of what is wanted.\<close>

lemma place_subnet_effect:
  "place_subnet krn (x, i, t) m s ms = (m1, s1, ms1) \<Longrightarrow>
    (hm_get m x \<noteq> None \<and> m1 = m \<and> s1 = s) \<or>
    (hm_get m x = None \<and> (\<exists>res. RouteSocket_set krn s x (tg_index t) = (res, s1) \<and>
       m1 = (case res of Inr _ \<Rightarrow> hm_insert x (i, target_placed t) m | Inl _ \<Rightarrow> m)))"
  by (cases "hm_get m x") (auto simp: place_subnet_def split: prod.splits)

lemma place_wanted_Cons:
  assumes "place_wanted krn (e # want) m s ms = (m', s', ms')"
  obtains m1 s1 ms1 where "place_subnet krn e m s ms = (m1, s1, ms1)"
    "place_wanted krn want m1 s1 ms1 = (m', s', ms')"
  using assms by (auto split: prod.splits)

lemma place_subnet_frame:
  assumes "kernel_ok krn tbl" "place_subnet krn (x, i, t) m s ms = (m1, s1, ms1)" "k \<noteq> route_key x"
  shows "tbl (sock s1) k = tbl (sock s) k"
  using place_subnet_effect [OF assms(2)] rt.set_frame [OF assms(1,3), of s "tg_index t"] by auto

lemma place_subnet_other:
  "place_subnet krn (y, i, t) m s ms = (m1, s1, ms1) \<Longrightarrow> x \<noteq> y \<Longrightarrow> hm_get m1 x = hm_get m x"
  by (drule place_subnet_effect, erule disjE, simp, elim conjE exE)
    (rename_tac res, case_tac res, simp_all add: dict_simps)

lemma place_wanted_frame:
  assumes "kernel_ok krn tbl"
  shows "place_wanted krn want m s ms = (m', s', ms') \<Longrightarrow> k \<notin> (route_key \<circ> fst) ` set want \<Longrightarrow>
    tbl (sock s') k = tbl (sock s) k"
proof (induction want arbitrary: m s ms)
  case Nil
  then show ?case by simp
next
  case (Cons e want)
  obtain x i t where e: "e = (x, i, t)" by (cases e) auto
  from Cons.prems(1) [unfolded e] obtain m1 s1 ms1 where
    *: "place_subnet krn (x, i, t) m s ms = (m1, s1, ms1)" "place_wanted krn want m1 s1 ms1 = (m', s', ms')"
    by (rule place_wanted_Cons)
  have "k \<noteq> route_key x" using Cons.prems(2) by (simp add: e)
  from place_subnet_frame [OF assms *(1) this]
  Cons.IH [OF *(2)] Cons.prems(2) show ?case by simp
qed

lemma place_wanted_other:
  "place_wanted krn want m s ms = (m', s', ms') \<Longrightarrow> x \<notin> fst ` set want \<Longrightarrow> hm_get m' x = hm_get m x"
proof (induction want arbitrary: m s ms)
  case Nil
  then show ?case by simp
next
  case (Cons e want)
  obtain y i t where e: "e = (y, i, t)" by (cases e) auto
  from Cons.prems(1) [unfolded e] obtain m1 s1 ms1 where
    *: "place_subnet krn (y, i, t) m s ms = (m1, s1, ms1)" "place_wanted krn want m1 s1 ms1 = (m', s', ms')"
    by (rule place_wanted_Cons)
  have "x \<noteq> y" using Cons.prems(2) by (simp add: e)
  from place_subnet_other [OF *(1) this] Cons.IH [OF *(2)] Cons.prems(2) show ?case by simp
qed

lemma place_wanted_get:
  assumes "kernel_ok krn tbl"
  shows "place_wanted krn want m s ms = (m', s', ms') \<Longrightarrow> distinct (map fst want) \<Longrightarrow>
    inj_on route_key (fst ` set want) \<Longrightarrow> (x, i, t) \<in> set want \<Longrightarrow>
    (case hm_get m x of
       Some v \<Rightarrow> hm_get m' x = Some v
     | None \<Rightarrow> hm_get m' x = None \<or>
         hm_get m' x = Some (i, target_placed t) \<and> tbl (sock s') (route_key x) = Some (tg_index t))"
proof (induction want arbitrary: m s ms)
  case Nil
  then show ?case by simp
next
  case (Cons e want)
  obtain y j u where e: "e = (y, j, u)" by (cases e) auto
  from Cons.prems(1) [unfolded e] obtain m1 s1 ms1 where
    *: "place_subnet krn (y, j, u) m s ms = (m1, s1, ms1)" "place_wanted krn want m1 s1 ms1 = (m', s', ms')"
    by (rule place_wanted_Cons)
  show ?case
  proof (cases "(x, i, t) \<in> set want")
    case True
    then have "x \<noteq> y" using Cons.prems(2) by (force simp: e)
    from place_subnet_other [OF *(1) this] have "hm_get m1 x = hm_get m x" .
    moreover have "inj_on route_key (fst ` set want)"
      using Cons.prems(3) by (rule inj_on_subset) auto
    ultimately show ?thesis using Cons.IH [OF *(2) _ _ True] Cons.prems(2) by simp
  next
    case False
    with Cons.prems(4) have eq: "x = y" "i = j" "t = u" by (auto simp: e)
    have out: "y \<notin> fst ` set want" using Cons.prems(2) by (simp add: e)
    have "route_key y \<notin> route_key ` fst ` set want"
    proof
      assume "route_key y \<in> route_key ` fst ` set want"
      then obtain z where z: "z \<in> fst ` set want" "route_key y = route_key z" by auto
      with Cons.prems(3) have "y = z" by (auto simp: e dest: inj_onD)
      with out z show False by simp
    qed
    then have k: "tbl (sock s') (route_key y) = tbl (sock s1) (route_key y)"
      by (intro place_wanted_frame [OF assms *(2)]) (simp add: image_comp)
    have g: "hm_get m' y = hm_get m1 y" by (rule place_wanted_other [OF *(2) out])
    from place_subnet_effect [OF *(1)] show ?thesis
    proof
      assume "hm_get m y \<noteq> None \<and> m1 = m \<and> s1 = s"
      with g eq show ?thesis by auto
    next
      assume "hm_get m y = None \<and> (\<exists>res. RouteSocket_set krn s y (tg_index u) = (res, s1) \<and>
        m1 = (case res of Inr _ \<Rightarrow> hm_insert y (j, target_placed u) m | Inl _ \<Rightarrow> m))"
      then obtain res where r: "hm_get m y = None" "RouteSocket_set krn s y (tg_index u) = (res, s1)"
        "m1 = (case res of Inr _ \<Rightarrow> hm_insert y (j, target_placed u) m | Inl _ \<Rightarrow> m)" by blast
      show ?thesis
      proof (cases res)
        case (Inl err)
        with r g eq show ?thesis by simp
      next
        case (Inr out)
        with rt.set_hit [OF assms r(2) [unfolded Inr]] r g k eq show ?thesis
          by (simp add: dict_simps)
      qed
    qed
  qed
qed

text \<open>
  After \<open>place_subnets\<close>: nothing but what is wanted is in place, where it is wanted; what was
  newly placed has its route.
\<close>

lemma place_subnets_core:
  assumes "place_subnets krn l r = (ms, r')"
  obtains gone s1 ms1 m1 m' s' where
    "gone = map (\<lambda>(s, x, _). (s, x)) (filter (subnet_gone (fst (wanted_subnets (rv_core r) l))) (cr_subnets (rv_core r)))"
    "remove_gone krn (fst (wanted_subnets (rv_core r) l)) gone (cr_subnets (rv_core r)) (rv_routes r)
       (replicate (length (cr_rules (rv_core r))) Moves_default) = (m1, s1, ms1)"
    "place_wanted krn (fst (wanted_subnets (rv_core r) l)) m1 s1 ms1 = (m', s', ms)"
    "r' = r\<lparr>rv_core := (rv_core r)\<lparr>cr_unrouted := snd (wanted_subnets (rv_core r) l), cr_subnets := m'\<rparr>,
       rv_routes := s'\<rparr>"
  using assms by (auto simp: place_subnets_def Let_def split: prod.splits)

text \<open>What the removal leaves is wanted as it is.\<close>

lemma kept_subnets:
  assumes "hm_ok m"
  shows "hm_get (filter (\<lambda>e. fst e \<notin> fst ` set (map (\<lambda>(s, x, _). (s, x)) (filter (subnet_gone want) m))) m) s =
    (case hm_get m s of None \<Rightarrow> None | Some v \<Rightarrow> if subnet_gone want (s, v) then None else Some v)"
proof -
  have "s \<in> fst ` set (map (\<lambda>(s, x, _). (s, x)) (filter (subnet_gone want) m)) \<longleftrightarrow> subnet_gone want (s, v)"
    if "hm_get m s = Some v" for v
  proof -
    have "s \<in> fst ` set (map (\<lambda>(s, x, _). (s, x)) (filter (subnet_gone want) m)) \<longleftrightarrow>
        (\<exists>u. (s, u) \<in> set m \<and> subnet_gone want (s, u))" by (force simp: image_iff)
    also have "\<dots> \<longleftrightarrow> subnet_gone want (s, v)" using that by (simp add: hm_ok_map_of [OF assms])
    finally show ?thesis .
  qed
  then show ?thesis by (simp add: map_of_filter_ok [OF assms] split: option.split)
qed

lemma place_subnets_get:
  assumes "kernel_ok krn tbl" "lists_ok l" "hm_ok (cr_subnets (rv_core r))" "place_subnets krn l r = (ms, r')"
  shows "case hm_get (fst (wanted_subnets (rv_core r) l)) s of
      None \<Rightarrow> hm_get (cr_subnets (rv_core r')) s = None
    | Some (i, t) \<Rightarrow>
        hm_get (cr_subnets (rv_core r')) s = None \<or>
        hm_get (cr_subnets (rv_core r')) s = Some (i, target_placed t) \<and>
        (hm_get (cr_subnets (rv_core r)) s = Some (i, target_placed t) \<or>
         tbl (sock (rv_routes r')) (route_key s) = Some (tg_index t))"
proof -
  let ?want = "fst (wanted_subnets (rv_core r) l)"
  obtain gone s1 ms1 m1 m' s' where
    g: "gone = map (\<lambda>(s, x, _). (s, x)) (filter (subnet_gone ?want) (cr_subnets (rv_core r)))" and
    rg: "remove_gone krn ?want gone (cr_subnets (rv_core r)) (rv_routes r)
       (replicate (length (cr_rules (rv_core r))) Moves_default) = (m1, s1, ms1)" and
    pw: "place_wanted krn ?want m1 s1 ms1 = (m', s', ms)" and
    r': "r' = r\<lparr>rv_core := (rv_core r)\<lparr>cr_unrouted := snd (wanted_subnets (rv_core r) l), cr_subnets := m'\<rparr>,
       rv_routes := s'\<rparr>"
    by (rule place_subnets_core [OF assms(4)])
  have m1: "hm_get m1 s = (case hm_get (cr_subnets (rv_core r)) s of None \<Rightarrow> None
      | Some v \<Rightarrow> if subnet_gone ?want (s, v) then None else Some v)"
    unfolding remove_gone_map [OF rg] g by (rule kept_subnets [OF assms(3)])
  have inj: "inj_on route_key (fst ` set ?want)"
    by (intro inj_onI route_key_inj wanted_wf [OF assms(2)]) assumption+
  show ?thesis
  proof (cases "hm_get ?want s")
    case None
    then have "hm_get m' s = hm_get m1 s"
      by (intro place_wanted_other [OF pw]) (simp add: map_of_eq_None_iff)
    moreover have "hm_get m1 s = None"
      using m1 None by (auto simp: subnet_gone_def split: option.splits prod.splits)
    ultimately show ?thesis by (simp add: None r')
  next
    case (Some v)
    obtain i t where v: "v = (i, t)" by fastforce
    then have "(s, i, t) \<in> set ?want" using Some by (simp add: map_of_SomeD)
    from place_wanted_get [OF assms(1) pw wanted_ok inj this] m1 show ?thesis
      by (auto simp: Some v r' subnet_gone_def split: option.splits if_splits prod.splits)
  qed
qed

end
