(* ===== verification/Resolver_Run.thy ===== *)
theory Resolver_Run
  imports Resolver_Inv
begin

text \<open>
  What every run of the resolver keeps: the invariant of its state, and that with a kernel that
  fails no request every route in it is on the books, so that taking the routes back leaves none
  behind. Also that expiry is exact and that the tables of the kill switch are the hosts and
  subnets by their rules.
\<close>

section \<open>The invariant of the state\<close>

definition resolver_ok :: "'k resolver \<Rightarrow> bool" where
  "resolver_ok r \<longleftrightarrow>
     (let c = rv_core r; n = length (cr_rules c) in
      hm_ok (cr_hosts c) \<and> hm_ok (cr_subnets c) \<and>
      (\<forall>e\<in>set (cr_hosts c). h_rule (snd e) < n) \<and>
      (\<forall>e\<in>set (cr_subnets c). fst (snd e) < n) \<and>
      (cr_stopped c \<longrightarrow> (\<forall>e\<in>set (cr_hosts c). \<not> is_placed (snd e)) \<and> cr_subnets c = []) \<and>
      (\<forall>x\<in>set (cr_rules c). \<forall>t. rn_current x = Some t \<longrightarrow> t \<in> set (rn_tunnels x)) \<and>
      lists_ok (rv_lists r))"

lemma resolver_ok_cong:
  assumes "cr_hosts (rv_core r') = cr_hosts (rv_core r)" "cr_subnets (rv_core r') = cr_subnets (rv_core r)"
    "cr_rules (rv_core r') = cr_rules (rv_core r)" "cr_stopped (rv_core r') = cr_stopped (rv_core r)"
    "rv_lists r' = rv_lists r"
  shows "resolver_ok r' = resolver_ok r"
  unfolding resolver_ok_def Let_def assms ..

lemma resolver_ok_hosts:
  assumes "resolver_ok r" "rv_core r' = (rv_core r)\<lparr>cr_hosts := h\<rparr>" "rv_lists r' = rv_lists r"
    "hm_ok h" "\<forall>e\<in>set h. h_rule (snd e) < length (cr_rules (rv_core r))"
    "cr_stopped (rv_core r) \<Longrightarrow> \<forall>e\<in>set h. \<not> is_placed (snd e)"
  shows "resolver_ok r'"
  using assms by (simp add: resolver_ok_def Let_def)

lemma ok_set_lists: "resolver_ok r \<Longrightarrow> lists_ok l \<Longrightarrow> resolver_ok (set_lists l r)"
  by (simp add: resolver_ok_def set_lists_def Let_def)

lemma set_country_core:
  "rv_core (snd (set_country country r)) =
    (rv_core r)\<lparr>cr_rules := map (\<lambda>x. x\<lparr>rn_active := holds (rn_when x) country\<rparr>) (cr_rules (rv_core r))\<rparr>"
  "rv_lists (snd (set_country country r)) = rv_lists r"
  "rv_routes (snd (set_country country r)) = rv_routes r"
  by (simp_all add: set_country_def Let_def)

lemma ok_set_country: "resolver_ok r \<Longrightarrow> resolver_ok (snd (set_country country r))"
  by (auto simp: resolver_ok_def Let_def set_country_core)

lemma ok_set_link: "resolver_ok r \<Longrightarrow> resolver_ok (set_link link s r)"
  by (subst resolver_ok_cong [of _ r]) (simp_all add: set_link_def)

lemma core_target_bound: "core_target c i = Some t \<Longrightarrow> i < length (cr_rules c)"
  by (auto simp: core_target_def bind_eq_Some_conv)

lemma ok_route_host:
  assumes "resolver_ok r" "route_host krn now ip rule r = (x, r')"
  shows "resolver_ok r'"
proof -
  let ?c = "rv_core r" and ?n = "length (cr_rules (rv_core r))"
  have h: "hm_ok (cr_hosts ?c)" "\<forall>e\<in>set (cr_hosts ?c). h_rule (snd e) < ?n"
    using assms(1) by (simp_all add: resolver_ok_def Let_def)
  have ins: "resolver_ok r'" if "\<not> cr_stopped ?c" "rv_core r' = ?c\<lparr>cr_hosts := hm_insert ip v (cr_hosts ?c)\<rparr>"
    "rv_lists r' = rv_lists r" "h_rule v < ?n" for v
  proof (rule resolver_ok_hosts [OF assms(1) that(2,3)])
    show "hm_ok (hm_insert ip v (cr_hosts ?c))" using h(1) by (rule hm.inv_ins)
    show "\<forall>e\<in>set (hm_insert ip v (cr_hosts ?c)). h_rule (snd e) < ?n"
      using h(2) by (rule hm_insert_ball) (simp add: that(4))
  qed (simp add: that(1))
  have keep: "resolver_ok r'" if "rv_core r' = ?c" "rv_lists r' = rv_lists r"
    using assms(1) that by (subst resolver_ok_cong [of _ r]) simp_all
  have old: "h_rule v < ?n" if "hm_get (cr_hosts ?c) ip = Some v" for v
    using h(2) that by (force dest: map_of_SomeD)
  show ?thesis
  proof (cases "cr_stopped ?c")
    case True
    with assms(2) have "r' = r" by (simp add: route_host_def Let_def)
    with assms(1) show ?thesis by simp
  next
    case False
    from assms(2) False consider
        (same) v where "hm_get (cr_hosts ?c) ip = Some v"
          "rv_core r' = ?c\<lparr>cr_hosts := hm_insert ip (v\<lparr>h_last := now\<rparr>) (cr_hosts ?c)\<rparr>" "rv_lists r' = rv_lists r"
      | (new) t where "core_target ?c rule = Some t" "rv_core r' = ?c\<lparr>cr_hosts := hm_insert ip
          \<lparr>h_rule = rule, h_last = now, h_placed = Some (target_placed t)\<rparr> (cr_hosts ?c)\<rparr>" "rv_lists r' = rv_lists r"
      | (err) "rv_core r' = ?c" "rv_lists r' = rv_lists r"
      by (auto simp: route_host_def Let_def split: if_splits option.splits prod.splits sum.splits)
    then show ?thesis
    proof cases
      case same
      with ins [OF False same(2,3)] old show ?thesis by simp
    next
      case new
      with ins [OF False new(2,3)] core_target_bound show ?thesis by simp
    next
      case err
      with keep show ?thesis by blast
    qed
  qed
qed

lemma hm_or_insert_ball: "\<forall>e\<in>set m. P e \<Longrightarrow> P (k, v) \<Longrightarrow> \<forall>e\<in>set (hm_or_insert k v m). P e"
  using hm_insert_ball [of m P k v] by (simp add: hm_or_insert_def)

lemma load_host_ok: "hm_ok m \<Longrightarrow> hm_ok (load_host n m e)"
  by (auto simp: load_host_def hm_or_insert_ok split: prod.split)

lemma load_host_ball:
  assumes "\<forall>e\<in>set m. P e" "\<And>ip i u. i < n \<Longrightarrow> P (ip, \<lparr>h_rule = i, h_last = u, h_placed = None\<rparr>)"
  shows "\<forall>x\<in>set (load_host n m e). P x"
proof -
  obtain ip i u where e: "e = (ip, i, u)" by (cases e) auto
  show ?thesis
  proof (cases "i < n")
    case True
    with hm_or_insert_ball [OF assms(1) assms(2) [OF True]] show ?thesis by (simp add: load_host_def e)
  next
    case False
    with assms(1) show ?thesis by (simp add: load_host_def e)
  qed
qed

lemma load_hosts_ok: "hm_ok m \<Longrightarrow> hm_ok (foldl (load_host n) m hosts)"
  by (induction hosts arbitrary: m) (simp_all add: load_host_ok)

lemma load_hosts_ball:
  assumes "\<And>ip i u. i < n \<Longrightarrow> P (ip, \<lparr>h_rule = i, h_last = u, h_placed = None\<rparr>)"
  shows "\<forall>e\<in>set m. P e \<Longrightarrow> \<forall>x\<in>set (foldl (load_host n) m hosts). P x"
proof (induction hosts arbitrary: m)
  case (Cons e hosts)
  from Cons.IH [OF load_host_ball [OF Cons.prems assms]] show ?case by simp
qed simp

lemma ok_load_hosts:
  assumes "resolver_ok r"
  shows "resolver_ok (load_hosts hosts r)"
proof (rule resolver_ok_hosts [OF assms, of "load_hosts hosts r"])
  show "rv_core (load_hosts hosts r) = (rv_core r)\<lparr>cr_hosts := cr_hosts (rv_core (load_hosts hosts r))\<rparr>"
    by (simp add: load_hosts_def Let_def)
  note ok = assms [unfolded resolver_ok_def Let_def]
  show "hm_ok (cr_hosts (rv_core (load_hosts hosts r)))"
    using ok by (simp add: load_hosts_def Let_def load_hosts_ok)
  show "\<forall>e\<in>set (cr_hosts (rv_core (load_hosts hosts r))). h_rule (snd e) < length (cr_rules (rv_core r))"
    unfolding load_hosts_def Let_def using ok by (simp, intro load_hosts_ball) auto
  show "cr_stopped (rv_core r) \<Longrightarrow> \<forall>e\<in>set (cr_hosts (rv_core (load_hosts hosts r))). \<not> is_placed (snd e)"
    unfolding load_hosts_def Let_def using ok by (simp, intro load_hosts_ball) auto
qed (simp add: load_hosts_def Let_def)

text \<open>Reconciling.\<close>

lemma pick_tunnels_core:
  "cr_hosts (pick_tunnels now c) = cr_hosts c" "cr_subnets (pick_tunnels now c) = cr_subnets c"
  "cr_stopped (pick_tunnels now c) = cr_stopped c" "cr_links (pick_tunnels now c) = cr_links c"
  "length (cr_rules (pick_tunnels now c)) = length (cr_rules c)"
  by (simp_all add: pick_tunnels_def Let_def)

lemma ok_pick_tunnels:
  assumes "resolver_ok r"
  shows "resolver_ok (r\<lparr>rv_core := pick_tunnels now (rv_core r)\<rparr>)"
proof -
  have "t \<in> set (rn_tunnels x)"
    if "x \<in> set (cr_rules (rv_core r))" "rn_active x"
      "pick (rn_tunnels x) (core_states (rv_core r)) (rn_current x) now = Some t" for x t
    using pick_has_iface [OF that(3)] that(1) assms by (auto simp: resolver_ok_def Let_def)
  then have "\<forall>x\<in>set (cr_rules (pick_tunnels now (rv_core r))). \<forall>t. rn_current x = Some t \<longrightarrow> t \<in> set (rn_tunnels x)"
    by (auto simp: pick_tunnels_def Let_def split: if_splits)
  with assms show ?thesis by (simp add: resolver_ok_def Let_def pick_tunnels_core)
qed

lemma ok_place_hosts:
  assumes "resolver_ok r" "\<not> cr_stopped (rv_core r)"
  shows "resolver_ok (snd (place_hosts krn r)) \<and> \<not> cr_stopped (rv_core (snd (place_hosts krn r)))"
proof -
  have hok: "hm_ok (cr_hosts (rv_core r))" using assms(1) by (simp add: resolver_ok_def Let_def)
  obtain hs' dr s' ms' where *:
    "place_hosts_loop krn (map rn_active (cr_rules (rv_core r)))
       (map (core_target (rv_core r)) [0..<length (cr_rules (rv_core r))]) (core_endpoints (rv_core r))
       (cr_hosts (rv_core r)) (rv_routes r) (replicate (length (cr_rules (rv_core r))) Moves_default)
     = (hs', dr, s', ms')"
    "rv_core (snd (place_hosts krn r)) = (rv_core r)\<lparr>cr_hosts := filter (\<lambda>(ip, h). keeps_host (rv_core r) ip h) hs'\<rparr>"
    "rv_lists (snd (place_hosts krn r)) = rv_lists r"
    by (rule place_hosts_core [OF refl hok])
  have "hm_ok hs'" using hok host_key_fst [OF conjunct1 [OF place_hosts_loop_keys [OF *(1)]]] by simp
  then have "hm_ok (filter (\<lambda>(ip, h). keeps_host (rv_core r) ip h) hs')" by (rule hm_filter_ok)
  moreover have "\<forall>e\<in>set (filter (\<lambda>(ip, h). keeps_host (rv_core r) ip h) hs'). h_rule (snd e) < length (cr_rules (rv_core r))"
    by (auto simp: keeps_host_def)
  ultimately have "resolver_ok (snd (place_hosts krn r))"
    using assms(2) by (intro resolver_ok_hosts [OF assms(1) *(2,3)]) auto
  with *(2) assms(2) show ?thesis by simp
qed

lemma place_subnet_ok:
  assumes "place_subnet krn (x, i, t) m s ms = (m1, s1, ms1)" "hm_ok m" "\<forall>e\<in>set m. P e" "P (x, i, target_placed t)"
  shows "hm_ok m1 \<and> (\<forall>e\<in>set m1. P e)"
proof -
  have "m1 = m \<or> m1 = hm_insert x (i, target_placed t) m"
  proof -
    consider "m1 = m" | res where "RouteSocket_set krn s x (tg_index t) = (res, s1)"
      "m1 = (case res of Inr _ \<Rightarrow> hm_insert x (i, target_placed t) m | Inl _ \<Rightarrow> m)"
      using place_subnet_effect [OF assms(1)] by blast
    then show ?thesis by cases (simp, case_tac res, simp_all)
  qed
  with assms(2-4) show ?thesis using hm.inv_ins hm_insert_ball [OF assms(3,4)] by metis
qed

lemma place_wanted_ok:
  "place_wanted krn want m s ms = (m', s', ms') \<Longrightarrow> hm_ok m \<Longrightarrow> \<forall>e\<in>set m. P e \<Longrightarrow>
    \<forall>(x, i, t)\<in>set want. P (x, i, target_placed t) \<Longrightarrow> hm_ok m' \<and> (\<forall>e\<in>set m'. P e)"
proof (induction want arbitrary: m s ms)
  case Nil
  then show ?case by simp
next
  case (Cons e want)
  obtain x i t where e: "e = (x, i, t)" by (cases e) auto
  from Cons.prems(1) obtain m1 s1 ms1 where
    *: "place_subnet krn e m s ms = (m1, s1, ms1)" "place_wanted krn want m1 s1 ms1 = (m', s', ms')"
    by (rule place_wanted_Cons)
  have "P (x, i, target_placed t)" using Cons.prems(4) by (simp add: e)
  from place_subnet_ok [OF *(1) [unfolded e] Cons.prems(2,3) this] have 1: "hm_ok m1" "\<forall>e\<in>set m1. P e" by auto
  show ?case using Cons.prems(4) by (intro Cons.IH [OF *(2) 1]) simp
qed

lemma ok_place_subnets:
  assumes "resolver_ok r" "\<not> cr_stopped (rv_core r)" "place_subnets krn l r = (ms, r')"
  shows "resolver_ok r'"
proof -
  let ?want = "fst (wanted_subnets (rv_core r) l)" and ?n = "length (cr_rules (rv_core r))"
  obtain gone s1 ms1 m1 m' s' where
    rg: "remove_gone krn ?want gone (cr_subnets (rv_core r)) (rv_routes r)
       (replicate (length (cr_rules (rv_core r))) Moves_default) = (m1, s1, ms1)" and
    pw: "place_wanted krn ?want m1 s1 ms1 = (m', s', ms)" and
    r': "r' = r\<lparr>rv_core := (rv_core r)\<lparr>cr_unrouted := snd (wanted_subnets (rv_core r) l), cr_subnets := m'\<rparr>,
       rv_routes := s'\<rparr>"
    by (rule place_subnets_core [OF assms(3)])
  have m1: "hm_ok m1" "\<forall>e\<in>set m1. fst (snd e) < ?n"
    using assms(1) by (auto simp: remove_gone_map [OF rg] resolver_ok_def Let_def hm_filter_ok)
  have "\<forall>(x, i, t)\<in>set ?want. fst (snd (x, i, target_placed t)) < ?n"
    by (auto dest: wanted_bound)
  from place_wanted_ok [OF pw m1 this] have "hm_ok m'" "\<forall>e\<in>set m'. fst (snd e) < ?n" by auto
  with assms(1,2) show ?thesis by (simp add: r' resolver_ok_def Let_def)
qed

lemma ok_reconcile:
  assumes "resolver_ok r"
  shows "resolver_ok (reconcile krn now r)"
proof (cases "cr_stopped (rv_core r)")
  case True
  with assms show ?thesis by (simp add: reconcile_def)
next
  case False
  let ?r1 = "r\<lparr>rv_core := pick_tunnels now (rv_core r)\<rparr>"
  have r1: "resolver_ok ?r1" by (rule ok_pick_tunnels [OF assms])
  have s1: "\<not> cr_stopped (rv_core ?r1)" using False by (simp add: pick_tunnels_core)
  obtain ms r' where r': "place_subnets krn (rv_lists r) (snd (place_hosts krn ?r1)) = (ms, r')" by fastforce
  from ok_place_subnets [OF conjunct1 [OF ok_place_hosts [OF r1 s1]] conjunct2 [OF ok_place_hosts [OF r1 s1]] r']
  show ?thesis using False r' by (simp add: reconcile_def Let_def)
qed

lemma remove_all_core:
  "snd (remove_all krn r) = r\<lparr>rv_core := (rv_core r)\<lparr>cr_stopped := True,
      cr_hosts := map (\<lambda>(ip, h). (ip, h\<lparr>h_placed := None\<rparr>)) (cr_hosts (rv_core r)), cr_subnets := []\<rparr>,
    rv_routes := snd (delete_routes krn (placed_routes (rv_core r)) (rv_routes r))\<rparr>"
  by (simp add: remove_all_def Let_def split: prod.split)

lemma keys_unplaced: "map fst (map (\<lambda>(ip, h). (ip, h\<lparr>h_placed := None\<rparr>)) m) = map fst m"
  by (induction m) auto

lemma ok_remove_all: "resolver_ok r \<Longrightarrow> resolver_ok (snd (remove_all krn r))"
  by (auto simp: resolver_ok_def Let_def remove_all_core keys_unplaced simp del: map_map)

lemma filter_not_gone:
  assumes "hm_ok m"
  shows "filter (\<lambda>e. fst e \<notin> fst ` set (filter p m)) m = filter (\<lambda>e. \<not> p e) m"
proof (rule filter_cong [OF refl])
  fix e assume e: "e \<in> set m"
  have "f = e" if "f \<in> set m" "fst f = fst e" for f
    using that e assms by (auto simp: distinct_map dest: inj_onD)
  with e show "(fst e \<notin> fst ` set (filter p m)) = (\<not> p e)" by auto
qed

lemma expire_hosts_core:
  assumes "expire_hosts krn now window r = (gone, r')" "hm_ok (cr_hosts (rv_core r))"
  shows "gone = filter (expired now window) (cr_hosts (rv_core r)) \<and>
    rv_core r' = (rv_core r)\<lparr>cr_hosts := filter (\<lambda>e. \<not> expired now window e) (cr_hosts (rv_core r))\<rparr> \<and>
    rv_lists r' = rv_lists r \<and>
    rv_routes r' = snd (delete_routes krn (List.map_filter
      (\<lambda>(ip, h). if is_placed h then Some (Subnet_host ip) else None) gone) (rv_routes r))"
proof -
  let ?g = "filter (expired now window) (cr_hosts (rv_core r))"
  have f: "foldl (\<lambda>m (ip, _). hm_remove ip m) (cr_hosts (rv_core r)) ?g =
      filter (\<lambda>e. \<not> expired now window e) (cr_hosts (rv_core r))"
    unfolding foldl_remove by (rule filter_not_gone [OF assms(2)])
  show ?thesis
  proof (cases "?g = []")
    case True
    with assms(1) f show ?thesis
      by (auto simp: expire_hosts_def Let_def List.map_filter_simps)
  next
    case False
    with assms(1) f show ?thesis
      by (simp only: expire_hosts_def Let_def if_False) auto
  qed
qed

lemma ok_expire_hosts:
  assumes "resolver_ok r"
  shows "resolver_ok (snd (expire_hosts krn now window r))"
proof -
  obtain gone r' where e: "expire_hosts krn now window r = (gone, r')" by fastforce
  have ok: "hm_ok (cr_hosts (rv_core r))" using assms by (simp add: resolver_ok_def Let_def)
  from expire_hosts_core [OF e ok] assms show ?thesis
    by (auto simp: e resolver_ok_def Let_def hm_filter_ok)
qed

theorem ok_step: "rv_step krn r r' \<Longrightarrow> resolver_ok r \<Longrightarrow> resolver_ok r'"
proof (induction rule: rv_step.induct)
  case (step_lists l r)
  then show ?case by (simp add: ok_set_lists)
next
  case (step_route r now ip rule)
  then show ?case using ok_route_host by (metis prod.collapse)
qed (auto simp: ok_set_country ok_set_link ok_load_hosts ok_reconcile ok_remove_all ok_expire_hosts
    set_network_def set_upstream_def set_use_fakeip_def set_owner_def
    intro: resolver_ok_cong [THEN iffD2, rotated -1])

lemma ok_run: "rv_run krn r r' \<Longrightarrow> resolver_ok r \<Longrightarrow> resolver_ok r'"
  by (induction rule: rtranclp_induct) (auto intro: ok_step)

lemma ok_new: "lists_ok l \<Longrightarrow> resolver_ok (Resolver_new l rules links dns routes pf limit)"
  by (simp add: resolver_ok_def Resolver_new_def)

section \<open>Every route is on the books\<close>

definition on_books :: "'k resolver \<Rightarrow> route_key \<Rightarrow> bool" where
  "on_books r k \<longleftrightarrow>
     (\<exists>ip h. (ip, h) \<in> set (cr_hosts (rv_core r)) \<and> is_placed h \<and> k = route_key (Subnet_host ip)) \<or>
     k \<in> route_key ` fst ` set (cr_subnets (rv_core r))"

text \<open>\<open>T\<close> holds the routes that were there before.\<close>

definition accounted :: "('k \<Rightarrow> route_key \<Rightarrow> u16 option) \<Rightarrow> route_key set \<Rightarrow> 'k resolver \<Rightarrow> bool" where
  "accounted tbl T r \<longleftrightarrow> (\<forall>k. tbl (sock (rv_routes r)) k \<noteq> None \<longrightarrow> k \<in> T \<or> on_books r k)"

lemma accountedD:
  "accounted tbl T r \<Longrightarrow> tbl (sock (rv_routes r)) k \<noteq> None \<Longrightarrow> k \<in> T \<or> on_books r k"
  unfolding accounted_def by blast

lemma accountedI:
  "(\<And>k. tbl (sock (rv_routes r)) k \<noteq> None \<Longrightarrow> k \<in> T \<or> on_books r k) \<Longrightarrow> accounted tbl T r"
  unfolding accounted_def by blast

lemma accounted_mono:
  assumes "accounted tbl T r" "tbl (sock (rv_routes r')) = tbl (sock (rv_routes r))"
    "\<And>k. on_books r k \<Longrightarrow> on_books r' k"
  shows "accounted tbl T r'"
  using assms by (auto simp: accounted_def)

lemma delete_routes_table:
  assumes "kernel_obeys krn tbl"
  shows "tbl (sock (snd (delete_routes krn ds s))) k =
    (if k \<in> route_key ` set ds then None else tbl (sock s) k)"
proof (induction ds arbitrary: s)
  case Nil
  then show ?case by simp
next
  case (Cons d ds)
  obtain res s1 where d: "RouteSocket_delete krn s d = (res, s1)" by fastforce
  have "snd (delete_routes krn (d # ds) s) = snd (delete_routes krn ds s1)"
    by (simp add: d split: prod.split)
  with Cons.IH [of s1] conjunct2 [OF delete_obeys [OF assms d]] show ?case by simp
qed

lemma remove_gone_table:
  assumes "kernel_obeys krn tbl"
  shows "remove_gone krn want gone m s ms = (m', s', ms') \<Longrightarrow>
    tbl (sock s') k = (if \<exists>x\<in>fst ` set gone. hm_get want x = None \<and> k = route_key x then None else tbl (sock s) k)"
proof (induction gone arbitrary: m s ms)
  case Nil
  then show ?case by simp
next
  case (Cons e gone)
  obtain x i where e: "e = (x, i)" by fastforce
  from Cons.prems [unfolded e] obtain s1 ms1 where
    r: "remove_gone krn want gone (hm_remove x m) s1 ms1 = (m', s', ms')" and
    s1: "s1 = (if hm_get want x = None then snd (RouteSocket_delete krn s x) else s)"
    by (rule remove_gone_Cons)
  obtain res s2 where d: "RouteSocket_delete krn s x = (res, s2)" by fastforce
  have "tbl (sock s1) k = (if hm_get want x = None \<and> k = route_key x then None else tbl (sock s) k)"
    using s1 conjunct2 [OF delete_obeys [OF assms d]] by (simp add: d)
  with Cons.IH [OF r] show ?case by (auto simp: e)
qed

lemma place_wanted_dom:
  assumes "kernel_obeys krn tbl"
  shows "place_wanted krn want m s ms = (m', s', ms') \<Longrightarrow> fst ` set m \<union> fst ` set want \<subseteq> fst ` set m'"
proof (induction want arbitrary: m s ms)
  case Nil
  then show ?case by simp
next
  case (Cons e want)
  obtain x i t where e: "e = (x, i, t)" by (cases e) auto
  from Cons.prems obtain m1 s1 ms1 where
    *: "place_subnet krn e m s ms = (m1, s1, ms1)" "place_wanted krn want m1 s1 ms1 = (m', s', ms')"
    by (rule place_wanted_Cons)
  from place_subnet_effect [OF *(1) [unfolded e]] have "insert x (fst ` set m) \<subseteq> fst ` set m1"
  proof
    assume "hm_get m x \<noteq> None \<and> m1 = m \<and> s1 = s"
    then show ?thesis by (auto simp: map_of_eq_None_iff)
  next
    assume "hm_get m x = None \<and> (\<exists>res. RouteSocket_set krn s x (tg_index t) = (res, s1) \<and>
      m1 = (case res of Inr _ \<Rightarrow> hm_insert x (i, target_placed t) m | Inl _ \<Rightarrow> m))"
    then obtain res where r: "RouteSocket_set krn s x (tg_index t) = (res, s1)"
      "m1 = (case res of Inr _ \<Rightarrow> hm_insert x (i, target_placed t) m | Inl _ \<Rightarrow> m)" by blast
    with conjunct1 [OF set_obeys [OF assms r(1)]] have "m1 = hm_insert x (i, target_placed t) m" by auto
    then show ?thesis by (simp add: dom_update)
  qed
  with Cons.IH [OF *(2)] show ?case by (simp add: e) blast
qed

lemma place_subnets_all:
  assumes "kernel_obeys krn tbl" "lists_ok l" "place_subnets krn l r = (ms, r')"
    "hm_get (core_subnet_owners (rv_core r) l) s = Some i"
    "\<not> list_ex (contains s) (core_endpoints (rv_core r))" "placeable (rv_core r) i = Some t"
  shows "hm_get (cr_subnets (rv_core r')) s \<noteq> None"
proof -
  obtain gone s1 ms1 m1 m' s' where
    w: "place_wanted krn (fst (wanted_subnets (rv_core r) l)) m1 s1 ms1 = (m', s', ms)" and
    r': "r' = r\<lparr>rv_core := (rv_core r)\<lparr>cr_unrouted := snd (wanted_subnets (rv_core r) l), cr_subnets := m'\<rparr>,
       rv_routes := s'\<rparr>"
    using place_subnets_core [OF assms(3)] by metis
  have "hm_get (fst (wanted_subnets (rv_core r) l)) s = Some (i, t)"
    using assms(4-6) by (simp add: wanted_get)
  then have "s \<in> fst ` set (fst (wanted_subnets (rv_core r) l))"
    by (force dest: map_of_SomeD)
  then have "s \<in> fst ` set m'" using place_wanted_dom [OF assms(1) w] by blast
  with r' show ?thesis by (simp add: map_of_eq_None_iff)
qed

lemma place_hosts_loop_entry:
  assumes "kernel_ok krn tbl"
  shows "place_hosts_loop krn act tg es hs s ms = (hs', dr, s', ms') \<Longrightarrow> hm_ok hs \<Longrightarrow> (ip, h) \<in> set hs \<Longrightarrow>
    \<exists>s0 ms0 h' s1 ms1. place_host krn act tg es ip h s0 ms0 = (h', s1, ms1) \<and> (ip, h') \<in> set hs' \<and>
      tbl (sock s0) (route_key (Subnet_host ip)) = tbl (sock s) (route_key (Subnet_host ip)) \<and>
      tbl (sock s') (route_key (Subnet_host ip)) = tbl (sock s1) (route_key (Subnet_host ip))"
proof (induction hs arbitrary: hs' dr s s' ms ms')
  case Nil
  then show ?case by simp
next
  case (Cons e rest)
  obtain ip1 h1 where e: "e = (ip1, h1)" by fastforce
  from Cons.prems(1) [unfolded e] obtain h2 s1 ms1 hs1 dr1 where
    *: "place_host krn act tg es ip1 h1 s ms = (h2, s1, ms1)"
    "place_hosts_loop krn act tg es rest s1 ms1 = (hs1, dr1, s', ms')"
    "hs' = (ip1, h2) # hs1"
    by (rule place_hosts_loop_Cons)
  show ?case
  proof (cases "(ip, h) \<in> set rest")
    case True
    then have "ip \<noteq> ip1" using Cons.prems(2) by (force simp: e)
    then have "tbl (sock s1) (route_key (Subnet_host ip)) = tbl (sock s) (route_key (Subnet_host ip))"
      by (intro place_host_frame [OF assms *(1)]) (simp add: route_key_host)
    with Cons.IH [OF *(2) _ True] Cons.prems(2) *(3) show ?thesis by (simp add: e) blast
  next
    case False
    with Cons.prems(3) have eq: "ip = ip1" "h = h1" by (auto simp: e)
    have "route_key (Subnet_host ip1) \<notin> (route_key \<circ> Subnet_host \<circ> fst) ` set rest"
      using Cons.prems(2) by (auto simp: e route_key_host image_iff)
    then have "tbl (sock s') (route_key (Subnet_host ip1)) = tbl (sock s1) (route_key (Subnet_host ip1))"
      by (rule place_hosts_loop_frame [OF assms *(2)])
    with *(1,3) show ?thesis unfolding eq by (metis list.set_intros(1))
  qed
qed

lemma place_host_books:
  assumes "kernel_obeys krn tbl" "place_host krn act tg es ip h s ms = (h', s', ms')"
    "tbl (sock s') (route_key (Subnet_host ip)) \<noteq> None"
  shows "host_kept act es ip h' \<and> is_placed h' \<or>
    tbl (sock s) (route_key (Subnet_host ip)) \<noteq> None \<and> \<not> is_placed h"
proof (cases "host_kept act es ip h")
  case False
  obtain b s1 where d: "RouteSocket_delete krn s (Subnet_host ip) = (b, s1)" by fastforce
  from False assms(2,3) conjunct2 [OF delete_obeys [OF assms(1) d]] show ?thesis
    by (auto simp: place_host_def d split: if_splits)
next
  case True
  have k: "host_kept act es ip h'"
    using True place_host_rule [OF assms(2)] by (simp add: host_kept_def)
  show ?thesis
  proof (cases "\<not> is_placed h")
    case False
    have "is_placed h'"
      using assms(2) True False
      by (auto simp: place_host_def Let_def split: if_splits option.splits prod.splits sum.splits)
    with k show ?thesis by blast
  next
    case None: True
    show ?thesis
    proof (cases "\<not> is_placed h'")
      case False
      with k show ?thesis by blast
    next
      case None': True
      have "s' = s"
      proof (cases "target_at tg (h_rule h)")
        case None
        with assms(2) True show ?thesis by (auto simp: place_host_def)
      next
        case (Some t)
        obtain res s1 where r: "RouteSocket_set krn s (Subnet_host ip) (tg_index t) = (res, s1)" by fastforce
        have "h_placed h \<noteq> Some (target_placed t)" using None unfolding is_placed_def by (metis option.distinct(1))
        with conjunct1 [OF set_obeys [OF assms(1) r]] assms(2) True Some None' show ?thesis
          by (auto simp: place_host_def r)
      qed
      with assms(3) None show ?thesis by simp
    qed
  qed
qed

lemma accounted_place_hosts:
  assumes "kernel_obeys krn tbl" "hm_ok (cr_hosts (rv_core r))" "accounted tbl T r"
  shows "accounted tbl T (snd (place_hosts krn r))"
proof -
  let ?r' = "snd (place_hosts krn r)"
  obtain hs' dr s' ms' where *:
    "place_hosts_loop krn (map rn_active (cr_rules (rv_core r)))
       (map (core_target (rv_core r)) [0..<length (cr_rules (rv_core r))]) (core_endpoints (rv_core r))
       (cr_hosts (rv_core r)) (rv_routes r) (replicate (length (cr_rules (rv_core r))) Moves_default)
     = (hs', dr, s', ms')"
    "rv_core ?r' = (rv_core r)\<lparr>cr_hosts := filter (\<lambda>(ip, h). keeps_host (rv_core r) ip h) hs'\<rparr>"
    "rv_routes ?r' = s'"
    by (rule place_hosts_core [OF refl assms(2)])
  note ok = obeys_ok [OF assms(1)]
  have "k \<in> T \<or> on_books ?r' k" if k: "tbl (sock s') k \<noteq> None" for k
  proof (cases "k \<in> (route_key \<circ> Subnet_host \<circ> fst) ` set (cr_hosts (rv_core r))")
    case False
    then have "tbl (sock (rv_routes r)) k \<noteq> None"
      using place_hosts_loop_frame [OF ok *(1) False] k by simp
    with assms(3) have "k \<in> T \<or> on_books r k" by (rule accountedD)
    moreover have "\<not> (\<exists>ip h. (ip, h) \<in> set (cr_hosts (rv_core r)) \<and> k = route_key (Subnet_host ip))"
      using False by force
    ultimately show ?thesis by (auto simp: on_books_def *(2))
  next
    case True
    then obtain ip h where h: "(ip, h) \<in> set (cr_hosts (rv_core r))" "k = route_key (Subnet_host ip)" by auto
    from place_hosts_loop_entry [OF ok *(1) assms(2) h(1)] obtain s0 ms0 h' s1 ms1 where
      p: "place_host krn (map rn_active (cr_rules (rv_core r)))
        (map (core_target (rv_core r)) [0..<length (cr_rules (rv_core r))]) (core_endpoints (rv_core r)) ip h s0 ms0
        = (h', s1, ms1)" and
      h': "(ip, h') \<in> set hs'" and
      t: "tbl (sock s0) k = tbl (sock (rv_routes r)) k" "tbl (sock s') k = tbl (sock s1) k"
      unfolding h(2) by blast
    from place_host_books [OF assms(1) p] k t(2) h(2)
    have "keeps_host (rv_core r) ip h' \<and> is_placed h' \<or> tbl (sock s0) k \<noteq> None \<and> \<not> is_placed h"
      by (simp add: host_kept_keeps)
    then show ?thesis
    proof
      assume "keeps_host (rv_core r) ip h' \<and> is_placed h'"
      with h' h(2) show ?thesis by (auto simp: on_books_def *(2))
    next
      assume b: "tbl (sock s0) k \<noteq> None \<and> \<not> is_placed h"
      then have "k \<in> T \<or> on_books r k" using accountedD [OF assms(3)] t(1) by simp
      moreover have "h2 = h" if "(ip2, h2) \<in> set (cr_hosts (rv_core r))" "k = route_key (Subnet_host ip2)" for ip2 h2
        using that h unfolding hm_ok_map_of [OF assms(2)] by (simp add: route_key_host)
      ultimately have "k \<in> T \<or> k \<in> route_key ` fst ` set (cr_subnets (rv_core r))"
        using b by (auto simp: on_books_def)
      then show ?thesis by (auto simp: on_books_def *(2))
    qed
  qed
  then show ?thesis by (intro accountedI) (simp only: *(3))
qed

lemma accounted_place_subnets:
  assumes "kernel_obeys krn tbl" "hm_ok (cr_subnets (rv_core r))" "accounted tbl T r"
    "place_subnets krn l r = (ms, r')"
  shows "accounted tbl T r'"
proof -
  let ?want = "fst (wanted_subnets (rv_core r) l)"
  obtain gone s1 ms1 m1 m' s' where
    g: "gone = map (\<lambda>(s, x, _). (s, x)) (filter (subnet_gone ?want) (cr_subnets (rv_core r)))" and
    rg: "remove_gone krn ?want gone (cr_subnets (rv_core r)) (rv_routes r)
       (replicate (length (cr_rules (rv_core r))) Moves_default) = (m1, s1, ms1)" and
    pw: "place_wanted krn ?want m1 s1 ms1 = (m', s', ms)" and
    r': "r' = r\<lparr>rv_core := (rv_core r)\<lparr>cr_unrouted := snd (wanted_subnets (rv_core r) l), cr_subnets := m'\<rparr>,
       rv_routes := s'\<rparr>"
    by (rule place_subnets_core [OF assms(4)])
  have "k \<in> T \<or> on_books r' k" if k: "tbl (sock s') k \<noteq> None" for k
  proof (cases "k \<in> route_key ` fst ` set ?want")
    case True
    with place_wanted_dom [OF assms(1) pw] have "k \<in> route_key ` fst ` set m'" by blast
    then show ?thesis by (simp add: on_books_def r')
  next
    case False
    then have "k \<notin> (route_key \<circ> fst) ` set ?want" by (simp add: image_comp)
    from place_wanted_frame [OF obeys_ok [OF assms(1)] pw this] k have "tbl (sock s1) k \<noteq> None" by simp
    with remove_gone_table [OF assms(1) rg, of k] have
      t: "tbl (sock (rv_routes r)) k \<noteq> None" "\<not> (\<exists>x\<in>fst ` set gone. hm_get ?want x = None \<and> k = route_key x)"
      by (auto split: if_splits)
    have "k \<notin> route_key ` fst ` set (cr_subnets (rv_core r))"
    proof
      assume "k \<in> route_key ` fst ` set (cr_subnets (rv_core r))"
      then obtain x v where x: "(x, v) \<in> set (cr_subnets (rv_core r))" "k = route_key x" by auto
      have w: "hm_get ?want x = None" using False x(2) by (auto simp: map_of_eq_None_iff)
      then have "subnet_gone ?want (x, v)" by (cases v) (simp add: subnet_gone_def)
      with x(1) have "(\<lambda>(s, x, _). (s, x)) (x, v) \<in> set gone" unfolding g set_map by (intro imageI) simp
      then have "x \<in> fst ` set gone" by (cases v) force
      with w x(2) t(2) show False by blast
    qed
    with accountedD [OF assms(3) t(1)] have "k \<in> T \<or>
        (\<exists>ip h. (ip, h) \<in> set (cr_hosts (rv_core r)) \<and> is_placed h \<and> k = route_key (Subnet_host ip))"
      unfolding on_books_def by blast
    then show ?thesis by (auto simp: on_books_def r')
  qed
  then show ?thesis by (intro accountedI) (simp add: r')
qed

text \<open>The other steps.\<close>

lemma on_books_hosts:
  assumes "rv_core r' = (rv_core r)\<lparr>cr_hosts := h\<rparr>"
    "\<And>ip v. (ip, v) \<in> set (cr_hosts (rv_core r)) \<Longrightarrow> is_placed v \<Longrightarrow> \<exists>v'. (ip, v') \<in> set h \<and> is_placed v'"
  shows "on_books r k \<Longrightarrow> on_books r' k"
proof -
  assume "on_books r k"
  then consider ip v where "(ip, v) \<in> set (cr_hosts (rv_core r))" "is_placed v" "k = route_key (Subnet_host ip)"
    | "k \<in> route_key ` fst ` set (cr_subnets (rv_core r))"
    unfolding on_books_def by blast
  then show ?thesis
  proof cases
    case 1
    from assms(2) [OF 1(1,2)] 1(3) show ?thesis unfolding on_books_def assms(1) by auto
  next
    case 2
    then show ?thesis unfolding on_books_def assms(1) by simp
  qed
qed

lemma accounted_same:
  assumes "accounted tbl T r" "rv_routes r' = rv_routes r" "cr_hosts (rv_core r') = cr_hosts (rv_core r)"
    "cr_subnets (rv_core r') = cr_subnets (rv_core r)"
  shows "accounted tbl T r'"
  using assms(1) unfolding accounted_def on_books_def assms(2-4) .

lemma insert_keeps_placed:
  assumes "hm_ok m" "is_placed v \<or> hm_get m ip = None \<or> (\<exists>w. hm_get m ip = Some w \<and> h_placed v = h_placed w)"
    "(ip', u) \<in> set m" "is_placed u"
  shows "\<exists>v'. (ip', v') \<in> set (hm_insert ip v m) \<and> is_placed v'"
proof (cases "ip' = ip")
  case True
  have "hm_get m ip = Some u" using assms(3) unfolding hm_ok_map_of [OF assms(1)] True .
  with assms(2,4) have "is_placed v" by (auto simp: is_placed_def)
  moreover have "(ip, v) \<in> set (hm_insert ip v m)" by (rule map_of_SomeD) (simp add: dict_simps)
  ultimately show ?thesis using True by blast
next
  case False
  have "hm_get m ip' = Some u" using assms(3) unfolding hm_ok_map_of [OF assms(1)] .
  then have "(ip', u) \<in> set (hm_insert ip v m)" using False by (intro map_of_SomeD) (simp add: dict_simps)
  with assms(4) show ?thesis by blast
qed

lemma accounted_route_host:
  assumes "kernel_obeys krn tbl" "hm_ok (cr_hosts (rv_core r))" "accounted tbl T r"
    "route_host krn now ip rule r = (x, r')"
  shows "accounted tbl T r'"
proof -
  let ?c = "rv_core r"
  from assms(4) consider
      (keep) "r' = r"
    | (same) v where "hm_get (cr_hosts ?c) ip = Some v"
        "rv_core r' = ?c\<lparr>cr_hosts := hm_insert ip (v\<lparr>h_last := now\<rparr>) (cr_hosts ?c)\<rparr>" "rv_routes r' = rv_routes r"
    | (new) t :: target and s res where "RouteSocket_set krn (rv_routes r) (Subnet_host ip) (tg_index t) = (res, s)" "rv_routes r' = s"
        "\<exists>v. is_placed v \<and> rv_core r' = ?c\<lparr>cr_hosts := hm_insert ip v (cr_hosts ?c)\<rparr>"
    | (err) t :: target and s e where "RouteSocket_set krn (rv_routes r) (Subnet_host ip) (tg_index t) = (Inl e, s)"
  proof (cases "cr_stopped ?c")
    case True
    with assms(4) keep show ?thesis by (simp add: route_host_def Let_def)
  next
    case False
    let ?own = "case hm_get (cr_hosts ?c) ip of
        Some h \<Rightarrow> if h_rule h < rule \<and> core_carries ?c (h_rule h) then Some h else None | None \<Rightarrow> None"
    show ?thesis
    proof (cases ?own)
      case (Some v)
      then have "hm_get (cr_hosts ?c) ip = Some v" by (auto split: option.splits if_splits)
      with Some False assms(4) same show ?thesis by (auto simp: route_host_def Let_def)
    next
      case None
      show ?thesis
      proof (cases "core_target ?c rule")
        case t: None
        with None False assms(4) keep show ?thesis by (simp add: route_host_def Let_def)
      next
        case t: (Some t)
        obtain res s where s: "RouteSocket_set krn (rv_routes r) (Subnet_host ip) (tg_index t) = (res, s)"
          by fastforce
        show ?thesis
        proof (cases res)
          case (Inl e)
          from s [unfolded this] show ?thesis by (rule err)
        next
          case (Inr out)
          have "rv_routes r' = s" "rv_core r' = ?c\<lparr>cr_hosts := hm_insert ip
              \<lparr>h_rule = rule, h_last = now, h_placed = Some (target_placed t)\<rparr> (cr_hosts ?c)\<rparr>"
            using assms(4) None False t s Inr by (simp_all add: route_host_def Let_def) auto
          moreover from this(2) have "\<exists>v. is_placed v \<and> rv_core r' = ?c\<lparr>cr_hosts := hm_insert ip v (cr_hosts ?c)\<rparr>"
            by (intro exI [of _ "\<lparr>h_rule = rule, h_last = now, h_placed = Some (target_placed t)\<rparr>"]) simp
          ultimately show ?thesis by (intro new [OF s])
        qed
      qed
    qed
  qed
  then show ?thesis
  proof cases
    case keep
    with assms(3) show ?thesis by simp
  next
    case same
    show ?thesis
    proof (rule accounted_mono [OF assms(3)])
      show "tbl (sock (rv_routes r')) = tbl (sock (rv_routes r))" by (simp add: same(3))
      show "on_books r k \<Longrightarrow> on_books r' k" for k
        by (rule on_books_hosts [OF same(2)]) (rule insert_keeps_placed [OF assms(2)], auto simp: same(1))
    qed
  next
    case new
    then obtain v where v: "is_placed v" "rv_core r' = ?c\<lparr>cr_hosts := hm_insert ip v (cr_hosts ?c)\<rparr>" by blast
    show ?thesis
    proof (rule accountedI)
      fix k assume k: "tbl (sock (rv_routes r')) k \<noteq> None"
      show "k \<in> T \<or> on_books r' k"
      proof (cases "k = route_key (Subnet_host ip)")
        case True
        have "(ip, v) \<in> set (hm_insert ip v (cr_hosts ?c))" by (rule map_of_SomeD) (simp add: dict_simps)
        with v True show ?thesis unfolding on_books_def by auto
      next
        case False
        with k conjunct2 [OF set_obeys [OF assms(1) new(1)]] new(2)
        have "tbl (sock (rv_routes r)) k \<noteq> None" by simp
        with accountedD [OF assms(3)] have "k \<in> T \<or> on_books r k" by blast
        moreover have "on_books r k \<Longrightarrow> on_books r' k"
          by (rule on_books_hosts [OF v(2)]) (rule insert_keeps_placed [OF assms(2)], simp_all add: v(1))
        ultimately show ?thesis by blast
      qed
    qed
  next
    case err
    with conjunct1 [OF set_obeys [OF assms(1) err]] show ?thesis by simp
  qed
qed

lemma hm_or_insert_keeps: "hm_ok m \<Longrightarrow> e \<in> set m \<Longrightarrow> e \<in> set (hm_or_insert k v m)"
proof (cases e)
  case (Pair a b)
  assume "hm_ok m" "e \<in> set m"
  then have "hm_get m a = Some b" using Pair by simp
  then have "hm_get (hm_or_insert k v m) a = Some b" by (auto simp: dict_simps)
  then show ?thesis unfolding Pair by (rule map_of_SomeD)
qed

lemma load_hosts_keeps: "hm_ok m \<Longrightarrow> e \<in> set m \<Longrightarrow> e \<in> set (foldl (load_host n) m hosts)"
proof (induction hosts arbitrary: m)
  case (Cons x hosts)
  have "e \<in> set (load_host n m x)"
    using hm_or_insert_keeps [OF Cons.prems] Cons.prems(2) by (cases x) (simp add: load_host_def)
  with Cons.IH [OF load_host_ok [OF Cons.prems(1)]] show ?case by simp
qed simp

lemma accounted_load_hosts:
  assumes "hm_ok (cr_hosts (rv_core r))" "accounted tbl T r"
  shows "accounted tbl T (load_hosts hosts r)"
proof (rule accounted_mono [OF assms(2)])
  show "tbl (sock (rv_routes (load_hosts hosts r))) = tbl (sock (rv_routes r))"
    by (simp add: load_hosts_def Let_def)
  have c: "rv_core (load_hosts hosts r) =
      (rv_core r)\<lparr>cr_hosts := foldl (load_host (length (cr_rules (rv_core r)))) (cr_hosts (rv_core r)) hosts\<rparr>"
    by (simp add: load_hosts_def Let_def)
  show "on_books r k \<Longrightarrow> on_books (load_hosts hosts r) k" for k
    by (rule on_books_hosts [OF c]) (blast intro: load_hosts_keeps [OF assms(1)])
qed

lemma accounted_reconcile:
  assumes "kernel_obeys krn tbl" "resolver_ok r" "accounted tbl T r"
  shows "accounted tbl T (reconcile krn now r)"
proof (cases "cr_stopped (rv_core r)")
  case True
  with assms(3) show ?thesis by (simp add: reconcile_def)
next
  case False
  let ?r1 = "r\<lparr>rv_core := pick_tunnels now (rv_core r)\<rparr>"
  have ok1: "resolver_ok ?r1" by (rule ok_pick_tunnels [OF assms(2)])
  have a1: "accounted tbl T ?r1"
    by (rule accounted_same [OF assms(3)]) (simp_all add: pick_tunnels_core)
  have s1: "\<not> cr_stopped (rv_core ?r1)" using False by (simp add: pick_tunnels_core)
  have a2: "accounted tbl T (snd (place_hosts krn ?r1))"
    using ok1 by (intro accounted_place_hosts [OF assms(1) _ a1]) (simp add: resolver_ok_def Let_def)
  have ok2: "resolver_ok (snd (place_hosts krn ?r1))" using ok_place_hosts [OF ok1 s1] by blast
  obtain ms r' where r': "place_subnets krn (rv_lists r) (snd (place_hosts krn ?r1)) = (ms, r')" by fastforce
  have "accounted tbl T r'"
    using ok2 by (intro accounted_place_subnets [OF assms(1) _ a2 r']) (simp add: resolver_ok_def Let_def)
  then show ?thesis using False r' by (simp add: reconcile_def Let_def)
qed

lemma host_routes_set:
  "x \<in> set (List.map_filter (\<lambda>(ip, h). if is_placed h then Some (Subnet_host ip) else None) m) \<longleftrightarrow>
    (\<exists>ip h. (ip, h) \<in> set m \<and> is_placed h \<and> x = Subnet_host ip)"
  by (force simp: in_map_filter split: if_splits)

lemma host_routes_keys:
  "k \<in> route_key ` set (List.map_filter (\<lambda>(ip, h). if is_placed h then Some (Subnet_host ip) else None) m) \<longleftrightarrow>
    (\<exists>ip h. (ip, h) \<in> set m \<and> is_placed h \<and> k = route_key (Subnet_host ip))"
  unfolding image_iff Bex_def host_routes_set by blast

lemma accounted_remove_all:
  assumes "kernel_obeys krn tbl" "accounted tbl T r"
  shows "tbl (sock (rv_routes (snd (remove_all krn r)))) k \<noteq> None \<Longrightarrow> k \<in> T"
proof -
  assume k: "tbl (sock (rv_routes (snd (remove_all krn r)))) k \<noteq> None"
  then have "tbl (sock (rv_routes r)) k \<noteq> None" "k \<notin> route_key ` set (placed_routes (rv_core r))"
    by (simp_all add: remove_all_core delete_routes_table [OF assms(1)] split: if_splits)
  moreover have "on_books r k \<longleftrightarrow> k \<in> route_key ` set (placed_routes (rv_core r))"
    unfolding on_books_def placed_routes_def set_append image_Un Un_iff host_routes_keys by simp
  ultimately show "k \<in> T" using accountedD [OF assms(2)] by blast
qed

lemma accounted_expire:
  assumes "kernel_obeys krn tbl" "hm_ok (cr_hosts (rv_core r))" "accounted tbl T r"
    "expire_hosts krn unix window r = (gone, r')"
  shows "accounted tbl T r'"
proof (rule accountedI)
  note e = expire_hosts_core [OF assms(4,2)]
  fix k assume k: "tbl (sock (rv_routes r')) k \<noteq> None"
  let ?ds = "List.map_filter (\<lambda>(ip, h). if is_placed h then Some (Subnet_host ip) else None) gone"
  have t: "tbl (sock (rv_routes r)) k \<noteq> None" "k \<notin> route_key ` set ?ds"
    using k e by (simp_all add: delete_routes_table [OF assms(1)] split: if_splits)
  from accountedD [OF assms(3) t(1)] have "k \<in> T \<or> on_books r k" .
  then show "k \<in> T \<or> on_books r' k"
  proof
    assume "on_books r k"
    then consider ip v where "(ip, v) \<in> set (cr_hosts (rv_core r))" "is_placed v" "k = route_key (Subnet_host ip)"
      | "k \<in> route_key ` fst ` set (cr_subnets (rv_core r))"
      unfolding on_books_def by blast
    then show ?thesis
    proof cases
      case 1
      have "(ip, v) \<notin> set gone" using t(2) 1 unfolding host_routes_keys by blast
      with 1 e have "(ip, v) \<in> set (cr_hosts (rv_core r'))" by auto
      with 1 show ?thesis unfolding on_books_def by blast
    next
      case 2
      with e show ?thesis unfolding on_books_def by simp
    qed
  qed blast
qed

theorem accounted_step:
  assumes "kernel_obeys krn tbl"
  shows "rv_step krn r r' \<Longrightarrow> resolver_ok r \<Longrightarrow> accounted tbl T r \<Longrightarrow> accounted tbl T r'"
proof (induction rule: rv_step.induct)
  case (step_route r now ip rule)
  obtain x r1 where x: "route_host krn now ip rule r = (x, r1)" by fastforce
  have "hm_ok (cr_hosts (rv_core r))" using step_route(1) by (simp add: resolver_ok_def Let_def)
  from accounted_route_host [OF assms this step_route(2) x] x show ?case by simp
next
  case (step_load hosts r)
  then show ?case by (intro accounted_load_hosts) (simp_all add: resolver_ok_def Let_def)
next
  case (step_reconcile now r)
  then show ?case by (intro accounted_reconcile [OF assms])
next
  case (step_remove_all r)
  show ?case
    by (rule accountedI) (use accounted_remove_all [OF assms step_remove_all(2)] in blast)
next
  case (step_expire r unix window)
  obtain x r1 where x: "expire_hosts krn unix window r = (x, r1)" by fastforce
  have "hm_ok (cr_hosts (rv_core r))" using step_expire(1) by (simp add: resolver_ok_def Let_def)
  from accounted_expire [OF assms this step_expire(2) x] x show ?case by simp
next
  case (step_country country r)
  then show ?case
    by (intro accounted_same [OF step_country(2)]) (simp_all add: set_country_core)
qed (erule accounted_same; simp add: set_lists_def set_network_def set_upstream_def set_use_fakeip_def
    set_owner_def set_link_def)+

lemma accounted_run:
  assumes "kernel_obeys krn tbl"
  shows "rv_run krn r r' \<Longrightarrow> resolver_ok r \<Longrightarrow> accounted tbl T r \<Longrightarrow> accounted tbl T r'"
  by (induction rule: rtranclp_induct) (auto intro: accounted_step [OF assms] ok_run)

end
