(* ===== verification/Kill_Switch.thy ===== *)
theory Kill_Switch
  imports Resolver_Run
begin

text \<open>
  The kill switch as a whole: the tables are the hosts by their rules and the subnets by their
  owners, the shape lists the tunnels of the rules in force, and under the ruleset loaded from both
  what a rule in force holds leaves through a tunnel or not at all. Also what a stop leaves: a
  resolver that took its routes back never touches the kernel again.
\<close>

section \<open>The tables\<close>

lemma push_fold_length [simp]:
  "length (foldl (\<lambda>t (a, b). modify_nth (g a b) (\<lambda>x. x @ [f a b]) t) t0 es) = length t0"
  by (induction es arbitrary: t0) (auto split: prod.split)

lemma push_fold_nth:
  "i < length t0 \<Longrightarrow>
    foldl (\<lambda>t (a, b). modify_nth (g a b) (\<lambda>x. x @ [f a b]) t) t0 es ! i =
      t0 ! i @ map (\<lambda>(a, b). f a b) (filter (\<lambda>(a, b). g a b = i) es)"
proof (induction es arbitrary: t0)
  case Nil
  then show ?case by simp
next
  case (Cons e es)
  obtain a b where e: "e = (a, b)" by fastforce
  have "modify_nth (g a b) (\<lambda>x. x @ [f a b]) t0 ! i = t0 ! i @ (if g a b = i then [f a b] else [])"
    using Cons.prems by (auto simp: modify_nth_def nth_list_update)
  with Cons.IH [of "modify_nth (g a b) (\<lambda>x. x @ [f a b]) t0"] Cons.prems show ?case by (simp add: e)
qed

lemma tables_hosts:
  assumes "i < length (cr_rules (rv_core r))"
  shows "nth_or_empty (tb_hosts (resolver_tables r)) i =
    sort (map (\<lambda>(ip, h). ip) (filter (\<lambda>(ip, h). h_rule h = i) (cr_hosts (rv_core r))))"
  using assms
  by (simp add: resolver_tables_def nth_or_empty_def Let_def get_def push_fold_nth
      [where g = "\<lambda>_ h. h_rule h" and f = "\<lambda>ip _. ip"]
      push_fold_length [where g = "\<lambda>_ h. h_rule h" and f = "\<lambda>ip _. ip"])

lemma tables_nets:
  assumes "i < length (cr_rules (rv_core r))"
  shows "nth_or_empty (tb_nets (resolver_tables r)) i =
    sort_key (\<lambda>s. (sn_addr s, sn_prefix s))
      (map (\<lambda>(s, n). s) (filter (\<lambda>(s, n). n = i) (core_subnet_owners (rv_core r) (rv_lists r))))"
  using assms
  by (simp add: resolver_tables_def nth_or_empty_def Let_def get_def push_fold_nth
      [where g = "\<lambda>_ n. n" and f = "\<lambda>s _. s"] push_fold_length [where g = "\<lambda>_ n. n" and f = "\<lambda>s _. s"])

lemma in_host_table:
  assumes "resolver_ok r" "i < length (cr_rules (rv_core r))"
  shows "ip \<in> set (nth_or_empty (tb_hosts (resolver_tables r)) i) \<longleftrightarrow>
    (\<exists>h. hm_get (cr_hosts (rv_core r)) ip = Some h \<and> h_rule h = i)"
proof -
  have ok: "hm_ok (cr_hosts (rv_core r))" using assms(1) by (simp add: resolver_ok_def Let_def)
  have "ip \<in> set (nth_or_empty (tb_hosts (resolver_tables r)) i) \<longleftrightarrow>
      (\<exists>h. (ip, h) \<in> set (cr_hosts (rv_core r)) \<and> h_rule h = i)"
    unfolding tables_hosts [OF assms(2)] by (force simp: image_iff)
  then show ?thesis unfolding hm_ok_map_of [OF ok] .
qed

lemma in_net_table:
  assumes "i < length (cr_rules (rv_core r))"
  shows "s \<in> set (nth_or_empty (tb_nets (resolver_tables r)) i) \<longleftrightarrow>
    hm_get (core_subnet_owners (rv_core r) (rv_lists r)) s = Some i"
proof -
  have "s \<in> set (nth_or_empty (tb_nets (resolver_tables r)) i) \<longleftrightarrow>
      (s, i) \<in> set (core_subnet_owners (rv_core r) (rv_lists r))"
    unfolding tables_nets [OF assms] by (force simp: image_iff)
  then show ?thesis unfolding hm_ok_map_of [OF subnet_owners_ok] .
qed

section \<open>The shape\<close>

text \<open>The interfaces of a rule's tunnels.\<close>

definition rule_ifaces :: "core \<Rightarrow> rule_run \<Rightarrow> string list" where
  "rule_ifaces c x =
     List.map_filter (\<lambda>t. Option.bind (get (cr_links c) t) (\<lambda>l. map_option if_name (ls_iface (snd l)))) (rn_tunnels x)"

lemma rules_on_iff: "(i, ts) \<in> set (rules_on s) \<longleftrightarrow> get (sh_rules s) i = Some (Some ts)"
proof
  assume "(i, ts) \<in> set (rules_on s)"
  then show "get (sh_rules s) i = Some (Some ts)"
    by (auto simp: rules_on_def in_map_filter in_set_enumerate_eq)
next
  assume "get (sh_rules s) i = Some (Some ts)"
  then have "(i, Some ts) \<in> set (enumerate 0 (sh_rules s))"
    by (simp add: in_set_enumerate_eq)
  then show "(i, ts) \<in> set (rules_on s)"
    unfolding rules_on_def in_map_filter by (rule bexI [rotated]) simp
qed

lemma rules_on_resolver:
  "(i, ts) \<in> set (rules_on (resolver_shape r)) \<longleftrightarrow>
    (\<exists>x. get (cr_rules (rv_core r)) i = Some x \<and> rn_active x \<and> ts = rule_ifaces (rv_core r) x)"
  by (auto simp: rules_on_iff resolver_shape_def Let_def rule_ifaces_def split: if_splits)

section \<open>What leaves\<close>

text \<open>A rule in force holds an address: a host of it, or in a subnet it owns.\<close>

definition rule_in_force :: "'k resolver \<Rightarrow> nat \<Rightarrow> bool" where
  "rule_in_force r i \<longleftrightarrow> (\<exists>x. get (cr_rules (rv_core r)) i = Some x \<and> rn_active x)"

definition host_of_rule :: "'k resolver \<Rightarrow> nat \<Rightarrow> ipv4 \<Rightarrow> bool" where
  "host_of_rule r i ip \<longleftrightarrow> (\<exists>h. hm_get (cr_hosts (rv_core r)) ip = Some h \<and> h_rule h = i)"

definition net_of_rule :: "'k resolver \<Rightarrow> nat \<Rightarrow> ipv4 \<Rightarrow> bool" where
  "net_of_rule r i ip \<longleftrightarrow>
     (\<exists>s. hm_get (core_subnet_owners (rv_core r) (rv_lists r)) s = Some i \<and> contains s ip)"

lemma loaded_resolver:
  assumes "resolver_ok r" "i < length (cr_rules (rv_core r))"
  shows "loaded (resolver_tables r) (Hosts_of i) ip = host_of_rule r i ip"
    "loaded (resolver_tables r) (Nets_of i) ip = net_of_rule r i ip"
  using in_host_table [OF assms] in_net_table [OF assms(2)]
  by (auto simp: host_of_rule_def net_of_rule_def)

text \<open>The ruleset of the resolver, with its tables loaded.\<close>

lemma resolver_anchor:
  assumes "resolver_ok r"
  shows "first_match (anchor (resolver_shape r)) (loaded (resolver_tables r)) p =
    (if exempt (resolver_shape r) p \<or>
        (\<exists>i x. get (cr_rules (rv_core r)) i = Some x \<and> rn_active x \<and>
           pkt_iface p \<in> set (rule_ifaces (rv_core r) x) \<and>
           (host_of_rule r i (pkt_dst p) \<or> net_of_rule r i (pkt_dst p)))
     then Some Pass
     else if \<exists>i. rule_in_force r i \<and>
         (host_of_rule r i (pkt_dst p) \<or> \<not> use_fakeip r \<and> net_of_rule r i (pkt_dst p))
     then Some Drop else None)"
proof -
  have l: "loaded (resolver_tables r) (Hosts_of i) ip = host_of_rule r i ip"
    "loaded (resolver_tables r) (Nets_of i) ip = net_of_rule r i ip"
    if "get (cr_rules (rv_core r)) i = Some x" for i x ip
    using loaded_resolver [OF assms, of i] that by simp_all
  have 1: "(\<exists>(i, ts)\<in>set (rules_on (resolver_shape r)). pkt_iface p \<in> set ts \<and>
        rule_holds (loaded (resolver_tables r)) i (pkt_dst p)) \<longleftrightarrow>
      (\<exists>i x. get (cr_rules (rv_core r)) i = Some x \<and> rn_active x \<and>
           pkt_iface p \<in> set (rule_ifaces (rv_core r) x) \<and>
           (host_of_rule r i (pkt_dst p) \<or> net_of_rule r i (pkt_dst p)))"
    unfolding Bex_def split_paired_Ex prod.case rules_on_resolver rule_holds_def
    using l by (metis (no_types, lifting))
  have u: "sh_use_fakeip (resolver_shape r) = use_fakeip r"
    by (simp add: resolver_shape_def use_fakeip_def Let_def)
  have 2: "(\<exists>(i, _)\<in>set (rules_on (resolver_shape r)).
        rule_blocks (resolver_shape r) (loaded (resolver_tables r)) i (pkt_dst p)) \<longleftrightarrow>
      (\<exists>i. rule_in_force r i \<and>
         (host_of_rule r i (pkt_dst p) \<or> \<not> use_fakeip r \<and> net_of_rule r i (pkt_dst p)))"
    unfolding Bex_def split_paired_Ex prod.case rules_on_resolver rule_blocks_def rule_in_force_def u
    using l by (metis (no_types, lifting))
  show ?thesis unfolding first_match_anchor 1 2 ..
qed

section \<open>After a stop\<close>

lemma stopped_step:
  "rv_step krn r r' \<Longrightarrow> resolver_ok r \<Longrightarrow> cr_stopped (rv_core r) \<Longrightarrow>
    cr_stopped (rv_core r') \<and> rv_routes r' = rv_routes r"
proof (induction rule: rv_step.induct)
  case (step_remove_all r)
  have "placed_routes (rv_core r) = []"
    using step_remove_all by (simp add: placed_routes_def resolver_ok_def Let_def)
      (auto simp: filter_empty_conv List.map_filter_def)
  then show ?case by (simp add: remove_all_core)
next
  case (step_expire r unix window)
  obtain x r1 where x: "expire_hosts krn unix window r = (x, r1)" by fastforce
  have ok: "hm_ok (cr_hosts (rv_core r))" using step_expire(1) by (simp add: resolver_ok_def Let_def)
  note e = expire_hosts_core [OF x ok]
  have "List.map_filter (\<lambda>(ip, h). if is_placed h then Some (Subnet_host ip) else None) x = []"
    using step_expire e by (auto simp: resolver_ok_def Let_def filter_empty_conv List.map_filter_def)
  with e step_expire(2) show ?case by (simp add: x)
next
  case (step_country country r)
  then show ?case by (simp add: set_country_core)
qed (simp_all add: set_lists_def set_network_def set_upstream_def set_use_fakeip_def
    set_owner_def set_link_def route_host_def load_hosts_def reconcile_def Let_def)

lemma stopped_run:
  "rv_run krn r r' \<Longrightarrow> resolver_ok r \<Longrightarrow> cr_stopped (rv_core r) \<Longrightarrow>
    cr_stopped (rv_core r') \<and> rv_routes r' = rv_routes r"
proof (induction rule: rtranclp_induct)
  case (step y z)
  with stopped_step [OF step(2)] ok_run [OF step(1)] show ?case by simp
qed simp

section \<open>The state on disk\<close>

text \<open>The snapshot of the hosts names the rule of each.\<close>

lemma map_filter_Some: "\<forall>e\<in>set xs. f e = Some (g e) \<Longrightarrow> List.map_filter f xs = map g xs"
  by (induction xs) (simp_all add: List.map_filter_simps)

lemma snapshot_get:
  assumes "resolver_ok r"
  shows "hm_get (hosts_snapshot r) ip =
    (case hm_get (cr_hosts (rv_core r)) ip of
       None \<Rightarrow> None
     | Some h \<Rightarrow> Some \<lparr>ho_rule = rn_name (cr_rules (rv_core r) ! h_rule h), ho_last = h_last h\<rparr>)"
proof -
  let ?f = "\<lambda>h. \<lparr>ho_rule = rn_name (cr_rules (rv_core r) ! h_rule h), ho_last = h_last h\<rparr>"
  have ok: "hm_ok (cr_hosts (rv_core r))" "\<forall>e\<in>set (cr_hosts (rv_core r)). h_rule (snd e) < length (cr_rules (rv_core r))"
    using assms by (simp_all add: resolver_ok_def Let_def)
  let ?g = "\<lambda>(ip, h). map_option (\<lambda>x. (ip, \<lparr>ho_rule = rn_name x, ho_last = h_last h\<rparr>)) (get (cr_rules (rv_core r)) (h_rule h))"
  have m: "List.map_filter ?g (cr_hosts (rv_core r)) = map (\<lambda>(k, v). (k, ?f v)) (cr_hosts (rv_core r))"
  proof -
    have "\<forall>e\<in>set (cr_hosts (rv_core r)). ?g e = Some (fst e, ?f (snd e))"
      using ok(2) by (auto simp: get_def)
    then show ?thesis by (simp add: map_filter_Some split_beta)
  qed
  have "map_of (rev (map (\<lambda>(k, v). (k, ?f v)) (cr_hosts (rv_core r)))) =
      map_of (map (\<lambda>(k, v). (k, ?f v)) (cr_hosts (rv_core r)))"
    using ok(1) by (subst map_of_inject_set) (simp_all add: rev_map [symmetric] split_beta comp_def)
  then show ?thesis
    unfolding hosts_snapshot_def m hm_collect_get
    by (simp add: map_of_map_value [where f = "\<lambda>_. ?f"] map_option_case)
qed

section \<open>Synchronising the packet filter\<close>

lemma sync_failed:
  "sync_pf env r w = (Inl e, r', w') \<Longrightarrow> rv_pf_stale r' \<and> rv_pf_shape r' = None"
  by (auto simp: sync_pf_def Let_def split: option.splits if_splits prod.splits sum.splits)

text \<open>
  The packet filter was given the anchor of a shape, with the tables of a state in its files; and
  that shape is then the one on record.
\<close>

definition pf_given :: "('k, 'w) env \<Rightarrow> path \<Rightarrow> shape \<Rightarrow> 'k resolver \<Rightarrow> 'w \<Rightarrow> bool" where
  "pf_given env dir s r w \<longleftrightarrow>
     (\<exists>w1 status out err.
       (\<forall>i<length (sh_rules s).
         os_read (en_os env) (table_path dir (Hosts_of i)) w1 = Inr (file_text (resolver_tables r) (Hosts_of i)) \<and>
         os_read (en_os env) (table_path dir (Nets_of i)) w1 = Inr (file_text (resolver_tables r) (Nets_of i))) \<and>
       os_exec (en_os env) PFCTL [''-q'', ''-a'', ANCHOR, ''-f'', ''-''] (Some (ruleset s dir)) STEP w1 =
         (Exited True status out err, w))"

lemma sync_loaded:
  assumes "disk_ok (en_os env)" "rv_pf r = Some dir" "sync_pf env r w = (Inr u, r', w')"
    and "en_others env (r, w) = (ra, wa)"
    and "en_others env (ra\<lparr>rv_pf_stale := False\<rparr>, wa) = (rb, wb)"
  shows "(\<not> rv_pf_stale ra \<and> rv_pf_shape ra = Some (resolver_shape ra) \<and> r' = ra \<and> w' = wa) \<or>
    (\<exists>w2 rc. pf_given env dir (resolver_shape ra) rb w2 \<and> en_others env (rb, w2) = (rc, w') \<and>
       r' = rc\<lparr>rv_pf_shape := Some (resolver_shape ra)\<rparr>)"
proof (cases "\<not> rv_pf_stale ra \<and> rv_pf_shape ra = Some (resolver_shape ra)")
  case True
  then have "ra\<lparr>rv_pf_stale := False\<rparr> = ra" by (cases ra) simp
  with True assms(2-4) show ?thesis by (simp add: sync_pf_def)
next
  case False
  obtain v w2 where l: "Pf_load (en_os env) dir (resolver_shape ra) (resolver_tables rb) wb = (v, w2)" by fastforce
  obtain rc wc where c: "en_others env (rb, w2) = (rc, wc)" by fastforce
  from False assms(2-5) l c have v: "v = Inr ()" "r' = rc\<lparr>rv_pf_shape := Some (resolver_shape ra)\<rparr>" "wc = w'"
    by (auto simp: sync_pf_def Let_def split: sum.splits)
  have "pf_given env dir (resolver_shape ra) rb w2"
    unfolding pf_given_def by (rule Pf_load_Inr [OF assms(1) l [unfolded v(1)]])
  with v c show ?thesis by blast
qed

end
