(* ===== verification/Demo.thy ===== *)
theory Demo
  imports Kill_Switch
begin

text \<open>
  A small setting to apply the theorems to: one list, one rule that sends it through one tunnel,
  a kernel that keeps a table of routes, a DNS library that knows two messages, a server that
  answers every query, commands that succeed.
\<close>

definition demo_lists :: lists where
  "demo_lists =
     \<lparr>suffixes = [(''example.org'', [''news''])], subnets = [(Subnet (ip4 203 0 114 0) 24, ''news'')],
      rejected = [], names = [''news'']\<rparr>"

definition demo_rules :: "rule list" where
  "demo_rules = [\<lparr>r_name = ''abroad'', r_when = Out ''NL'', r_lists = [''news''], r_tunnels = [0]\<rparr>]"

definition demo_up :: upstream where
  "demo_up = \<lparr>up_server = (ip4 192 168 1 1, 53), up_bound_if = Some 4\<rparr>"

definition demo_new :: "demo_table resolver" where
  "demo_new = Resolver_new demo_lists demo_rules [''wg''] (ip4 1 1 1 1) \<lparr>sock = [], seq = 0\<rparr>
     (Some ''/run'') (from_secs 3)"

definition demo_link :: link_state where
  "demo_link = \<lparr>ls_iface = Some \<lparr>if_name = ''utun4'', if_index = 17\<rparr>, ls_generation = 1,
     ls_health = Health_Up, ls_works = False, ls_since = Some 0, ls_endpoint = Some (ip4 192 0 3 7)\<rparr>"

text \<open>The resolver with no tunnel, then with its tunnel and a network, outside the country.\<close>

definition demo_dark :: "demo_table resolver" where
  "demo_dark = snd (set_country ''US'' (set_upstream (Some demo_up) demo_new))"

definition demo_ready :: "demo_table resolver" where
  "demo_ready = reconcile demo_kernel 0 (set_link 0 demo_link demo_dark)"

definition demo_question :: query where
  "demo_question = \<lparr>q_name = ''www.example.org.'', q_type = A\<rparr>"

definition demo_request :: dns_message where
  "demo_request = \<lparr>m_id = 0x0101, m_type = Query, m_op_code = 0, m_recursion_desired = True,
     m_recursion_available = False, m_code = NoError, m_queries = [demo_question], m_answers = []\<rparr>"

definition demo_response :: dns_message where
  "demo_response = demo_request\<lparr>m_type := Response, m_answers := [RData_A (ip4 203 0 115 9)]\<rparr>"

definition demo_query :: bytes where "demo_query = replicate 12 1"
definition demo_answer :: bytes where "demo_answer = replicate 12 1 @ [2]"

definition demo_lib :: dns_lib where
  "demo_lib =
     \<lparr>name_from_ascii = Some, to_vec = \<lambda>m. Some (replicate 12 1 @ [3]),
      from_vec = \<lambda>b. if b = demo_query then Some demo_request
                     else if b = demo_answer then Some demo_response else None\<rparr>"

definition demo_net :: "'w net" where
  "demo_net =
     \<lparr>net_udp = \<lambda>up q limit w. (Inr [Inr demo_answer], w),
      net_connect = \<lambda>up limit w. (Late, w),
      net_stream = \<lambda>up q limit w. (Streamed [] None, w)\<rparr>"

definition demo_world :: world where
  "demo_world = \<lparr>wd_files = [], wd_log = [], wd_children = [], wd_started = 0, wd_count = 0, wd_clock = 0\<rparr>"

definition demo_env :: "(demo_table, world) env" where
  "demo_env =
     \<lparr>en_kernel = demo_kernel, en_os = demo_os all_well, en_net = demo_net, en_lib = demo_lib,
      en_others = \<lambda>rw. rw, en_unix = \<lambda>w. 1000\<rparr>"

lemma demo_lists_ok: "lists_ok demo_lists"
  by (simp add: lists_ok_def demo_lists_def subnet_wf_def prefix_mask_def ip4_def ip_of_octets_def
      mask_eq_exp_minus_1) code_simp

lemma demo_new_ok: "resolver_ok demo_new"
  unfolding demo_new_def by (rule ok_new [OF demo_lists_ok])

lemma demo_env_ok: "env_ok demo_env"
  by (simp add: env_ok_def demo_env_def)

lemma demo_env_kernel: "kernel_ok (en_kernel demo_env) map_of" "kernel_obeys (en_kernel demo_env) map_of"
  by (simp_all add: demo_env_def demo_kernel_ok demo_kernel_obeys)

lemma run_step: "rv_run krn r r1 \<Longrightarrow> rv_step krn r1 r2 \<Longrightarrow> rv_run krn r r2"
  by (rule rtranclp.rtrancl_into_rtrancl)

lemma demo_dark_run: "rv_run demo_kernel demo_new demo_dark"
  unfolding demo_dark_def by (rule run_step [OF run_step [OF rtranclp.rtrancl_refl]]) (rule step_upstream step_country)+

lemma demo_ready_run: "rv_run demo_kernel demo_new demo_ready"
  unfolding demo_ready_def
  by (rule run_step [OF run_step [OF demo_dark_run]]) (rule step_link step_reconcile)+

lemma demo_dark_ok: "resolver_ok demo_dark"
  by (rule ok_run [OF demo_dark_run demo_new_ok])

lemma demo_ready_ok: "resolver_ok demo_ready"
  by (rule ok_run [OF demo_ready_run demo_new_ok])

text \<open>The requests of the routing socket to the kernel of the table.\<close>

lemma demo_send:
  "send demo_kernel r (message kind d i s) =
    (case i of
       Some i \<Rightarrow> (if hm_get (sock r) (route_key d) = None
         then (Inr (), r\<lparr>sock := hm_insert (route_key d) i (sock r)\<rparr>) else (Inl (Errno EEXIST), r))
     | None \<Rightarrow> (if hm_get (sock r) (route_key d) = None then (Inl (Errno ESRCH), r)
         else (Inr (), r\<lparr>sock := filter (\<lambda>(k, _). k \<noteq> route_key d) (sock r)\<rparr>)))"
  by (auto simp: send_def demo_kernel_def Let_def demo_key_message rq_gateway_message
      split: option.split)

lemma demo_add:
  "RouteSocket_add demo_kernel r d i =
    (if hm_get (sock r) (route_key d) = None
     then (Inr Added, \<lparr>sock = hm_insert (route_key d) i (sock r), seq = seq r + 1\<rparr>)
     else (Inr Existed, r\<lparr>seq := seq r + 1\<rparr>))"
  by (simp add: RouteSocket_add_def next_seq_def demo_send EEXIST_def)

lemma demo_delete:
  "RouteSocket_delete demo_kernel r d =
    (if hm_get (sock r) (route_key d) = None then (Inr False, r\<lparr>seq := seq r + 1\<rparr>)
     else (Inr True, \<lparr>sock = filter (\<lambda>(k, _). k \<noteq> route_key d) (sock r), seq = seq r + 1\<rparr>))"
  by (simp add: RouteSocket_delete_def next_seq_def demo_send ESRCH_def)

lemma map_of_filter_same: "map_of (filter (\<lambda>(k, _). k \<noteq> x) t) x = None"
  by (induction t) auto

lemma demo_set:
  "RouteSocket_set demo_kernel r d i =
    (if hm_get (sock r) (route_key d) = None
     then (Inr Added, \<lparr>sock = hm_insert (route_key d) i (sock r), seq = seq r + 1\<rparr>)
     else (Inr Moved, \<lparr>sock = hm_insert (route_key d) i (filter (\<lambda>(k, _). k \<noteq> route_key d) (sock r)),
                       seq = seq r + 3\<rparr>))"
  by (simp add: RouteSocket_set_def demo_add demo_delete map_of_filter_same)

text \<open>The states of the setting, written out.\<close>

lemma demo_dark_core:
  "demo_dark = demo_new\<lparr>rv_upstream := Some demo_up, rv_pf_stale := True,
    rv_core := (rv_core demo_new)\<lparr>cr_rules := [\<lparr>rn_name = ''abroad'', rn_when = Out ''NL'', rn_lists = [''news''],
      rn_tunnels = [0], rn_active = True, rn_current = None\<rparr>]\<rparr>\<rparr>"
  by (simp add: demo_dark_def set_country_def set_upstream_def demo_new_def Resolver_new_def demo_rules_def
      List.map_filter_simps)

lemmas ip_eval = overlaps_def contains_def FAKEIP_def prefix_mask_def ip4_def ip_of_octets_def mask_eq_exp_minus_1

lemma demo_addresses:
  "\<not> overlaps (Subnet (ip4 203 0 114 0) 24) FAKEIP" "\<not> contains (Subnet (ip4 203 0 114 0) 24) (ip4 192 0 3 7)"
  "routable (ip4 203 0 115 9) [ip4 192 0 3 7]" "\<not> routable (ip4 10 1 2 3) [ip4 192 0 3 7]"
  "\<not> contains FAKEIP (ip4 203 0 115 9)" "contains (Subnet (ip4 203 0 114 0) 24) (ip4 203 0 114 5)"
  by (simp_all add: ip_eval routable_def SPECIAL_def)

lemmas demo_ready_simps =
  reconcile_def set_link_def modify_nth_def pick_tunnels_def Let_def core_states_def pick_def pick_any_def
  tunnel_good_def link_good_def get_def opt_or_def place_hosts_def place_subnets_def wanted_subnets_def
  want_subnet_def own_subnet_def hm_or_insert_def place_subnet_def demo_set core_target_def placeable_def
  core_reasons_def core_current_def target_at_def core_endpoints_def subnet_gone_def core_subnet_owners_def
  core_owners_def active_lists_def List.map_filter_simps

definition demo_routes :: "demo_table route_socket" where
  "demo_routes = \<lparr>sock = [(route_key (Subnet (ip4 203 0 114 0) 24), 17)], seq = 1\<rparr>"

definition demo_core :: core where
  "demo_core =
     \<lparr>cr_links = [(''wg'', demo_link)],
      cr_rules = [\<lparr>rn_name = ''abroad'', rn_when = Out ''NL'', rn_lists = [''news''], rn_tunnels = [0],
        rn_active = True, rn_current = Some 0\<rparr>],
      cr_hosts = [], cr_subnets = [(Subnet (ip4 203 0 114 0) 24, 0, 0, 1)], cr_unrouted = [],
      cr_owner = False, cr_use_fakeip = False, cr_stopped = False\<rparr>"

lemma demo_ready_eq:
  "demo_ready = \<lparr>rv_lists = demo_lists, rv_limit = from_secs 3, rv_routes = demo_routes, rv_pf = Some ''/run'',
     rv_pf_stale = True, rv_pf_shape = None, rv_tunnel_dns = ip4 1 1 1 1, rv_upstream = Some demo_up,
     rv_network = None, rv_core = demo_core, rv_dirty = False\<rparr>"
  by (simp add: demo_ready_def demo_dark_core demo_new_def Resolver_new_def demo_rules_def demo_link_def
      demo_lists_def demo_core_def demo_routes_def target_placed_def demo_ready_simps demo_addresses)

lemma demo_ready_fields [simp]:
  "rv_core demo_ready = demo_core" "rv_lists demo_ready = demo_lists" "rv_routes demo_ready = demo_routes"
  "rv_pf demo_ready = Some ''/run''" "rv_upstream demo_ready = Some demo_up" "rv_limit demo_ready = from_secs 3"
  "rv_tunnel_dns demo_ready = ip4 1 1 1 1"
  by (simp_all add: demo_ready_eq)

lemma demo_core_simps [simp]:
  "core_target demo_core 0 = Some \<lparr>tg_link = 0, tg_generation = 1, tg_index = 17\<rparr>"
  "core_carries demo_core 0" "core_endpoints demo_core = [ip4 192 0 3 7]"
  by (simp_all add: demo_core_def demo_link_def core_target_def core_carries_def core_reasons_def core_current_def
      core_endpoints_def get_def reasons_any_def alive_def List.map_filter_simps)

lemma demo_owners: "core_subnet_owners demo_core demo_lists = [(Subnet (ip4 203 0 114 0) 24, 0)]"
  by (simp add: demo_core_def demo_lists_def demo_ready_simps demo_addresses)

lemma demo_rules_core [simp]:
  "get (cr_rules demo_core) i = (if i = 0 then Some \<lparr>rn_name = ''abroad'', rn_when = Out ''NL'',
    rn_lists = [''news''], rn_tunnels = [0], rn_active = True, rn_current = Some 0\<rparr> else None)"
  "length (cr_rules demo_core) = 1" "cr_use_fakeip demo_core = False" "cr_hosts demo_core = []"
  "cr_stopped demo_core = False" "cr_subnets demo_core = [(Subnet (ip4 203 0 114 0) 24, 0, 0, 1)]"
  "rule_ifaces demo_core \<lparr>rn_name = n, rn_when = y, rn_lists = l, rn_tunnels = [0], rn_active = a, rn_current = u\<rparr>
    = [''utun4'']"
  by (simp_all add: demo_core_def get_def rule_ifaces_def List.map_filter_simps demo_link_def)

lemma demo_plan: "plan demo_lists (normalize (q_name demo_question)) = Plan_Listed [''news'']"
proof -
  have n: "normalize ''www.example.org.'' = ''www.example.org''" "normalize ''www.example.org'' = ''www.example.org''"
    by code_simp+
  show ?thesis
    by (simp add: plan_def demo_question_def n FIREFOX_CANARY_def match_domain_def match_loop.simps demo_lists_def push_new_def)
qed

definition demo_pick :: pick_result where
  "demo_pick = \<lparr>pk_rule = 0, pk_name = ''abroad'', pk_always = False, pk_via = Some 17,
     pk_reasons = core_reasons demo_core 0\<rparr>"

lemma demo_choose: "core_choose demo_core [''news''] = Some demo_pick"
  by (simp add: demo_pick_def core_choose_def demo_core_def [THEN arg_cong, where f = cr_rules])

lemma replicate_eval: "replicate 12 (x :: u8) = [x, x, x, x, x, x, x, x, x, x, x, x]"
  by (simp add: numeral_eq_Suc)

lemma demo_exchange: "exchange demo_net up demo_query lim w = (Inr demo_answer, w)"
  by (simp add: exchange_def udp_def demo_net_def demo_answer_def demo_query_def get_prefix_def truncated_def get_def
      replicate_eval)

lemma demo_from_vec [simp]:
  "from_vec demo_lib demo_query = Some demo_request" "from_vec demo_lib demo_answer = Some demo_response"
  by (simp_all add: demo_lib_def demo_query_def demo_answer_def)

lemma demo_env_fields [simp]:
  "en_kernel demo_env = demo_kernel" "en_os demo_env = demo_os all_well" "en_net demo_env = demo_net"
  "en_lib demo_env = demo_lib" "en_others demo_env rw = rw" "en_unix demo_env w = 1000"
  by (simp_all add: demo_env_def)

lemma demo_response_ips: "ipv4_answers demo_response = [ip4 203 0 115 9]"
  by (simp add: ipv4_answers_def demo_response_def List.map_filter_simps)

lemma demo_route_host:
  "route_host demo_kernel now (ip4 203 0 115 9) 0 demo_ready =
    (Inr True, demo_ready\<lparr>rv_routes :=
        \<lparr>sock = sock demo_routes @ [(route_key (Subnet_host (ip4 203 0 115 9)), 17)], seq = 2\<rparr>,
      rv_core := demo_core\<lparr>cr_hosts := [(ip4 203 0 115 9, \<lparr>h_rule = 0, h_last = now, h_placed = Some (0, 1)\<rparr>)]\<rparr>,
      rv_dirty := True\<rparr>)"
proof -
  have "route_key (Subnet_host (ip4 203 0 115 9)) \<noteq> route_key (Subnet (ip4 203 0 114 0) 24)"
    by (simp add: route_key_def Subnet_host_def ip4_def ip_of_octets_def)
  then show ?thesis
    by (simp add: route_host_def Let_def demo_core_def [THEN arg_cong, where f = cr_hosts]
        demo_core_def [THEN arg_cong, where f = cr_stopped] demo_set demo_routes_def target_placed_def)
qed

lemma demo_pf_add: "fst (Pf_add (demo_os all_well) i ips w) = Inr ()"
  by (simp add: Pf_add_def Pf_table_def run_def run_both_def demo_os_def all_well_def)

lemma demo_change: "fst (change_table demo_env (Pf_add (demo_os all_well) i ips) ips' r w) = Inr ()"
  by (simp add: change_table_def demo_pf_add prod.case_eq_if)

lemma demo_place:
  "\<exists>r w'. place_answer demo_env demo_pick b demo_response demo_ready w = (Given b, r, w')"
  by (simp add: demo_pick_def place_answer_def demo_response_ips demo_addresses demo_route_host demo_change prod.case_eq_if)

lemma demo_await: "await_exchange demo_env up demo_query demo_ready w = (Inr demo_answer, demo_ready, w)"
  by (simp add: await_exchange_def demo_exchange)

lemma demo_listed:
  "\<exists>r w'. handle_request demo_env demo_request demo_query demo_ready w = (Given demo_answer, r, w')"
proof -
  have q: "m_queries demo_request = [demo_question]" "q_type demo_question = A"
    by (simp_all add: demo_request_def demo_question_def)
  have u: "\<not> use_fakeip demo_ready"
    by (simp add: use_fakeip_def)
  show ?thesis
    by (simp add: handle_request_def q demo_plan demo_choose refused_type_def listed_def u through_tunnel_def
        demo_await demo_place demo_pick_def [THEN arg_cong, where f = pk_via])
qed

lemma demo_handled: "\<exists>r w'. handle demo_env demo_query demo_ready w = (Some demo_answer, r, w')"
proof -
  obtain r w' where "handle_request demo_env demo_request demo_query demo_ready w = (Given demo_answer, r, w')"
    using demo_listed by blast
  then show ?thesis
    by (simp add: handle_def answer_bytes_def) (simp add: demo_request_def)
qed

text \<open>The packet filter: commands that succeed, and commands that do not end.\<close>

lemma demo_writes: "\<exists>w'. write_tables (demo_os f) dir t js w = (Inr (), w')"
  by (induction js arbitrary: w) (simp_all add: demo_os_def write_private_def)

lemma demo_load: "\<exists>w'. Pf_load (demo_os all_well) dir s t w = (Inr (), w')"
  using demo_writes [where f = all_well and dir = dir and t = t and js = "[0..<length (sh_rules s)]" and w = w]
  by (auto simp: Pf_load_def run_def run_both_def) (simp add: demo_os_def all_well_def)

lemma demo_load_late: "\<exists>w'. Pf_load (demo_os (\<lambda>_. Still_running)) dir s t w = (Inl TimedOut, w')"
  using demo_writes [where f = "\<lambda>_. Still_running" and dir = dir and t = t
      and js = "[0..<length (sh_rules s)]" and w = w]
  by (auto simp: Pf_load_def run_def run_both_def) (simp add: demo_os_def)

lemma demo_sync: "fst (sync_pf demo_env demo_ready w) = Inr ()"
  using demo_load [where dir = "''/run''" and s = "resolver_shape demo_ready"
      and t = "resolver_tables (demo_ready\<lparr>rv_pf_stale := False\<rparr>)" and w = w]
  by (auto simp: sync_pf_def Let_def demo_ready_eq [THEN arg_cong, where f = rv_pf_stale])

lemma demo_sync_late:
  "fst (sync_pf (demo_env\<lparr>en_os := demo_os (\<lambda>_. Still_running)\<rparr>) demo_ready w) = Inl TimedOut"
  using demo_load_late [where dir = "''/run''" and s = "resolver_shape demo_ready"
      and t = "resolver_tables (demo_ready\<lparr>rv_pf_stale := False\<rparr>)" and w = w]
  by (auto simp: sync_pf_def Let_def demo_ready_eq [THEN arg_cong, where f = rv_pf_stale])

end
