(* ===== verification/Tunnel_Conf.thy ===== *)
theory Tunnel_Conf
  imports Rust_Str
begin

text \<open>
  Model of \<open>Conf\<close> of \<open>src/tunnel.rs\<close>: an awg-quick file split into what the program applies itself
  and the lines that go to \<open>awg setconf\<close>. Shown: those lines hold nothing meant for awg-quick, are
  read back as they are, and have one endpoint, the one given.
\<close>

section \<open>Reading\<close>

definition QUICK_KEYS :: "string list" where
  "QUICK_KEYS =
     [''address'', ''mtu'', ''table'', ''dns'', ''saveconfig'', ''preup'', ''postup'', ''predown'', ''postdown'']"

datatype conf_line = Text string | Endpoint_line

datatype conf_error =
    Not_key_value string | Bad_mtu string | Two_endpoints | Bad_endpoint string | Bad_port string
  | No_endpoint | No_conf_address

record conf =
  cf_address :: ipv4
  cf_mtu :: nat
  cf_host :: string
  cf_port :: nat
  cf_ignored :: "string list"
  cf_lines :: "conf_line list"

text \<open>What the loop over the lines has so far.\<close>

record conf_state =
  cs_section :: string
  cs_address :: "ipv4 option"
  cs_mtu :: nat
  cs_endpoint :: "(string \<times> nat) option"
  cs_ignored :: "string list"
  cs_lines :: "conf_line list"

definition conf_start :: conf_state where
  "conf_start = \<lparr>cs_section = [], cs_address = None, cs_mtu = 1280, cs_endpoint = None, cs_ignored = [], cs_lines = []\<rparr>"

definition conf_strip :: "string \<Rightarrow> string" where
  "conf_strip raw = trim (hd (split_on (CHR ''#'') raw))"

definition first_ipv4 :: "string \<Rightarrow> ipv4 option" where
  "first_ipv4 v = find_map (\<lambda>a. parse_ip (hd (split_on (CHR ''/'') (trim a)))) (split_on (CHR '','') v)"

definition quick_key :: "string \<Rightarrow> string \<Rightarrow> conf_state \<Rightarrow> conf_error + conf_state" where
  "quick_key key v s =
     (if key = ''address'' then Inr (s\<lparr>cs_address := first_ipv4 v\<rparr>)
      else if key = ''mtu'' then
        (case parse_u16 v of None \<Rightarrow> Inl (Bad_mtu v) | Some m \<Rightarrow> Inr (s\<lparr>cs_mtu := m\<rparr>))
      else Inr (s\<lparr>cs_ignored := cs_ignored s @ [key]\<rparr>))"

definition endpoint_key :: "string \<Rightarrow> conf_state \<Rightarrow> conf_error + conf_state" where
  "endpoint_key v s =
     (if cs_endpoint s \<noteq> None then Inl Two_endpoints
      else (case rsplit_once (CHR '':'') v of
              None \<Rightarrow> Inl (Bad_endpoint v)
            | Some (host, port) \<Rightarrow>
                (case parse_u16 port of
                   None \<Rightarrow> Inl (Bad_port v)
                 | Some p \<Rightarrow>
                     Inr (s\<lparr>cs_endpoint := Some (trim_matches (\<lambda>c. c = CHR ''['' \<or> c = CHR '']'') host, p),
                            cs_lines := cs_lines s @ [Endpoint_line]\<rparr>))))"

definition conf_raw :: "string \<Rightarrow> conf_state \<Rightarrow> conf_error + conf_state" where
  "conf_raw raw s =
     (let line = conf_strip raw in
      if line = [] then Inr s
      else if starts_with line ''['' then
        Inr (s\<lparr>cs_section := to_lower line, cs_lines := cs_lines s @ [Text line]\<rparr>)
      else (case split_once (CHR ''='') line of
              None \<Rightarrow> Inl (Not_key_value line)
            | Some (k, v) \<Rightarrow>
                (let key = to_lower (trim k); v = trim v in
                 if cs_section s = ''[interface]'' \<and> key \<in> set QUICK_KEYS then quick_key key v s
                 else if cs_section s = ''[peer]'' \<and> key = ''endpoint'' then endpoint_key v s
                 else Inr (s\<lparr>cs_lines := cs_lines s @ [Text line]\<rparr>))))"

fun conf_loop :: "string list \<Rightarrow> conf_state \<Rightarrow> conf_error + conf_state" where
  "conf_loop [] s = Inr s"
| "conf_loop (raw # raws) s = (case conf_raw raw s of Inl e \<Rightarrow> Inl e | Inr s \<Rightarrow> conf_loop raws s)"

definition Conf_parse :: "string \<Rightarrow> conf_error + conf" where
  "Conf_parse txt =
     (case conf_loop (lines txt) conf_start of
        Inl e \<Rightarrow> Inl e
      | Inr s \<Rightarrow>
          (case cs_endpoint s of
             None \<Rightarrow> Inl No_endpoint
           | Some (host, port) \<Rightarrow>
               (case cs_address s of
                  None \<Rightarrow> Inl No_conf_address
                | Some a \<Rightarrow>
                    Inr \<lparr>cf_address = a, cf_mtu = cs_mtu s, cf_host = host, cf_port = port,
                         cf_ignored = cs_ignored s, cf_lines = cs_lines s\<rparr>)))"

definition endpoint_ip :: "conf \<Rightarrow> ipv4 option" where
  "endpoint_ip c = parse_ip (cf_host c)"

fun show_conf_line :: "string \<Rightarrow> nat \<Rightarrow> conf_line \<Rightarrow> string" where
  "show_conf_line ip port (Text t) = t"
| "show_conf_line ip port Endpoint_line = ''Endpoint = '' @ ip @ '':'' @ show_nat port"

definition setconf :: "conf \<Rightarrow> ipv4 \<Rightarrow> string" where
  "setconf c ip = foldl (\<lambda>out l. out @ show_conf_line (show_ip ip) (cf_port c) l @ [NL]) [] (cf_lines c)"

section \<open>What goes to \<open>awg\<close>\<close>

text \<open>A line as the loop keeps it: no comment, no space around it, not empty.\<close>

definition kept_line :: "string \<Rightarrow> bool" where
  "kept_line t \<longleftrightarrow> t \<noteq> [] \<and> CHR ''#'' \<notin> set t \<and> trim t = t \<and> NL \<notin> set t"

lemma last_dropWhile_rev: "s \<noteq> [] \<Longrightarrow> \<not> p (last s) \<Longrightarrow> dropWhile p (rev s) = rev s"
  by (cases "rev s") (auto simp: last_rev [of "rev s", simplified] hd_rev [symmetric])

lemma trim_start_trim: "trim_start (trim s) = trim s"
proof (cases "trim s")
  case Nil
  then show ?thesis by (simp add: trim_start_def)
next
  case (Cons c cs)
  let ?d = "trim_start s"
  have "?d \<noteq> []" using Cons by (auto simp: trim_def trim_end_def)
  then have "\<not> is_ws (hd ?d)" by (simp add: trim_start_def hd_dropWhile)
  moreover obtain ws where "?d = trim s @ ws"
    unfolding trim_def trim_end_def
    by (metis rev_append rev_rev_ident takeWhile_dropWhile_id)
  ultimately have "\<not> is_ws c" by (simp add: Cons)
  then show ?thesis by (simp add: trim_start_def Cons)
qed

lemma trim_idem [simp]: "trim (trim s) = trim s"
proof (cases "trim s = []")
  case True
  show ?thesis unfolding True by (simp add: trim_def trim_start_def trim_end_def)
next
  case False
  then have "\<not> is_ws (last (trim s))" by (rule trim_hd)
  with False have "dropWhile is_ws (rev (trim s)) = rev (trim s)" by (intro last_dropWhile_rev)
  then show ?thesis
    using trim_start_trim [of s] by (simp add: trim_def [of "trim s"] trim_end_def)
qed

lemma hd_split_on: "set (hd (split_on c s)) \<subseteq> set s \<and> c \<notin> set (hd (split_on c s))"
  by (induction s) (auto split: list.splits)

lemma conf_strip_kept:
  assumes "conf_strip raw \<noteq> []" "NL \<notin> set raw"
  shows "kept_line (conf_strip raw)"
  using assms hd_split_on [of "CHR ''#''" raw] set_trim [of "hd (split_on (CHR ''#'') raw)"]
  by (auto simp: kept_line_def conf_strip_def)

lemma conf_strip_id: "kept_line t \<Longrightarrow> conf_strip t = t"
  by (simp add: kept_line_def conf_strip_def split_on_no)

text \<open>
  The lines as \<open>awg\<close> reads them, under the section they stand in: none is a key of awg-quick, and a
  peer's endpoint stands only where the address given is put.
\<close>

fun plain_key :: "string \<Rightarrow> string \<Rightarrow> bool" where
  "plain_key sect t \<longleftrightarrow>
     (case split_once (CHR ''='') t of
        None \<Rightarrow> False
      | Some (k, v) \<Rightarrow>
          \<not> (sect = ''[interface]'' \<and> to_lower (trim k) \<in> set QUICK_KEYS) \<and>
          \<not> (sect = ''[peer]'' \<and> to_lower (trim k) = ''endpoint''))"

fun awg_lines :: "string \<Rightarrow> conf_line list \<Rightarrow> bool" where
  "awg_lines sect [] \<longleftrightarrow> True"
| "awg_lines sect (Endpoint_line # ls) \<longleftrightarrow> sect = ''[peer]'' \<and> awg_lines sect ls"
| "awg_lines sect (Text t # ls) \<longleftrightarrow>
     kept_line t \<and>
     (if starts_with t ''['' then awg_lines (to_lower t) ls else plain_key sect t \<and> awg_lines sect ls)"

text \<open>The section after some lines.\<close>

fun section_after :: "string \<Rightarrow> conf_line list \<Rightarrow> string" where
  "section_after sect [] = sect"
| "section_after sect (Endpoint_line # ls) = section_after sect ls"
| "section_after sect (Text t # ls) =
     section_after (if starts_with t ''['' then to_lower t else sect) ls"

lemma awg_lines_snoc:
  "awg_lines sect (ls @ [l]) \<longleftrightarrow> awg_lines sect ls \<and> awg_lines (section_after sect ls) [l]"
  by (induction sect ls rule: awg_lines.induct) auto

lemma section_after_snoc: "section_after sect (ls @ [l]) = section_after (section_after sect ls) [l]"
  by (induction sect ls rule: section_after.induct) auto

definition conf_ok :: "conf_state \<Rightarrow> bool" where
  "conf_ok s \<longleftrightarrow>
     awg_lines [] (cs_lines s) \<and> section_after [] (cs_lines s) = cs_section s \<and>
     length (filter (\<lambda>l. l = Endpoint_line) (cs_lines s)) = (if cs_endpoint s = None then 0 else 1) \<and>
     set (cs_ignored s) \<subseteq> set QUICK_KEYS \<and> cs_mtu s \<le> 65535 \<and>
     (case cs_endpoint s of None \<Rightarrow> True | Some (host, port) \<Rightarrow> port \<le> 65535)"

lemma parse_uint_bound: "parse_uint m s = Some n \<Longrightarrow> n \<le> m"
  by (auto simp: parse_uint_def Let_def split: list.splits if_splits)

lemma conf_ok_start: "conf_ok conf_start"
  by (simp add: conf_ok_def conf_start_def)

lemma endpoint_key_Inr:
  assumes "endpoint_key v s = Inr s'"
  obtains host port where "cs_endpoint s = None" "port \<le> 65535"
    "s' = s\<lparr>cs_endpoint := Some (host, port), cs_lines := cs_lines s @ [Endpoint_line]\<rparr>"
proof -
  have none: "cs_endpoint s = None"
    using assms by (cases "cs_endpoint s") (simp_all add: endpoint_key_def)
  with assms obtain a b p where "rsplit_once (CHR '':'') v = Some (a, b)" "parse_u16 b = Some p"
    by (auto simp: endpoint_key_def split: option.splits prod.splits)
  with assms none have "s' = s\<lparr>cs_endpoint :=
      Some (trim_matches (\<lambda>c. c = CHR ''['' \<or> c = CHR '']'') a, p), cs_lines := cs_lines s @ [Endpoint_line]\<rparr>"
    by (simp add: endpoint_key_def)
  with none parse_uint_bound [OF \<open>parse_u16 b = Some p\<close>] show thesis by (rule that)
qed

lemma conf_ok_raw:
  assumes "conf_ok s" "NL \<notin> set raw" "conf_raw raw s = Inr s'"
  shows "conf_ok s'"
proof (cases "conf_strip raw = []")
  case True
  with assms show ?thesis by (simp add: conf_raw_def)
next
  case False
  note kept = conf_strip_kept [OF False assms(2)]
  show ?thesis
  proof (cases "starts_with (conf_strip raw) ''[''")
    case True
    with assms False kept show ?thesis
      by (auto simp: conf_raw_def Let_def conf_ok_def awg_lines_snoc section_after_snoc)
  next
    case head: False
    with assms(3) False obtain k v where kv: "split_once (CHR ''='') (conf_strip raw) = Some (k, v)"
      by (auto simp: conf_raw_def Let_def split: option.splits)
    consider (quick) "cs_section s = ''[interface]''" "to_lower (trim k) \<in> set QUICK_KEYS"
      | (ep) "cs_section s = ''[peer]''" "to_lower (trim k) = ''endpoint''"
      | (keep) "\<not> (cs_section s = ''[interface]'' \<and> to_lower (trim k) \<in> set QUICK_KEYS)"
          "\<not> (cs_section s = ''[peer]'' \<and> to_lower (trim k) = ''endpoint'')"
      by blast
    then show ?thesis
    proof cases
      case quick
      with assms False head kv show ?thesis
        by (auto simp: conf_raw_def Let_def conf_ok_def quick_key_def parse_uint_bound split: if_splits option.splits)
    next
      case ep
      with assms(3) False head kv have "endpoint_key (trim v) s = Inr s'"
        by (simp add: conf_raw_def Let_def)
      then obtain host port where "cs_endpoint s = None" "port \<le> 65535"
          "s' = s\<lparr>cs_endpoint := Some (host, port), cs_lines := cs_lines s @ [Endpoint_line]\<rparr>"
        by (rule endpoint_key_Inr)
      with assms(1) ep(1) show ?thesis
        by (simp add: conf_ok_def awg_lines_snoc section_after_snoc)
    next
      case keep
      with assms False head kv kept show ?thesis
        by (auto simp: conf_raw_def Let_def conf_ok_def awg_lines_snoc section_after_snoc)
    qed
  qed
qed

lemma conf_ok_loop:
  "conf_loop raws s = Inr s' \<Longrightarrow> conf_ok s \<Longrightarrow> \<forall>raw\<in>set raws. NL \<notin> set raw \<Longrightarrow> conf_ok s'"
  by (induction raws arbitrary: s) (auto split: sum.splits intro: conf_ok_raw)

lemma Conf_parse_ok:
  assumes "Conf_parse txt = Inr c"
  obtains s where "conf_loop (lines txt) conf_start = Inr s" "conf_ok s" "cs_lines s = cf_lines c"
    "cs_endpoint s = Some (cf_host c, cf_port c)" "cs_address s = Some (cf_address c)"
    "cs_mtu s = cf_mtu c" "cs_ignored s = cf_ignored c"
proof -
  from assms obtain s where s: "conf_loop (lines txt) conf_start = Inr s" "cs_lines s = cf_lines c"
      "cs_endpoint s = Some (cf_host c, cf_port c)" "cs_address s = Some (cf_address c)"
      "cs_mtu s = cf_mtu c" "cs_ignored s = cf_ignored c"
    by (auto simp: Conf_parse_def split: sum.splits option.splits)
  with conf_ok_loop [OF s(1) conf_ok_start] lines_no_NL that show thesis by blast
qed

section \<open>Reading it again\<close>

lemma show_ip_chars: "\<forall>c\<in>set (show_ip ip). c = CHR ''.'' \<or> is_digit c"
  using show_nat_digits by (auto simp: show_ip_def)

lemma digit_special: "is_digit c \<Longrightarrow> c \<noteq> CHR ''#'' \<and> c \<noteq> CHR '':'' \<and> c \<noteq> CHR ''['' \<and> c \<noteq> CHR '']'' \<and> c \<noteq> NL"
  by (auto simp: is_digit_def NL_def)

lemma show_ip_special:
  "CHR '':'' \<notin> set (show_ip ip)" "CHR ''['' \<notin> set (show_ip ip)" "CHR '']'' \<notin> set (show_ip ip)"
  "CHR ''#'' \<notin> set (show_ip ip)" "NL \<notin> set (show_ip ip)"
  using show_ip_chars [of ip] by (force simp: is_digit_def NL_def)+

lemma show_nat_special:
  "CHR '':'' \<notin> set (show_nat n)" "CHR ''#'' \<notin> set (show_nat n)" "NL \<notin> set (show_nat n)"
  using show_nat_digits [of n] by (force simp: is_digit_def NL_def)+

lemma trim_ends:
  assumes "s \<noteq> []" "\<not> is_ws (hd s)" "\<not> is_ws (last s)"
  shows "trim s = s"
proof -
  have "dropWhile is_ws (rev s) = rev s" using assms by (intro last_dropWhile_rev)
  then show ?thesis
    using assms by (simp add: trim_def trim_start_def trim_end_def dropWhile_id)
qed

lemma show_nat_last: "\<not> is_ws (last (show_nat n))"
  using show_nat_no_ws [of n] by simp

definition endpoint_text :: "ipv4 \<Rightarrow> nat \<Rightarrow> string" where
  "endpoint_text ip port = show_conf_line (show_ip ip) port Endpoint_line"

lemma endpoint_text_kept: "kept_line (endpoint_text ip port)"
proof -
  have "trim (endpoint_text ip port) = endpoint_text ip port"
  proof (rule trim_ends)
    show "\<not> is_ws (hd (endpoint_text ip port))" by (simp add: endpoint_text_def is_ws_def)
    show "\<not> is_ws (last (endpoint_text ip port))" by (simp add: endpoint_text_def show_nat_last)
  qed (simp add: endpoint_text_def)
  then show ?thesis
    by (simp add: kept_line_def)
      (use show_ip_special [of ip] show_nat_special [of port] in \<open>simp add: endpoint_text_def NL_def\<close>)
qed

lemma trim_matches_none: "\<forall>c\<in>set s. \<not> p c \<Longrightarrow> trim_matches p s = s"
  by (simp add: trim_matches_def dropWhile_none)

lemma endpoint_text_read:
  assumes "cs_section s = ''[peer]''" "cs_endpoint s = None" "port \<le> 65535"
  shows "conf_raw (endpoint_text ip port) s =
    Inr (s\<lparr>cs_endpoint := Some (show_ip ip, port), cs_lines := cs_lines s @ [Endpoint_line]\<rparr>)"
proof -
  let ?v = "show_ip ip @ CHR '':'' # show_nat port"
  have strip: "conf_strip (endpoint_text ip port) = endpoint_text ip port"
    by (rule conf_strip_id [OF endpoint_text_kept])
  have split: "split_once (CHR ''='') (endpoint_text ip port) = Some (''Endpoint '', CHR '' '' # ?v)"
    by (simp add: endpoint_text_def)
  have key: "to_lower (trim ''Endpoint '') = ''endpoint''" by code_simp
  have "trim ?v = ?v"
    by (rule trim_ends) (use show_ip_no_ws [of ip] show_ip_nonempty [of ip] show_nat_last [of port] in auto)
  moreover have "trim (CHR '' '' # ?v) = trim ?v" by (simp add: trim_def trim_start_def)
  ultimately have v: "trim (CHR '' '' # ?v) = ?v" by simp
  have r: "rsplit_once (CHR '':'') ?v = Some (show_ip ip, show_nat port)"
    by (simp add: rsplit_once_def split_once_append show_nat_special)
  have m: "trim_matches (\<lambda>c. c = CHR ''['' \<or> c = CHR '']'') (show_ip ip) = show_ip ip"
    by (rule trim_matches_none) (use show_ip_special [of ip] in auto)
  have h: "\<not> starts_with (endpoint_text ip port) ''[''" by (simp add: endpoint_text_def starts_with_def)
  show ?thesis
    using assms h
    by (simp add: conf_raw_def strip Let_def split key v endpoint_key_def r m parse_show_uint)
      (simp add: endpoint_text_def)
qed

lemma text_read:
  assumes "kept_line t"
  shows "starts_with t ''['' \<Longrightarrow>
      conf_raw t s = Inr (s\<lparr>cs_section := to_lower t, cs_lines := cs_lines s @ [Text t]\<rparr>)"
    "\<not> starts_with t ''['' \<Longrightarrow> plain_key (cs_section s) t \<Longrightarrow>
      conf_raw t s = Inr (s\<lparr>cs_lines := cs_lines s @ [Text t]\<rparr>)"
  using assms
  by (auto simp: conf_raw_def Let_def conf_strip_id kept_line_def split: option.splits)

text \<open>The lines for \<open>awg\<close> are read as they are, with the endpoint that was put in.\<close>

lemma awg_lines_read:
  "awg_lines (cs_section s) ls \<Longrightarrow>
    length (filter (\<lambda>l. l = Endpoint_line) ls) + (if cs_endpoint s = None then 0 else 1) \<le> Suc 0 \<Longrightarrow>
    port \<le> 65535 \<Longrightarrow>
    conf_loop (map (show_conf_line (show_ip ip) port) ls) s =
      Inr (s\<lparr>cs_section := section_after (cs_section s) ls, cs_lines := cs_lines s @ ls,
             cs_endpoint := (if Endpoint_line \<in> set ls then Some (show_ip ip, port) else cs_endpoint s)\<rparr>)"
proof (induction ls arbitrary: s)
  case Nil
  then show ?case by simp
next
  case (Cons l ls)
  show ?case
  proof (cases l)
    case (Text t)
    with Cons.prems have kept: "kept_line t" by simp
    show ?thesis
    proof (cases "starts_with t ''[''")
      case True
      with Cons Text text_read(1) [OF kept True] show ?thesis by simp
    next
      case False
      with Cons.prems(1) Text have "plain_key (cs_section s) t" "awg_lines (cs_section s) ls"
        by (simp_all del: plain_key.simps)
      with Cons Text False text_read(2) [OF kept False] show ?thesis by (simp del: plain_key.simps)
    qed
  next
    case Endpoint_line
    with Cons.prems have *: "cs_section s = ''[peer]''" "cs_endpoint s = None" "awg_lines (cs_section s) ls"
        "filter (\<lambda>l. l = Endpoint_line) ls = []"
      by (auto split: if_splits)
    have none: "Endpoint_line \<notin> set ls" using *(4) by (auto simp: filter_empty_conv)
    let ?s = "s\<lparr>cs_endpoint := Some (show_ip ip, port), cs_lines := cs_lines s @ [Endpoint_line]\<rparr>"
    have "conf_loop (map (show_conf_line (show_ip ip) port) ls) ?s =
        Inr (?s\<lparr>cs_section := section_after (cs_section ?s) ls, cs_lines := cs_lines ?s @ ls,
             cs_endpoint := (if Endpoint_line \<in> set ls then Some (show_ip ip, port) else cs_endpoint ?s)\<rparr>)"
      by (rule Cons.IH) (use * Cons.prems(3) in auto)
    with endpoint_text_read [OF *(1,2) Cons.prems(3), of ip] none Endpoint_line show ?thesis
      by (simp add: endpoint_text_def)
  qed
qed

lemma setconf_concat:
  "setconf c ip = concat (map (\<lambda>l. show_conf_line (show_ip ip) (cf_port c) l @ [NL]) (cf_lines c))"
proof -
  have "foldl (\<lambda>out l. out @ show_conf_line a p l @ [NL]) s0 ls =
      s0 @ concat (map (\<lambda>l. show_conf_line a p l @ [NL]) ls)" for a p s0 ls
    by (induction ls arbitrary: s0) auto
  then show ?thesis by (simp add: setconf_def)
qed

lemma kept_line_end: "kept_line t \<Longrightarrow> NL \<notin> set t \<and> last t \<noteq> CR"
proof -
  assume k: "kept_line t"
  then have "\<not> is_ws (last t)" using trim_hd [of t] by (simp add: kept_line_def)
  with k show ?thesis by (auto simp: kept_line_def)
qed

lemma awg_lines_kept:
  "awg_lines sect ls \<Longrightarrow> l \<in> set ls \<Longrightarrow> kept_line (show_conf_line (show_ip ip) port l)"
proof (induction sect ls rule: awg_lines.induct)
  case (2 sect ls)
  then show ?case using endpoint_text_kept [of ip port] by (auto simp: endpoint_text_def)
qed (auto simp del: plain_key.simps split: if_splits)

lemma lines_setconf:
  assumes "awg_lines sect (cf_lines c)"
  shows "lines (setconf c ip) = map (show_conf_line (show_ip ip) (cf_port c)) (cf_lines c)"
proof -
  have "\<forall>l\<in>set ls. kept_line (f l) \<Longrightarrow> lines (concat (map (\<lambda>l. f l @ [NL]) ls)) = map f ls"
    for f :: "conf_line \<Rightarrow> string" and ls
    by (induction ls) (auto simp: lines_append dest!: kept_line_end)
  from this [of "cf_lines c" "show_conf_line (show_ip ip) (cf_port c)"] awg_lines_kept [OF assms]
  show ?thesis by (simp add: setconf_concat)
qed

lemma setconf_reread:
  assumes "Conf_parse txt = Inr c"
  shows "\<exists>s. conf_loop (lines (setconf c ip)) conf_start = Inr s \<and> cs_lines s = cf_lines c \<and>
    cs_endpoint s = Some (show_ip ip, cf_port c) \<and> cs_ignored s = [] \<and> cs_address s = None"
proof -
  obtain s where s: "conf_ok s" "cs_lines s = cf_lines c" "cs_endpoint s = Some (cf_host c, cf_port c)"
    using Conf_parse_ok [OF assms] by metis
  then have ok: "awg_lines (cs_section conf_start) (cf_lines c)" "cf_port c \<le> 65535"
      "length (filter (\<lambda>l. l = Endpoint_line) (cf_lines c)) = 1"
    by (auto simp: conf_ok_def conf_start_def)
  have mem: "Endpoint_line \<in> set (cf_lines c)"
  proof (rule ccontr)
    assume "Endpoint_line \<notin> set (cf_lines c)"
    then have "filter (\<lambda>l. l = Endpoint_line) (cf_lines c) = []" by (auto simp: filter_empty_conv)
    with ok(3) show False by simp
  qed
  have "conf_loop (map (show_conf_line (show_ip ip) (cf_port c)) (cf_lines c)) conf_start =
      Inr (conf_start\<lparr>cs_section := section_after (cs_section conf_start) (cf_lines c),
        cs_lines := cs_lines conf_start @ cf_lines c, cs_endpoint := Some (show_ip ip, cf_port c)\<rparr>)"
    using awg_lines_read [OF ok(1) _ ok(2), of ip] ok(3) mem by (simp add: conf_start_def)
  then show ?thesis
    unfolding lines_setconf [OF ok(1)] by (simp add: conf_start_def)
qed

end
