(* ===== verification/Tunnel.thy ===== *)
theory Tunnel
  imports Tunnel_Conf Command Degraded
begin

text \<open>
  Model of \<open>src/tunnel.rs\<close> past the file: amneziawg-go as a child process, its interface configured
  by commands, and its end. Processes belong to the system: their operations are the record
  \<open>procs\<close>, and \<open>procs_ok\<close> is what the standard library documents of them. Shown: a tunnel that
  fails to come up leaves no process behind, one taken down has ended, the commands run in order
  and the first failure stops them, and the wait for the interface ends.
\<close>

section \<open>Processes\<close>

text \<open>
  A child is known by a handle. \<open>pc_try_wait\<close> gives none while it runs, \<open>pc_wait\<close> whether it ended
  within the limit.
\<close>

record 'w procs =
  pc_now :: "'w \<Rightarrow> instant"
  pc_sleep :: "duration \<Rightarrow> 'w \<Rightarrow> 'w"
  pc_spawn :: "path \<Rightarrow> string list \<Rightarrow> (string \<times> string) list \<Rightarrow> 'w \<Rightarrow> nat io_result \<times> 'w"
  pc_try_wait :: "nat \<Rightarrow> 'w \<Rightarrow> string option io_result \<times> 'w"
  pc_id :: "nat \<Rightarrow> 'w \<Rightarrow> nat option"
  pc_wait :: "nat \<Rightarrow> duration \<Rightarrow> 'w \<Rightarrow> bool \<times> 'w"
  pc_kill :: "nat \<Rightarrow> 'w \<Rightarrow> 'w"
  pc_mkdir :: "path \<Rightarrow> 'w \<Rightarrow> unit io_result \<times> 'w"
  pc_exists :: "path \<Rightarrow> 'w \<Rightarrow> bool"
  pc_if_index :: "string \<Rightarrow> 'w \<Rightarrow> u16 io_result"

text \<open>
  \<open>running\<close> gives the children that have not ended. A start adds at most the child it gives, a kill
  and a wait that ended take theirs out, and nothing else starts one.
\<close>

definition procs_ok :: "'w os \<Rightarrow> 'w procs \<Rightarrow> ('w \<Rightarrow> nat set) \<Rightarrow> bool" where
  "procs_ok os pc running \<longleftrightarrow>
     (\<forall>d w. running (pc_sleep pc d w) \<subseteq> running w) \<and>
     (\<forall>p a v w c w'. pc_spawn pc p a v w = (Inr c, w') \<longrightarrow> running w' \<subseteq> insert c (running w)) \<and>
     (\<forall>p a v w e w'. pc_spawn pc p a v w = (Inl e, w') \<longrightarrow> running w' \<subseteq> running w) \<and>
     (\<forall>c w. running (snd (pc_try_wait pc c w)) \<subseteq> running w) \<and>
     (\<forall>c d w. running (snd (pc_wait pc c d w)) \<subseteq> running w - (if fst (pc_wait pc c d w) then {c} else {})) \<and>
     (\<forall>c w. running (pc_kill pc c w) \<subseteq> running w - {c}) \<and>
     (\<forall>p w. running (snd (pc_mkdir pc p w)) \<subseteq> running w) \<and>
     (\<forall>p a i l w. running (snd (os_exec os p a i l w)) \<subseteq> running w) \<and>
     (\<forall>p w. running (snd (os_remove os p w)) \<subseteq> running w)"

section \<open>A tunnel\<close>

record tools =
  tl_go :: path
  tl_awg :: path
  tl_run_dir :: path

record tunnel =
  tn_name :: string
  tn_index :: u16
  tn_up_at :: instant
  tn_child :: nat
  tn_name_file :: path

definition show_tunnel :: "tunnel \<Rightarrow> string" where
  "show_tunnel t = tn_name t @ ''#'' @ show_nat (unat (tn_index t))"

definition TUNNEL_STEP :: duration where "TUNNEL_STEP = from_secs 10"
definition IFCONFIG :: string where "IFCONFIG = ''/sbin/ifconfig''"
definition ROUTE :: string where "ROUTE = ''/sbin/route''"

text \<open>Commands one after the other; the first that fails ends it.\<close>

fun run_steps :: "'w os \<Rightarrow> (path \<times> string list \<times> string option) list \<Rightarrow> 'w \<Rightarrow> unit io_result \<times> 'w" where
  "run_steps os [] w = (Inr (), w)"
| "run_steps os ((program, args, input) # rest) w =
     (case run os program args input TUNNEL_STEP w of
        (Inl e, w) \<Rightarrow> (Inl e, w)
      | (Inr _, w) \<Rightarrow> run_steps os rest w)"

definition configure_steps :: "tools \<Rightarrow> string \<Rightarrow> conf \<Rightarrow> ipv4 \<Rightarrow> (path \<times> string list \<times> string option) list" where
  "configure_steps tools name conf endpoint =
     (let addr = show_ip (cf_address conf); mtu = show_nat (cf_mtu conf) in
      [(tl_awg tools, [''setconf'', name, ''/dev/stdin''], Some (setconf conf endpoint)),
       (IFCONFIG, [name, ''inet'', addr, addr, ''alias''], None),
       (IFCONFIG, [name, ''mtu'', mtu], None),
       (IFCONFIG, [name, ''up''], None),
       (ROUTE, [''-q'', ''-n'', ''add'', ''-inet'', ''default'', ''-interface'', name, ''-ifscope'', name], None)])"

definition configure ::
    "'w os \<Rightarrow> 'w procs \<Rightarrow> tools \<Rightarrow> string \<Rightarrow> conf \<Rightarrow> ipv4 \<Rightarrow> 'w \<Rightarrow> u16 io_result \<times> 'w" where
  "configure os pc tools name conf endpoint w =
     (case pc_if_index pc name w of
        Inl e \<Rightarrow> (Inl e, w)
      | Inr index \<Rightarrow>
          (case run_steps os (configure_steps tools name conf endpoint) w of
             (Inl e, w) \<Rightarrow> (Inl e, w)
           | (Inr _, w) \<Rightarrow> (Inr index, w)))"

definition listen_port :: "'w os \<Rightarrow> tools \<Rightarrow> tunnel \<Rightarrow> 'w \<Rightarrow> nat option \<times> 'w" where
  "listen_port os tools t w =
     (case run os (tl_awg tools) [''show'', tn_name t, ''listen-port''] None TUNNEL_STEP w of
        (Inl _, w) \<Rightarrow> (None, w)
      | (Inr out, w) \<Rightarrow> (parse_u16 (trim out), w))"

text \<open>\<open>unix\<close>: the seconds of the wall clock once the answer is there.\<close>

definition handshake_age :: "'w os \<Rightarrow> ('w \<Rightarrow> nat) \<Rightarrow> tools \<Rightarrow> tunnel \<Rightarrow> 'w \<Rightarrow> nat option \<times> 'w" where
  "handshake_age os unix tools t w =
     (case run os (tl_awg tools) [''show'', tn_name t, ''latest-handshakes''] None TUNNEL_STEP w of
        (Inl _, w) \<Rightarrow> (None, w)
      | (Inr out, w) \<Rightarrow>
          (Option.bind (get (split_whitespace out) 1) (\<lambda>f.
           Option.bind (parse_u64 f) (\<lambda>at.
           if 0 < at then Some (unix w - at) else None)), w))"

definition exited :: "'w procs \<Rightarrow> tunnel \<Rightarrow> 'w \<Rightarrow> bool \<times> 'w" where
  "exited pc t w = (case pc_try_wait pc (tn_child t) w of (r, w) \<Rightarrow> (r \<noteq> Inr None, w))"

definition tunnel_down :: "'w os \<Rightarrow> 'w procs \<Rightarrow> tunnel \<Rightarrow> 'w \<Rightarrow> 'w" where
  "tunnel_down os pc t w =
     (let (gone, w) = exited pc t w;
          w = (if gone then w
               else snd (run os ROUTE [''-q'', ''-n'', ''delete'', ''-inet'', ''default'', ''-ifscope'', tn_name t]
                      None TUNNEL_STEP w));
          w = (case pc_id pc (tn_child t) w of
                 None \<Rightarrow> w
               | Some pid \<Rightarrow> snd (run os ''/bin/kill'' [''-TERM'', show_nat pid] None TUNNEL_STEP w));
          (ended, w) = pc_wait pc (tn_child t) (from_secs 3) w;
          w = (if ended then w else pc_kill pc (tn_child t) w)
      in snd (os_remove os (tn_name_file t) w))"

section \<open>Coming up\<close>

text \<open>The name amneziawg-go has written, or had before.\<close>

definition name_seen :: "'w os \<Rightarrow> path \<Rightarrow> string option \<Rightarrow> 'w \<Rightarrow> string option" where
  "name_seen os file name w =
     (case name of
        Some n \<Rightarrow> Some n
      | None \<Rightarrow>
          (case os_read os file w of
             Inl _ \<Rightarrow> None
           | Inr txt \<Rightarrow> (let n = trim txt in if n = [] then None else Some n)))"

definition TRIES :: nat where "TRIES = 50"

fun wait_ready ::
    "'w os \<Rightarrow> 'w procs \<Rightarrow> nat \<Rightarrow> path \<Rightarrow> path \<Rightarrow> nat \<Rightarrow> string option \<Rightarrow> 'w \<Rightarrow> string io_result \<times> 'w" where
  "wait_ready os pc child file run_dir 0 name w = (Inl TimedOut, w)"
| "wait_ready os pc child file run_dir (Suc n) name w =
     (let name = name_seen os file name w in
      case (case name of
              Some i \<Rightarrow> if pc_exists pc (path_join run_dir (i @ ''.sock'')) w then Some i else None
            | None \<Rightarrow> None) of
        Some i \<Rightarrow> (Inr i, w)
      | None \<Rightarrow>
          (case pc_try_wait pc child w of
             (Inl e, w) \<Rightarrow> (Inl e, w)
           | (Inr (Some status), w) \<Rightarrow> (Inl (OtherError (''amneziawg-go exited: '' @ status)), w)
           | (Inr None, w) \<Rightarrow>
               wait_ready os pc child file run_dir n name (pc_sleep pc (from_secs 1 div 10) w)))"

definition name_file :: "tools \<Rightarrow> u32 \<Rightarrow> path" where
  "name_file tools sq = path_join (tl_run_dir tools) (''mac-gate-'' @ show_nat (unat sq) @ ''.name'')"

definition tunnel_up ::
    "'w os \<Rightarrow> 'w procs \<Rightarrow> tools \<Rightarrow> conf \<Rightarrow> ipv4 \<Rightarrow> u32 \<Rightarrow> 'w \<Rightarrow> tunnel io_result \<times> 'w" where
  "tunnel_up os pc tools conf endpoint sq w =
     (case pc_mkdir pc (tl_run_dir tools) w of
        (Inl e, w) \<Rightarrow> (Inl e, w)
      | (Inr _, w) \<Rightarrow>
        (let file = name_file tools sq;
             w = snd (os_remove os file w)
         in case pc_spawn pc (tl_go tools) [''-f'', ''utun'']
                   [(''WG_TUN_NAME_FILE'', file), (''LOG_LEVEL'', ''error'')] w of
              (Inl e, w) \<Rightarrow> (Inl e, w)
            | (Inr child, w) \<Rightarrow>
              (case wait_ready os pc child file (tl_run_dir tools) TRIES None w of
                 (Inl e, w) \<Rightarrow> (Inl e, snd (os_remove os file (pc_kill pc child w)))
               | (Inr name, w) \<Rightarrow>
                 (let t = \<lparr>tn_name = name, tn_index = 0, tn_up_at = pc_now pc w, tn_child = child,
                           tn_name_file = file\<rparr>
                  in case configure os pc tools name conf endpoint w of
                       (Inr index, w) \<Rightarrow> (Inr (t\<lparr>tn_index := index\<rparr>), w)
                     | (Inl e, w) \<Rightarrow> (Inl e, tunnel_down os pc t w)))))"

section \<open>Those of a dead daemon\<close>

definition stray_pids :: "'w os \<Rightarrow> tools \<Rightarrow> 'w \<Rightarrow> nat list \<times> 'w" where
  "stray_pids os tools w =
     (case run os ''/usr/bin/pgrep'' [''-f'', ''-x'', tl_go tools @ '' -f utun''] None TUNNEL_STEP w of
        (Inl _, w) \<Rightarrow> ([], w)
      | (Inr out, w) \<Rightarrow> (List.map_filter (parse_uint (2 ^ 32 - 1)) (split_whitespace out), w))"

fun stop_pids :: "'w os \<Rightarrow> nat list \<Rightarrow> 'w \<Rightarrow> 'w" where
  "stop_pids os [] w = w"
| "stop_pids os (p # ps) w =
     stop_pids os ps (snd (run os ''/bin/kill'' [''-TERM'', show_nat p] None TUNNEL_STEP w))"

definition kill_strays :: "'w os \<Rightarrow> tools \<Rightarrow> 'w \<Rightarrow> nat list \<times> 'w" where
  "kill_strays os tools w = (let (pids, w) = stray_pids os tools w in (pids, stop_pids os pids w))"

section \<open>No process is left\<close>

lemma procs_run:
  "procs_ok os pc running \<Longrightarrow> running (snd (run os p a i l w)) \<subseteq> running w"
  by (auto simp: procs_ok_def run_def run_both_def split: child.splits prod.splits sum.splits bool.splits)
    (metis snd_conv subsetD)+

lemma procs_remove: "procs_ok os pc running \<Longrightarrow> running (snd (os_remove os p w)) \<subseteq> running w"
  by (simp add: procs_ok_def)

lemma procs_kill: "procs_ok os pc running \<Longrightarrow> running (pc_kill pc c w) \<subseteq> running w - {c}"
  by (simp add: procs_ok_def)

lemma procs_wait:
  "procs_ok os pc running \<Longrightarrow> pc_wait pc c d w = (ended, w') \<Longrightarrow>
    running w' \<subseteq> running w - (if ended then {c} else {})"
  by (metis (mono_tags, lifting) fst_conv procs_ok_def snd_conv)

lemma procs_try: "procs_ok os pc running \<Longrightarrow> pc_try_wait pc c w = (x, w') \<Longrightarrow> running w' \<subseteq> running w"
  by (metis procs_ok_def snd_conv)

lemma procs_mkdir: "procs_ok os pc running \<Longrightarrow> pc_mkdir pc p w = (x, w') \<Longrightarrow> running w' \<subseteq> running w"
  by (metis procs_ok_def snd_conv)

lemma procs_spawn:
  "procs_ok os pc running \<Longrightarrow> pc_spawn pc p a v w = (x, w') \<Longrightarrow>
    running w' \<subseteq> (case x of Inl e \<Rightarrow> {} | Inr c \<Rightarrow> {c}) \<union> running w"
  unfolding procs_ok_def by (cases x) auto

lemma procs_sleep: "procs_ok os pc running \<Longrightarrow> running (pc_sleep pc d w) \<subseteq> running w"
  by (simp add: procs_ok_def)

lemma procs_exited: "procs_ok os pc running \<Longrightarrow> exited pc t w = (gone, w') \<Longrightarrow> running w' \<subseteq> running w"
  by (cases "pc_try_wait pc (tn_child t) w") (simp add: exited_def procs_try)

lemma procs_steps: "procs_ok os pc running \<Longrightarrow> run_steps os steps w = (r, w') \<Longrightarrow> running w' \<subseteq> running w"
proof (induction os steps w rule: run_steps.induct)
  case (2 os program args input rest w)
  obtain x w1 where x: "run os program args input TUNNEL_STEP w = (x, w1)" by fastforce
  have sub: "running w1 \<subseteq> running w"
    using procs_run [OF 2(2), of program args input TUNNEL_STEP w] by (simp add: x)
  show ?case
  proof (cases x)
    case (Inl e)
    with 2(3) x sub show ?thesis by simp
  next
    case (Inr u)
    with 2(1) [OF x [symmetric] Inr 2(2)] 2(3) x sub show ?thesis by auto
  qed
qed simp

lemma tunnel_down_ends:
  assumes "procs_ok os pc running"
  shows "running (tunnel_down os pc t w) \<subseteq> running w - {tn_child t}"
proof -
  obtain gone w1 where 1: "exited pc t w = (gone, w1)" by fastforce
  define w2 where "w2 = (if gone then w1
    else snd (run os ROUTE [''-q'', ''-n'', ''delete'', ''-inet'', ''default'', ''-ifscope'', tn_name t] None TUNNEL_STEP w1))"
  define w3 where "w3 = (case pc_id pc (tn_child t) w2 of None \<Rightarrow> w2
    | Some pid \<Rightarrow> snd (run os ''/bin/kill'' [''-TERM'', show_nat pid] None TUNNEL_STEP w2))"
  obtain ended w4 where 4: "pc_wait pc (tn_child t) (from_secs 3) w3 = (ended, w4)" by fastforce
  have "running w1 \<subseteq> running w" by (rule procs_exited [OF assms 1])
  moreover have "running w2 \<subseteq> running w1" using procs_run [OF assms] by (auto simp: w2_def)
  moreover have "running w3 \<subseteq> running w2" using procs_run [OF assms] by (auto simp: w3_def split: option.split)
  ultimately have 3: "running w3 \<subseteq> running w" by blast
  have "running (if ended then w4 else pc_kill pc (tn_child t) w4) \<subseteq> running w - {tn_child t}"
    using 3 procs_wait [OF assms 4] procs_kill [OF assms, of "tn_child t" w4] by (auto split: if_splits)
  moreover have "tunnel_down os pc t w = snd (os_remove os (tn_name_file t) (if ended then w4 else pc_kill pc (tn_child t) w4))"
    unfolding tunnel_down_def 1 Let_def prod.case w2_def [symmetric] w3_def [symmetric] 4 ..
  ultimately show ?thesis using procs_remove [OF assms] by fastforce
qed

lemma wait_ready_procs:
  "procs_ok os pc running \<Longrightarrow> wait_ready os pc child file dir n name w = (r, w') \<Longrightarrow> running w' \<subseteq> running w"
proof (induction n arbitrary: name w)
  case (Suc n)
  obtain x w1 where x: "pc_try_wait pc child w = (x, w1)" by fastforce
  note try_wait = procs_try [OF Suc.prems(1) x] procs_sleep [OF Suc.prems(1), of _ w1]
  show ?case
    using Suc.prems(2) Suc.IH [OF Suc.prems(1)] try_wait
    by (auto simp: Let_def x split: option.splits sum.splits if_splits) blast+
qed simp

lemma tunnel_up_procs:
  assumes "procs_ok os pc running" "tunnel_up os pc tools conf endpoint sq w = (r, w')"
  shows "running w' \<subseteq> running w \<union> (case r of Inl _ \<Rightarrow> {} | Inr t \<Rightarrow> {tn_child t})"
proof -
  obtain x1 w1 where 1: "pc_mkdir pc (tl_run_dir tools) w = (x1, w1)" by fastforce
  note s1 = procs_mkdir [OF assms(1) 1]
  let ?f = "name_file tools sq"
  let ?w2 = "snd (os_remove os ?f w1)"
  have s2: "running ?w2 \<subseteq> running w" using s1 procs_remove [OF assms(1)] by blast
  obtain x3 w3 where 3: "pc_spawn pc (tl_go tools) [''-f'', ''utun'']
      [(''WG_TUN_NAME_FILE'', ?f), (''LOG_LEVEL'', ''error'')] ?w2 = (x3, w3)" by fastforce
  consider (dir) e where "x1 = Inl e" | (spawn) u e where "x1 = Inr u" "x3 = Inl e"
    | (child) u c where "x1 = Inr u" "x3 = Inr c" by (cases x1; cases x3) auto
  then show ?thesis
  proof cases
    case dir
    with assms(2) 1 s1 show ?thesis by (auto simp: tunnel_up_def)
  next
    case spawn
    then have "running w3 \<subseteq> running ?w2" using procs_spawn [OF assms(1) 3] by simp
    with spawn assms(2) 1 3 s2 show ?thesis by (auto simp: tunnel_up_def)
  next
    case child
    then have s3: "running w3 \<subseteq> insert c (running w)"
      using procs_spawn [OF assms(1) 3] s2 by auto
    obtain x4 w4 where 4: "wait_ready os pc c ?f (tl_run_dir tools) TRIES None w3 = (x4, w4)" by fastforce
    have s4: "running w4 \<subseteq> insert c (running w)" using wait_ready_procs [OF assms(1) 4] s3 by blast
    show ?thesis
    proof (cases x4)
      case (Inl e)
      have "running (snd (os_remove os ?f (pc_kill pc c w4))) \<subseteq> running w"
        using procs_remove [OF assms(1)] procs_kill [OF assms(1)] s4 by blast
      with Inl assms(2) 1 3 4 child show ?thesis by (auto simp: tunnel_up_def)
    next
      case (Inr name)
      let ?t = "\<lparr>tn_name = name, tn_index = 0, tn_up_at = pc_now pc w4, tn_child = c, tn_name_file = ?f\<rparr>"
      obtain x5 w5 where 5: "configure os pc tools name conf endpoint w4 = (x5, w5)" by fastforce
      have "running w5 \<subseteq> running w4"
        using 5 by (auto simp: configure_def split: sum.splits prod.splits dest: procs_steps [OF assms(1)])
      with s4 have s5: "running w5 \<subseteq> insert c (running w)" by blast
      show ?thesis
      proof (cases x5)
        case (Inl e)
        have "running (tunnel_down os pc ?t w5) \<subseteq> running w"
          using tunnel_down_ends [OF assms(1), of ?t w5] s5 by auto
        with Inl Inr assms(2) 1 3 4 5 child show ?thesis by (auto simp: tunnel_up_def)
      next
        case (Inr index)
        with \<open>x4 = Inr name\<close> assms(2) 1 3 4 5 child have
          "r = Inr (?t\<lparr>tn_index := index\<rparr>)" "w' = w5"
          by (auto simp: tunnel_up_def)
        with s5 show ?thesis by auto
      qed
    qed
  qed
qed

section \<open>A tunnel that came up\<close>

text \<open>Each command ran where the one before it had ended, and ended in time with success.\<close>

fun steps_ran :: "'w os \<Rightarrow> (path \<times> string list \<times> string option) list \<Rightarrow> 'w \<Rightarrow> 'w \<Rightarrow> bool" where
  "steps_ran os [] w w' \<longleftrightarrow> w' = w"
| "steps_ran os ((program, args, input) # rest) w w' \<longleftrightarrow>
     (\<exists>w1 status out err.
       os_exec os program args input TUNNEL_STEP w = (Exited True status out err, w1) \<and> steps_ran os rest w1 w')"

lemma run_steps_all: "run_steps os steps w = (Inr u, w') \<longleftrightarrow> steps_ran os steps w w'"
proof (induction os steps w rule: run_steps.induct)
  case (2 os p a i rest w)
  obtain x w1 where x: "run os p a i TUNNEL_STEP w = (x, w1)" by fastforce
  show ?case
  proof (cases x)
    case (Inl e)
    then have "os_exec os p a i TUNNEL_STEP w \<noteq> (Exited True status out err, w2)" for status out err w2
      using x by (auto simp: run_def run_both_def)
    with Inl x show ?thesis by simp
  next
    case (Inr out)
    from x [unfolded Inr run_Inr] obtain status err where
      e: "os_exec os p a i TUNNEL_STEP w = (Exited True status out err, w1)" by blast
    from 2 [OF x [symmetric] Inr] show ?thesis by (simp add: x Inr e)
  qed
qed auto

lemma wait_ready_name:
  "wait_ready os pc child file dir n name w = (Inr i, w') \<Longrightarrow>
    pc_exists pc (path_join dir (i @ ''.sock'')) w' \<and> (name = Some i \<or> name = None \<and> i \<noteq> [])"
proof (induction n arbitrary: name w)
  case (Suc n)
  let ?name = "name_seen os file name w"
  have seen: "name = Some j \<or> name = None \<and> j \<noteq> []" if "?name = Some j" for j
    using that by (auto simp: name_seen_def Let_def split: option.splits sum.splits if_splits)
  show ?case
  proof (cases "\<exists>j. ?name = Some j \<and> pc_exists pc (path_join dir (j @ ''.sock'')) w")
    case True
    then obtain j where j: "?name = Some j" "pc_exists pc (path_join dir (j @ ''.sock'')) w" by blast
    with Suc.prems have "i = j" "w' = w" by (auto simp: Let_def)
    with j seen show ?thesis by blast
  next
    case False
    then have none: "(case ?name of Some i \<Rightarrow> if pc_exists pc (path_join dir (i @ ''.sock'')) w then Some i else None
        | None \<Rightarrow> None) = None" by (auto split: option.splits)
    obtain x w1 where x: "pc_try_wait pc child w = (x, w1)" by fastforce
    from Suc.prems none x have "wait_ready os pc child file dir n ?name (pc_sleep pc (from_secs 1 div 10) w1) = (Inr i, w')"
      by (auto simp: Let_def split: sum.splits option.splits)
    from Suc.IH [OF this] seen [of i] show ?thesis
      by (auto simp: name_seen_def split: option.splits sum.splits)
  qed
qed simp

lemma tunnel_up_ready:
  assumes "tunnel_up os pc tools conf endpoint sq w = (Inr t, w')"
  shows "tn_name_file t = name_file tools sq \<and> tn_name t \<noteq> [] \<and>
    (\<exists>w1. pc_exists pc (path_join (tl_run_dir tools) (tn_name t @ ''.sock'')) w1 \<and>
      pc_if_index pc (tn_name t) w1 = Inr (tn_index t) \<and> tn_up_at t = pc_now pc w1 \<and>
      steps_ran os (configure_steps tools (tn_name t) conf endpoint) w1 w')"
proof -
  obtain c w3 name w4 index where
    4: "wait_ready os pc c (name_file tools sq) (tl_run_dir tools) TRIES None w3 = (Inr name, w4)" and
    5: "configure os pc tools name conf endpoint w4 = (Inr index, w')" and
    t: "t = \<lparr>tn_name = name, tn_index = index, tn_up_at = pc_now pc w4, tn_child = c, tn_name_file = name_file tools sq\<rparr>"
    using assms by (auto simp: tunnel_up_def Let_def split: sum.splits prod.splits)
  from 5 obtain u where c: "pc_if_index pc name w4 = Inr index"
      "run_steps os (configure_steps tools name conf endpoint) w4 = (Inr u, w')"
    by (auto simp: configure_def split: sum.splits prod.splits)
  show ?thesis
    using wait_ready_name [OF 4] c(1) c(2) [unfolded run_steps_all] by (auto simp: t simp del: steps_ran.simps)
qed

end
