(* ===== verification/Link.thy ===== *)
theory Link
  imports Tunnel Kill_Switch
begin

text \<open>
  Model of \<open>src/link.rs\<close>: one tunnel kept up. Its state, the steps of its task, the connects and
  the checks. Lines of the journal are left out, and with them what is computed for them alone.

  A link is one task: its own state is changed by nobody else. At every wait the other tasks run,
  and \<open>en_others\<close> is what they do to the resolver and the world; a method of a tunnel, which does
  not touch the resolver, is one wait. The channels of the watch (the network, what it tells the
  links), the counter that numbers the tunnels and the clocks are read from the world.
\<close>

section \<open>State\<close>

definition FRESH :: duration where "FRESH = from_mins 2"
definition FAST :: duration where "FAST = from_secs 5"
definition SLOW :: duration where "SLOW = from_secs 30"
definition CONFIRM :: duration where "CONFIRM = from_secs 10"
definition PING :: duration where "PING = from_secs 2"
definition WAKE_PING :: duration where "WAKE_PING = from_secs 1"
definition TLS :: duration where "TLS = from_secs 15"
definition FRESH_TLS :: duration where "FRESH_TLS = from_secs 3"
definition DIRECT_TLS :: duration where "DIRECT_TLS = from_secs 5"
definition FAST_TRIES :: nat where "FAST_TRIES = 5"
definition PAUSES :: "nat list" where "PAUSES = [30, 60, 120]"
definition STABLE :: duration where "STABLE = from_mins 2"
definition CUT_WINDOW :: duration where "CUT_WINDOW = from_secs 4"
definition CUT_PACKETS :: nat where "CUT_PACKETS = 3"

record ctl =
  ct_wanted :: bool
  ct_wakes :: nat
  ct_stop :: bool

datatype next_check = Next_Usual | Next_Cut | Next_Woke

datatype found = Found_Ping duration | Found_Tls duration

type_synonym samples = "(instant \<times> nat \<times> nat) list"

record link =
  lk_id :: nat
  lk_conf :: conf
  lk_tunnel :: "tunnel option"
  lk_generation :: u32
  lk_failures :: nat
  lk_connect_at :: "instant option"
  lk_confirmed :: "instant option"
  lk_fresh_until :: instant
  lk_check_at :: instant
  lk_samples :: samples
  lk_cut_quiet_until :: instant
  lk_next :: next_check
  lk_offline :: bool
  lk_network :: "network option"
  lk_wakes :: nat
  lk_pending :: "(string \<times> instant) option"
  lk_works :: "instant option"
  lk_health :: health
  lk_degradation :: degradation
  lk_after_degraded :: bool
  lk_rx_seen :: "nat option"
  lk_disturbed_at :: instant
  lk_since :: "instant option"
  lk_pinged :: bool
  lk_endpoint :: "ipv4 option"
  lk_published :: link_state

text \<open>
  What a link uses. \<open>le_disturbed\<close> is the race of a probe with the channels: the world in which
  the network moved or a wake was told before a probe begun in a world was over, or none.
\<close>

record ('k, 'w) link_env =
  le_env :: "('k, 'w) env"
  le_procs :: "'w procs"
  le_tools :: tools
  le_icmp :: "'w icmp"
  le_pid :: u32
  le_nanos :: "'w \<Rightarrow> u32"
  le_tenths :: "duration \<Rightarrow> string"
  le_wall :: "'w \<Rightarrow> nat"
  le_ctl :: "'w \<Rightarrow> ctl"
  le_net :: "'w \<Rightarrow> network option"
  le_disturbed :: "nat \<Rightarrow> 'w \<Rightarrow> 'w option"
  le_seq :: "'w \<Rightarrow> u32"
  le_set_seq :: "u32 \<Rightarrow> 'w \<Rightarrow> 'w"

definition le_now :: "('k, 'w) link_env \<Rightarrow> 'w \<Rightarrow> instant" where
  "le_now le w = pc_now (le_procs le) w"

definition le_os :: "('k, 'w) link_env \<Rightarrow> 'w os" where
  "le_os le = en_os (le_env le)"

definition le_others :: "('k, 'w) link_env \<Rightarrow> 'k resolver \<times> 'w \<Rightarrow> 'k resolver \<times> 'w" where
  "le_others le = en_others (le_env le)"

text \<open>A link with the resolver and the world.\<close>

type_synonym ('k, 'w) lk = "link \<times> 'k resolver \<times> 'w"

definition Link_new :: "('k, 'w) link_env \<Rightarrow> nat \<Rightarrow> conf \<Rightarrow> 'w \<Rightarrow> link" where
  "Link_new le i c w =
     (let now = le_now le w in
      \<lparr>lk_id = i, lk_conf = c, lk_tunnel = None, lk_generation = 0, lk_failures = 0,
       lk_connect_at = Some now, lk_confirmed = None, lk_fresh_until = now, lk_check_at = now,
       lk_samples = [], lk_cut_quiet_until = now, lk_next = Next_Usual, lk_offline = False,
       lk_network = le_net le w, lk_wakes = ct_wakes (le_ctl le w), lk_pending = Some (''start'', now),
       lk_works = None, lk_health = Health_Down, lk_degradation = Degradation_new GRACE,
       lk_after_degraded = False, lk_rx_seen = None, lk_disturbed_at = now, lk_since = None,
       lk_pinged = False, lk_endpoint = endpoint_ip c, lk_published = LinkState_default\<rparr>)"

definition with_grace :: "duration \<Rightarrow> link \<Rightarrow> link" where
  "with_grace g l = l\<lparr>lk_degradation := Degradation_new g\<rparr>"

definition link_state_of :: "link \<Rightarrow> link_state" where
  "link_state_of l =
     \<lparr>ls_iface = map_option (\<lambda>t. \<lparr>if_name = tn_name t, if_index = tn_index t\<rparr>) (lk_tunnel l),
      ls_generation = lk_generation l, ls_health = lk_health l, ls_works = (lk_works l \<noteq> None),
      ls_since = lk_since l, ls_endpoint = lk_endpoint l\<rparr>"

definition link_sync :: "('k, 'w) link_env \<Rightarrow> ('k, 'w) lk \<Rightarrow> ('k, 'w) lk" where
  "link_sync le s =
     (case s of (l, r, w) \<Rightarrow>
        (let state = link_state_of l in
         if state = lk_published l then (l, r, w)
         else (let r = reconcile (en_kernel (le_env le)) (le_now le w) (set_link (lk_id l) state r);
                   (res, r, w) = sync_pf (le_env le) r w
               in (l\<lparr>lk_published := state\<rparr>, r, w))))"

section \<open>Marks\<close>

definition link_fresh :: "instant \<Rightarrow> link \<Rightarrow> link" where
  "link_fresh now l = l\<lparr>lk_fresh_until := now + FRESH, lk_check_at := min (lk_check_at l) now\<rparr>"

definition retry_now :: "instant \<Rightarrow> link \<Rightarrow> link" where
  "retry_now now l = (if lk_connect_at l \<noteq> None then l\<lparr>lk_failures := 0, lk_connect_at := Some now\<rparr> else l)"

definition get_or_insert :: "'a \<Rightarrow> 'a option \<Rightarrow> 'a option" where
  "get_or_insert x o' = (case o' of None \<Rightarrow> Some x | Some y \<Rightarrow> Some y)"

definition link_woke :: "instant \<Rightarrow> link \<Rightarrow> link" where
  "link_woke now l =
     (let l = link_fresh now (l\<lparr>lk_disturbed_at := now\<rparr>);
          l = retry_now now (l\<lparr>lk_next := Next_Woke, lk_pending := Some (''wake'', now)\<rparr>)
      in l\<lparr>lk_works := Some now\<rparr>)"

definition follow_network :: "network option \<Rightarrow> instant \<Rightarrow> link \<Rightarrow> link" where
  "follow_network n now l =
     (let l = link_fresh now (l\<lparr>lk_network := n, lk_disturbed_at := now\<rparr>);
          l = l\<lparr>lk_pending := get_or_insert (''network'', now) (lk_pending l)\<rparr>;
          l = (if n \<noteq> None then retry_now now l else l)
      in l\<lparr>lk_works := Some now\<rparr>)"

definition unhealthy :: "link \<Rightarrow> link" where
  "unhealthy l = l\<lparr>lk_health := Health_Down, lk_since := None\<rparr>"

definition healthy :: "instant \<Rightarrow> link \<Rightarrow> link" where
  "healthy now l =
     (let l = l\<lparr>lk_degradation := deg_passed (lk_degradation l)\<rparr>;
          l = (if lk_health l \<noteq> Health_Up \<or> lk_since l = None
               then (link_fresh now (l\<lparr>lk_since := Some now\<rparr>))\<lparr>lk_check_at := now + FAST\<rparr> else l)
      in l\<lparr>lk_health := Health_Up\<rparr>)"

definition lost :: "instant \<Rightarrow> link \<Rightarrow> link" where
  "lost now l =
     (unhealthy l)\<lparr>lk_confirmed := None, lk_connect_at := Some now,
       lk_pending := get_or_insert (''reconnect'', now) (lk_pending l)\<rparr>"

definition recovered :: "link \<Rightarrow> link" where
  "recovered l = l\<lparr>lk_pending := None\<rparr>"

text \<open>The pause after so many failures in a row, in seconds.\<close>

definition pause_secs :: "nat \<Rightarrow> nat" where
  "pause_secs failures =
     (case opt_or (get PAUSES (failures - FAST_TRIES)) (if PAUSES = [] then None else Some (last PAUSES)) of
        None \<Rightarrow> 0 | Some s \<Rightarrow> s)"

definition link_failed :: "instant \<Rightarrow> link \<Rightarrow> link" where
  "link_failed now l =
     (let l = unhealthy l; l = l\<lparr>lk_failures := lk_failures l + 1\<rparr> in
      if lk_failures l < FAST_TRIES then l\<lparr>lk_connect_at := Some now\<rparr>
      else l\<lparr>lk_connect_at := Some (now + from_secs (pause_secs (lk_failures l)))\<rparr>)"

text \<open>A tunnel taken down, and what the others did while it went.\<close>

definition take_down ::
    "('k, 'w) link_env \<Rightarrow> tunnel \<Rightarrow> 'k resolver \<Rightarrow> 'w \<Rightarrow> 'k resolver \<times> 'w" where
  "take_down le t r w = le_others le (r, tunnel_down (le_os le) (le_procs le) t w)"

definition link_down :: "('k, 'w) link_env \<Rightarrow> ('k, 'w) lk \<Rightarrow> ('k, 'w) lk" where
  "link_down le s =
     (case s of (l, r, w) \<Rightarrow>
        (let (r, w) = (case lk_tunnel l of None \<Rightarrow> (r, w) | Some t \<Rightarrow> take_down le t r w);
             l = unhealthy (l\<lparr>lk_tunnel := None\<rparr>)
         in link_sync le (l\<lparr>lk_confirmed := None\<rparr>, r, w)))"

section \<open>Probes\<close>

text \<open>
  A probe that was neither cut short by a new network or a wake nor sat out a sleep; none
  otherwise. The two clocks are read before it and after it.
\<close>

definition undisturbed ::
    "('k, 'w) link_env \<Rightarrow> link \<Rightarrow> ('w \<Rightarrow> 'a \<times> 'w) \<Rightarrow> 'k resolver \<Rightarrow> 'w \<Rightarrow> 'a option \<times> 'k resolver \<times> 'w" where
  "undisturbed le l probe r w =
     (let ck = \<lparr>ck_wall = le_wall le w, ck_mono = le_now le w\<rparr>;
          (found, w) = (case le_disturbed le (lk_wakes l) w of
              Some w' \<Rightarrow> (None, w')
            | None \<Rightarrow> (let (v, w) = probe w in (Some v, w)));
          (r, w) = le_others le (r, w)
      in case fst (Clock_slept (le_wall le w) (le_now le w) ck) of
           Some _ \<Rightarrow> (None, r, w)
         | None \<Rightarrow> (found, r, w))"

definition link_ping ::
    "('k, 'w) link_env \<Rightarrow> u32 option \<Rightarrow> ipv4 list \<Rightarrow> duration \<Rightarrow> 'w \<Rightarrow> duration option \<times> 'w" where
  "link_ping le bound targets limit w = ping (le_icmp le) (le_pid le) (le_nanos le w) bound targets limit w"

definition link_tls :: "('k, 'w) link_env \<Rightarrow> string \<Rightarrow> duration \<Rightarrow> 'w \<Rightarrow> bool \<times> 'w" where
  "link_tls le iface limit w = tls (le_os le) (le_tenths le) iface limit w"

definition link_counters ::
    "('k, 'w) link_env \<Rightarrow> string \<Rightarrow> 'k resolver \<Rightarrow> 'w \<Rightarrow> counters option \<times> 'k resolver \<times> 'w" where
  "link_counters le iface r w =
     (let (c, w) = counters_of (le_os le) iface w in (c, le_others le (r, w)))"

text \<open>The samples: the newest one a window old, and those after it.\<close>

fun drop_old :: "instant \<Rightarrow> samples \<Rightarrow> samples" where
  "drop_old now (a # b # rest) = (if CUT_WINDOW \<le> now - fst b then drop_old now (b # rest) else a # b # rest)"
| "drop_old now xs = xs"

definition is_cut :: "instant \<Rightarrow> nat \<Rightarrow> nat \<Rightarrow> samples \<Rightarrow> bool" where
  "is_cut now rx tx xs =
     (case xs of
        [] \<Rightarrow> False
      | (at, rx0, tx0) # _ \<Rightarrow> CUT_WINDOW \<le> now - at \<and> rx = rx0 \<and> CUT_PACKETS \<le> tx - tx0)"

definition cut_seen :: "('k, 'w) link_env \<Rightarrow> ('k, 'w) lk \<Rightarrow> bool \<times> ('k, 'w) lk" where
  "cut_seen le s =
     (case s of (l, r, w) \<Rightarrow>
        (case lk_tunnel l of
           None \<Rightarrow> (False, l, r, w)
         | Some t \<Rightarrow>
             (case link_counters le (tn_name t) r w of
                (None, r, w) \<Rightarrow> (False, l, r, w)
              | (Some c, r, w) \<Rightarrow>
                  (let now = le_now le w;
                       xs = drop_old now (lk_samples l @ [(now, rx_packets c, tx_packets c)])
                   in (is_cut now (rx_packets c) (tx_packets c) xs, l\<lparr>lk_samples := xs\<rparr>, r, w)))))"

definition rx_grew :: "('k, 'w) link_env \<Rightarrow> string \<Rightarrow> ('k, 'w) lk \<Rightarrow> bool \<times> ('k, 'w) lk" where
  "rx_grew le name s =
     (case s of (l, r, w) \<Rightarrow>
        (case link_counters le name r w of
           (None, r, w) \<Rightarrow> (False, l, r, w)
         | (Some c, r, w) \<Rightarrow>
             (case lk_rx_seen l of None \<Rightarrow> False | Some was \<Rightarrow> was < rx_bytes c,
              l\<lparr>lk_rx_seen := Some (rx_bytes c)\<rparr>, r, w)))"

section \<open>Connecting\<close>

definition link_endpoint :: "('k, 'w) link_env \<Rightarrow> link \<Rightarrow> 'k resolver \<Rightarrow> 'w \<Rightarrow> ipv4 io_result \<times> 'k resolver \<times> 'w" where
  "link_endpoint le l r w =
     (case endpoint_ip (lk_conf l) of
        Some ip \<Rightarrow> (Inr ip, r, w)
      | None \<Rightarrow>
          (case lk_network l of
             None \<Rightarrow> (Inl (OtherError ''no network''), r, w)
           | Some n \<Rightarrow>
               (let (res, w) = resolve_ipv4 (en_net (le_env le)) (en_lib (le_env le)) (le_nanos le w)
                      (Network_upstream n) (cf_host (lk_conf l)) w
                in (res, le_others le (r, w)))))"

text \<open>The handshake and the counters, asked for the journal.\<close>

definition tunnel_seen :: "('k, 'w) link_env \<Rightarrow> link \<Rightarrow> 'k resolver \<Rightarrow> 'w \<Rightarrow> string \<times> 'k resolver \<times> 'w" where
  "tunnel_seen le l r w =
     (case lk_tunnel l of
        None \<Rightarrow> (''no tunnel'', r, w)
      | Some t \<Rightarrow>
          (let (age, w) = handshake_age (le_os le) (en_unix (le_env le)) (le_tools le) t w;
               (r, w) = le_others le (r, w);
               (c, r, w) = link_counters le (tn_name t) r w
           in (''handshake='' @ (case age of None \<Rightarrow> ''none'' | Some n \<Rightarrow> show_nat n @ ''s'') @ '' '' @
               (case c of None \<Rightarrow> ''?'' | Some c \<Rightarrow> ''rx='' @ show_nat (rx_bytes c) @ '' tx='' @ show_nat (tx_bytes c)),
               r, w)))"

text \<open>
  \<open>harder\<close> panics past the largest duration. Under the invariant of a link it does not
  (\<open>harder_link\<close> below), and the model leaves the patience as it is there.
\<close>

definition harder_or_same :: "degradation \<Rightarrow> degradation" where
  "harder_or_same d = (case deg_harder d of None \<Rightarrow> d | Some d' \<Rightarrow> d')"

text \<open>The end of a connect: what the TLS through the new tunnel found.\<close>

definition confirm ::
    "('k, 'w) link_env \<Rightarrow> bool \<Rightarrow> bool option \<Rightarrow> ('k, 'w) lk \<Rightarrow> ('k, 'w) lk" where
  "confirm le after_degraded found s =
     (case s of (l, r, w) \<Rightarrow>
        (case found of
           Some True \<Rightarrow>
             (let now = le_now le w;
                  l = healthy now (l\<lparr>lk_connect_at := None, lk_confirmed := Some now\<rparr>)
              in (recovered (l\<lparr>lk_samples := [], lk_next := Next_Usual, lk_offline := False, lk_works := None\<rparr>), r, w))
         | Some False \<Rightarrow>
             (let (seen, r, w) = tunnel_seen le l r w in
              (if after_degraded
               then l\<lparr>lk_degradation := harder_or_same (lk_degradation l), lk_connect_at := None,
                      lk_check_at := le_now le w + YOUNG, lk_next := Next_Usual\<rparr>
               else link_failed (le_now le w) l, r, w))
         | None \<Rightarrow> (follow_network (le_net le w) (le_now le w) (l\<lparr>lk_connect_at := Some (le_now le w)\<rparr>), r, w)))"

text \<open>The new tunnel is up: it takes the routes over, then the old one goes.\<close>

definition hand_over :: "('k, 'w) link_env \<Rightarrow> tunnel \<Rightarrow> ('k, 'w) lk \<Rightarrow> ('k, 'w) lk" where
  "hand_over le new s =
     (case s of (l, r, w) \<Rightarrow>
        (let (port, w) = listen_port (le_os le) (le_tools le) new w;
             (r, w) = le_others le (r, w);
             l = l\<lparr>lk_tunnel := Some new\<rparr>;
             (c, r, w) = link_counters le (tn_name new) r w;
             l = unhealthy (l\<lparr>lk_rx_seen := map_option rx_bytes c\<rparr>)
         in link_sync le (l\<lparr>lk_pinged := False\<rparr>, r, w)))"

definition retire :: "('k, 'w) link_env \<Rightarrow> tunnel option \<Rightarrow> ('k, 'w) lk \<Rightarrow> ('k, 'w) lk" where
  "retire le old s =
     (case s of (l, r, w) \<Rightarrow> (case old of None \<Rightarrow> (l, r, w) | Some t \<Rightarrow> (l, take_down le t r w)))"

definition connect_up :: "('k, 'w) link_env \<Rightarrow> bool \<Rightarrow> tunnel \<Rightarrow> ('k, 'w) lk \<Rightarrow> ('k, 'w) lk" where
  "connect_up le after_degraded new s =
     (let (l, r, w) = retire le (lk_tunnel (fst s)) (hand_over le new s);
          (found, r, w) = undisturbed le l (link_tls le (tn_name new) CONFIRM) r w
      in confirm le after_degraded found (l, r, w))"

definition connect :: "('k, 'w) link_env \<Rightarrow> ('k, 'w) lk \<Rightarrow> ('k, 'w) lk" where
  "connect le s =
     (case s of (l, r, w) \<Rightarrow>
        (let after_degraded = lk_after_degraded l;
             sq = le_seq le w + 1;
             w = le_set_seq le sq w;
             l = l\<lparr>lk_after_degraded := False, lk_generation := sq\<rparr>
         in case link_endpoint le l r w of
              (Inl e, r, w) \<Rightarrow> (link_failed (le_now le w) l, r, w)
            | (Inr ip, r, w) \<Rightarrow>
                (let (l, r, w) = link_sync le (l\<lparr>lk_endpoint := Some ip\<rparr>, r, w);
                     (res, w) = tunnel_up (le_os le) (le_procs le) (le_tools le) (lk_conf l) ip sq w;
                     (r, w) = le_others le (r, w)
                 in case res of
                      Inl e \<Rightarrow> (link_failed (le_now le w) l, r, w)
                    | Inr new \<Rightarrow> connect_up le after_degraded new (l, r, w))))"

section \<open>Checking\<close>

definition aborted :: "('k, 'w) link_env \<Rightarrow> next_check \<Rightarrow> ('k, 'w) lk \<Rightarrow> ('k, 'w) lk" where
  "aborted le nx s =
     (case s of (l, r, w) \<Rightarrow>
        (follow_network (le_net le w) (le_now le w) (l\<lparr>lk_next := nx, lk_check_at := le_now le w\<rparr>), r, w))"

text \<open>What a link takes the tunnel for when no probe gets through.\<close>

definition link_carrying :: "('k, 'w) link_env \<Rightarrow> bool \<Rightarrow> link \<Rightarrow> 'k resolver \<Rightarrow> 'w \<Rightarrow> bool \<times> 'k resolver \<times> 'w" where
  "link_carrying le grew l r w =
     (case lk_tunnel l of
        None \<Rightarrow> (False, r, w)
      | Some t \<Rightarrow>
          (let age = tunnel_age (tn_up_at t) (lk_disturbed_at l) (le_now le w);
               (hs, w) = handshake_age (le_os le) (en_unix (le_env le)) (le_tools le) t w
           in (carrying age hs grew, le_others le (r, w))))"

definition link_degraded :: "('k, 'w) link_env \<Rightarrow> bool \<Rightarrow> ('k, 'w) lk \<Rightarrow> bool \<times> ('k, 'w) lk" where
  "link_degraded le grew s =
     (case s of (l, r, w) \<Rightarrow>
        (let (carries, r, w) = link_carrying le grew l r w;
             (v, d) = deg_failed (lk_degradation l) (le_now le w) carries;
             l = l\<lparr>lk_degradation := d\<rparr>
         in case v of
              Verdict_Left age \<Rightarrow> (True, l\<lparr>lk_health := Health_Degraded, lk_since := None\<rparr>, r, w)
            | Verdict_Restart \<Rightarrow> (True, lost (le_now le w) (l\<lparr>lk_after_degraded := True\<rparr>), r, w)
            | Verdict_Down \<Rightarrow> (False, l, r, w)))"

text \<open>Past the tunnel: targets that are not routed into one, when there are such.\<close>

definition direct_targets :: "'k resolver \<Rightarrow> ipv4 list" where
  "direct_targets r =
     (let free = filter (\<lambda>t. \<not> covers t r) TARGETS in if free = [] then TARGETS else free)"

definition direct :: "('k, 'w) link_env \<Rightarrow> link \<Rightarrow> 'k resolver \<Rightarrow> 'w \<Rightarrow> bool \<times> 'w" where
  "direct le l r w =
     (case lk_network l of
        None \<Rightarrow> (False, w)
      | Some n \<Rightarrow>
          (case link_ping le (Network_bound n) (direct_targets r) PING w of
             (Some _, w) \<Rightarrow> (True, w)
           | (None, w) \<Rightarrow> link_tls le (nw_iface n) DIRECT_TLS w))"

text \<open>The probes of a check: none when disturbed, else what answered, if anything did.\<close>

definition suspect :: "('k, 'w) link_env \<Rightarrow> ('k, 'w) lk \<Rightarrow> ('k, 'w) lk" where
  "suspect le s =
     (case s of (l, r, w) \<Rightarrow>
        (if lk_pinged l \<and> lk_health l = Health_Up
         then link_sync le (l\<lparr>lk_health := Health_Suspect, lk_since := None\<rparr>, r, w) else (l, r, w)))"

definition probes ::
    "('k, 'w) link_env \<Rightarrow> tunnel \<Rightarrow> duration \<Rightarrow> duration option \<Rightarrow> bool \<Rightarrow> ('k, 'w) lk \<Rightarrow>
      found option option \<times> ('k, 'w) lk" where
  "probes le t ping_limit tls_limit was_cut s =
     (case s of (l, r, w) \<Rightarrow>
        (let start = le_now le w in
         case undisturbed le l (link_ping le (nonzero (ucast (tn_index t))) TARGETS ping_limit) r w of
           (None, r, w) \<Rightarrow> (None, l, r, w)
         | (Some (Some rtt), r, w) \<Rightarrow> (Some (Some (Found_Ping rtt)), l\<lparr>lk_pinged := True\<rparr>, r, w)
         | (Some None, r, w) \<Rightarrow>
             (case (if was_cut then None else tls_limit) of
                None \<Rightarrow> (Some None, l, r, w)
              | Some limit \<Rightarrow>
                  (case suspect le (l, r, w) of (l, r, w) \<Rightarrow>
                    (case undisturbed le l (link_tls le (tn_name t) limit) r w of
                       (None, r, w) \<Rightarrow> (None, l, r, w)
                     | (Some ok, r, w) \<Rightarrow>
                         (Some (if ok then Some (Found_Tls (le_now le w - start)) else None), l, r, w))))))"

text \<open>\<open>report\<close>: a line for the journal, and whether anything answered.\<close>

definition link_report :: "found option \<Rightarrow> bool" where
  "link_report f = (case f of Some (Found_Ping rtt) \<Rightarrow> True | Some (Found_Tls took) \<Rightarrow> True | None \<Rightarrow> False)"

text \<open>A check that passed, and one that did not.\<close>

definition check_passed :: "('k, 'w) link_env \<Rightarrow> bool \<Rightarrow> ('k, 'w) lk \<Rightarrow> ('k, 'w) lk" where
  "check_passed le was_cut s =
     (case s of (l, r, w) \<Rightarrow>
        (let l = (if was_cut then l\<lparr>lk_cut_quiet_until := lk_check_at l\<rparr> else l);
             now = le_now le w;
             l = (healthy now l)\<lparr>lk_offline := False\<rparr>;
             l = (if 0 < lk_failures l \<and> (case lk_confirmed l of None \<Rightarrow> False | Some c \<Rightarrow> STABLE \<le> now - c)
                  then l\<lparr>lk_failures := 0\<rparr> else l)
         in (recovered l, r, w)))"

definition check_failed :: "('k, 'w) link_env \<Rightarrow> bool \<Rightarrow> ('k, 'w) lk \<Rightarrow> ('k, 'w) lk" where
  "check_failed le grew s =
     (case link_degraded le grew s of
        (True, s) \<Rightarrow> s
      | (False, l, r, w) \<Rightarrow>
          (case link_sync le (unhealthy l, r, w) of (l, r, w) \<Rightarrow>
            (case undisturbed le l (direct le l r) r w of
               (None, r, w) \<Rightarrow> aborted le Next_Usual (l, r, w)
             | (Some True, r, w) \<Rightarrow> (lost (le_now le w) l, r, w)
             | (Some False, r, w) \<Rightarrow> (l\<lparr>lk_offline := True\<rparr>, r, w))))"

definition check_limits :: "bool \<Rightarrow> bool \<Rightarrow> duration \<times> duration option" where
  "check_limits woke fresh =
     (if woke then (WAKE_PING, None) else if fresh then (PING, Some FRESH_TLS) else (PING, Some TLS))"

definition check :: "('k, 'w) link_env \<Rightarrow> ('k, 'w) lk \<Rightarrow> ('k, 'w) lk" where
  "check le s =
     (case s of (l, r, w) \<Rightarrow>
        (let now = le_now le w;
             fresh = now < lk_fresh_until l;
             l = l\<lparr>lk_check_at := now + (if fresh then FAST else SLOW)\<rparr>
         in case lk_tunnel l of
              None \<Rightarrow> (lost (le_now le w) (l\<lparr>lk_works := None\<rparr>), r, w)
            | Some t \<Rightarrow>
                (let (grew, l, r, w) = rx_grew le (tn_name t) (l, r, w);
                     nx = lk_next l;
                     was_cut = (nx = Next_Cut);
                     (ping_limit, tls_limit) = check_limits (nx = Next_Woke) fresh;
                     l = l\<lparr>lk_next := Next_Usual, lk_samples := []\<rparr>;
                     (found, l, r, w) = probes le t ping_limit tls_limit was_cut (l, r, w)
                 in case found of
                      None \<Rightarrow> aborted le nx (l, r, w)
                    | Some f \<Rightarrow>
                        (let l = l\<lparr>lk_works := None\<rparr> in
                         if link_report f then check_passed le was_cut (l, r, w)
                         else check_failed le grew (l, r, w)))))"

section \<open>A step of the task\<close>

text \<open>What the channels say.\<close>

definition hear :: "('k, 'w) link_env \<Rightarrow> ctl \<Rightarrow> ('k, 'w) lk \<Rightarrow> ('k, 'w) lk" where
  "hear le c s =
     (case s of (l, r, w) \<Rightarrow>
        (let now = le_now le w;
             l = (if ct_wakes c \<noteq> lk_wakes l then link_woke now (l\<lparr>lk_wakes := ct_wakes c\<rparr>) else l);
             n = le_net le w;
             l = (if n \<noteq> lk_network l then follow_network n (le_now le w) l else l)
         in (l, r, w)))"

definition unwanted :: "('k, 'w) link_env \<Rightarrow> ('k, 'w) lk \<Rightarrow> ('k, 'w) lk" where
  "unwanted le s =
     (let (l, r, w) = (if lk_tunnel (fst s) \<noteq> None then link_down le s else s);
          l = l\<lparr>lk_connect_at := Some (le_now le w), lk_failures := 0, lk_works := None\<rparr>
      in link_sync le (l, r, w))"

text \<open>A process that went: its interface and its routes went with it.\<close>

definition bury :: "('k, 'w) link_env \<Rightarrow> ('k, 'w) lk \<Rightarrow> ('k, 'w) lk" where
  "bury le s =
     (case s of (l, r, w) \<Rightarrow>
        (case lk_tunnel l of
           None \<Rightarrow> (l, r, w)
         | Some t \<Rightarrow>
             (case exited (le_procs le) t w of
                (False, w) \<Rightarrow> (l, r, w)
              | (True, w) \<Rightarrow>
                  (let (r, w) = take_down le t r w;
                       l = l\<lparr>lk_tunnel := None\<rparr>;
                       l = (if lk_connect_at l = None then lost (le_now le w) l else l)
                   in link_sync le (l, r, w)))))"

definition watch_cut :: "('k, 'w) link_env \<Rightarrow> ('k, 'w) lk \<Rightarrow> ('k, 'w) lk" where
  "watch_cut le s =
     (case s of (l, r, w) \<Rightarrow>
        (if lk_connect_at l = None \<and> lk_next l = Next_Usual \<and> lk_health l \<noteq> Health_Degraded \<and>
            lk_cut_quiet_until l \<le> le_now le w
         then (case cut_seen le (l, r, w) of
                 (False, s) \<Rightarrow> s
               | (True, l, r, w) \<Rightarrow> (l\<lparr>lk_next := Next_Cut, lk_check_at := le_now le w\<rparr>, r, w))
         else (l, r, w)))"

definition act :: "('k, 'w) link_env \<Rightarrow> ('k, 'w) lk \<Rightarrow> ('k, 'w) lk" where
  "act le s =
     (case s of (l, r, w) \<Rightarrow>
        (case lk_connect_at l of
           Some at \<Rightarrow> if at \<le> le_now le w then connect le (l, r, w) else (l, r, w)
         | None \<Rightarrow> if lk_check_at l \<le> le_now le w then check le (l, r, w) else (l, r, w)))"

definition link_step :: "('k, 'w) link_env \<Rightarrow> ('k, 'w) lk \<Rightarrow> bool \<times> ('k, 'w) lk" where
  "link_step le s =
     (let c = le_ctl le (snd (snd s)) in
      if ct_stop c then (True, link_down le s)
      else (let s = hear le c s in
            if \<not> ct_wanted c then (False, unwanted le s)
            else (False, link_sync le (act le (watch_cut le (bury le s))))))"

text \<open>
  The task: between two steps it waits for the tick or a channel, and the others run. Its life
  is as long as the list of waits, or ends at the stop.
\<close>

fun link_run :: "('k, 'w) link_env \<Rightarrow> ('w \<Rightarrow> 'w) list \<Rightarrow> ('k, 'w) lk \<Rightarrow> bool \<times> ('k, 'w) lk" where
  "link_run le [] s = (False, s)"
| "link_run le (wait # waits) (l, r, w) =
     (let (r, w) = le_others le (r, wait w) in
      case link_step le (l, r, w) of
        (True, s) \<Rightarrow> (True, s)
      | (False, s) \<Rightarrow> link_run le waits s)"

end
