(* ===== verification/Geo.thy ===== *)
theory Geo
  imports Net
begin

text \<open>
  Model of \<open>src/geo.rs\<close>: the country of the direct address, by the majority of the services that
  answer. Shown: the majority is a strict one of the answers that came, and an answer is only taken
  from a service asked past the tunnels. The services are asked at once; the model asks one after
  the other, the network deciding what each gets.
\<close>

definition GEO_LIMIT :: duration where "GEO_LIMIT = from_secs 5"

definition SERVICES :: "string list" where
  "SERVICES =
     [''https://1.1.1.1/cdn-cgi/trace'', ''https://ipinfo.io/country'', ''https://ifconfig.co/country-iso'']"

datatype ask_error =
    Not_https | Dns_failed io_error | Fakeip | No_address | Listed_address ipv4 | Fetch_failed io_error | No_country

type_synonym asked_answer = "ask_error + string"

record asked =
  as_country :: "string option"
  as_shown :: string

definition host_of :: "string \<Rightarrow> string option" where
  "host_of url = map_option (\<lambda>rest. hd (split_on (CHR ''/'') rest)) (strip_prefix ''https://'' url)"

definition is_code :: "string \<Rightarrow> bool" where
  "is_code v = (length v = 2 \<and> list_all is_upper v)"

definition code_line :: "string \<Rightarrow> string option" where
  "code_line line =
     (let v = trim line;
          v = (case strip_prefix ''loc='' v of None \<Rightarrow> v | Some r \<Rightarrow> r)
      in if is_code v then Some v else None)"

definition geo_code :: "string \<Rightarrow> string option" where
  "geo_code body = find_map code_line (lines body)"

definition answered :: "asked_answer list \<Rightarrow> string list" where
  "answered answers = List.map_filter (\<lambda>a. case a of Inr c \<Rightarrow> Some c | Inl _ \<Rightarrow> None) answers"

definition majority :: "asked_answer list \<Rightarrow> string option" where
  "majority answers =
     (let codes = answered answers
      in List.find (\<lambda>c. length codes < length (filter (\<lambda>d. d = c) codes) * 2) codes)"

text \<open>The address of a service: written in its URL, or asked of the router, unless fake.\<close>

definition service_ip ::
    "'w net \<Rightarrow> dns_lib \<Rightarrow> u32 \<Rightarrow> network \<Rightarrow> string \<Rightarrow> 'w \<Rightarrow> (ask_error + ipv4) \<times> 'w" where
  "service_ip net lib nanos n host w =
     (case parse_ip host of
        Some ip \<Rightarrow> (Inr ip, w)
      | None \<Rightarrow>
          (case query_a net lib nanos (Network_upstream n) (host @ ''.'') GEO_LIMIT w of
             (Inl e, w) \<Rightarrow> (Inl (Dns_failed e), w)
           | (Inr m, w) \<Rightarrow>
               if has_fakeip m then (Inl Fakeip, w)
               else (case ipv4_answers m of [] \<Rightarrow> (Inl No_address, w) | ip # _ \<Rightarrow> (Inr ip, w))))"

definition curl_args :: "string \<Rightarrow> string \<Rightarrow> ipv4 \<Rightarrow> network \<Rightarrow> string list" where
  "curl_args url host ip n =
     [''-s'', ''-f'', ''-m'', show_nat (as_secs GEO_LIMIT), ''--interface'', nw_iface n] @
     (if parse_ip host = None then [''--resolve'', host @ '':443:'' @ show_ip ip] else []) @ [url]"

definition ask ::
    "'w os \<Rightarrow> 'w net \<Rightarrow> dns_lib \<Rightarrow> u32 \<Rightarrow> network \<Rightarrow> (ipv4 \<Rightarrow> bool) \<Rightarrow> string \<Rightarrow> 'w \<Rightarrow> asked_answer \<times> 'w" where
  "ask os net lib nanos n held url w =
     (case host_of url of
        None \<Rightarrow> (Inl Not_https, w)
      | Some host \<Rightarrow>
          (case service_ip net lib nanos n host w of
             (Inl e, w) \<Rightarrow> (Inl e, w)
           | (Inr ip, w) \<Rightarrow>
               if held ip then (Inl (Listed_address ip), w)
               else (case run os ''/usr/bin/curl'' (curl_args url host ip n) None (GEO_LIMIT + from_secs 2) w of
                       (Inl e, w) \<Rightarrow> (Inl (Fetch_failed e), w)
                     | (Inr body, w) \<Rightarrow>
                         ((case geo_code body of None \<Rightarrow> Inl No_country | Some c \<Rightarrow> Inr c), w))))"

fun ask_each ::
    "(string \<Rightarrow> 'w \<Rightarrow> asked_answer \<times> 'w) \<Rightarrow> string list \<Rightarrow> 'w \<Rightarrow> asked_answer list \<times> 'w" where
  "ask_each f [] w = ([], w)"
| "ask_each f (u # us) w = (let (a, w) = f u w; (rest, w) = ask_each f us w in (a # rest, w))"

text \<open>The words of an error are those of the library and of the system: an argument.\<close>

definition show_asked :: "(ask_error \<Rightarrow> string) \<Rightarrow> string \<times> asked_answer \<Rightarrow> string" where
  "show_asked words e =
     (case e of (url, r) \<Rightarrow>
        (case host_of url of None \<Rightarrow> url | Some h \<Rightarrow> h) @ ''='' @
        (case r of Inr c \<Rightarrow> c | Inl e \<Rightarrow> ''('' @ words e @ '')''))"

definition geo_country ::
    "(ask_error \<Rightarrow> string) \<Rightarrow> 'w os \<Rightarrow> 'w net \<Rightarrow> dns_lib \<Rightarrow> u32 \<Rightarrow> network \<Rightarrow> (ipv4 \<Rightarrow> bool) \<Rightarrow> 'w \<Rightarrow> asked \<times> 'w" where
  "geo_country words os net lib nanos n held w =
     (let (answers, w) = ask_each (ask os net lib nanos n held) SERVICES w
      in (\<lparr>as_country = majority answers,
           as_shown = join '' '' (map (show_asked words) (zip SERVICES answers))\<rparr>, w))"

section \<open>A strict majority\<close>

lemma two_majorities:
  assumes "length xs < 2 * length (filter (\<lambda>d. d = a) xs)" "length xs < 2 * length (filter (\<lambda>d. d = b) xs)"
  shows "a = b"
proof (rule ccontr)
  assume "a \<noteq> b"
  then have "length (filter (\<lambda>d. d = a) xs) + length (filter (\<lambda>d. d = b) xs) \<le> length xs"
    by (induction xs) auto
  with assms show False by simp
qed

lemma majority_iff:
  "majority answers = Some c \<longleftrightarrow>
    length (answered answers) < 2 * length (filter (\<lambda>d. d = c) (answered answers))"
proof -
  let ?cs = "answered answers"
  show ?thesis
  proof
    assume "majority answers = Some c"
    then show "length ?cs < 2 * length (filter (\<lambda>d. d = c) ?cs)"
      by (auto simp: majority_def Let_def mult.commute dest: find_Some_in)
  next
    assume m: "length ?cs < 2 * length (filter (\<lambda>d. d = c) ?cs)"
    then have "c \<in> set ?cs"
      by (metis (mono_tags, lifting) filter_False less_nat_zero_code list.size(3) mult_0_right)
    with m have "majority answers \<noteq> None"
      by (auto simp: majority_def Let_def find_None_iff mult.commute)
    then obtain d where d: "majority answers = Some d" by auto
    then have "length ?cs < 2 * length (filter (\<lambda>x. x = d) ?cs)"
      by (auto simp: majority_def Let_def mult.commute dest: find_Some_in)
    with two_majorities [OF m] d show "majority answers = Some c" by blast
  qed
qed

section \<open>Only past the tunnels\<close>

lemma code_is_code: "geo_code body = Some c \<Longrightarrow> is_code c"
  by (auto simp: geo_code_def code_line_def Let_def dest!: find_map_SomeD split: if_splits option.splits)

lemma ask_each_set:
  "ask_each f us w = (as, w') \<Longrightarrow> a \<in> set as \<Longrightarrow> \<exists>u\<in>set us. \<exists>v v'. f u v = (a, v')"
proof (induction us arbitrary: w "as" w')
  case (Cons u us)
  then obtain b v rest where *: "f u w = (b, v)" "ask_each f us v = (rest, w')" "as = b # rest"
    by (auto split: prod.splits)
  with Cons.prems(2) consider "a = b" | "a \<in> set rest" by auto
  then show ?case using * Cons.IH [OF *(2)] by cases auto
qed simp

lemma ask_Inr:
  assumes "ask os net lib nanos n held url w = (Inr c, w')"
  shows "is_code c \<and> (\<exists>host ip w1 body. host_of url = Some host \<and> \<not> held ip \<and>
    service_ip net lib nanos n host w = (Inr ip, w1) \<and> geo_code body = Some c \<and>
    run os ''/usr/bin/curl'' (curl_args url host ip n) None (GEO_LIMIT + from_secs 2) w1 = (Inr body, w'))"
  using assms
  by (auto simp: ask_def code_is_code split: option.splits prod.splits sum.splits if_splits)

lemma service_ip_real:
  assumes "service_ip net lib nanos n host w = (Inr ip, w')" "parse_ip host = None"
  shows "\<exists>m. query_a net lib nanos (Network_upstream n) (host @ ''.'') GEO_LIMIT w = (Inr m, w') \<and>
    \<not> has_fakeip m \<and> \<not> contains FAKEIP ip \<and> ip \<in> set (ipv4_answers m)"
  using assms
  by (auto simp: service_ip_def has_fakeip_def list_ex_iff split: prod.splits sum.splits if_splits list.splits)

lemma country_majority:
  assumes "geo_country words os net lib nanos n held w = (a, w')" "as_country a = Some c"
  shows "is_code c \<and>
    (\<exists>url v v'. url \<in> set SERVICES \<and> ask os net lib nanos n held url v = (Inr c, v'))"
proof -
  obtain answers w1 where e: "ask_each (ask os net lib nanos n held) SERVICES w = (answers, w1)" by fastforce
  with assms have m: "majority answers = Some c" by (auto simp: geo_country_def Let_def)
  then have "c \<in> set (answered answers)"
    by (auto simp: majority_def Let_def dest: find_Some_in)
  then obtain x where "x \<in> set answers" "(case x of Inr c \<Rightarrow> Some c | Inl _ \<Rightarrow> None) = Some c"
    by (auto simp: answered_def in_map_filter)
  then have "Inr c \<in> set answers" by (auto split: sum.splits)
  with ask_each_set [OF e] obtain url v v' where "url \<in> set SERVICES" "ask os net lib nanos n held url v = (Inr c, v')"
    by blast
  with ask_Inr [OF this(2)] show ?thesis by blast
qed

end
