(* ===== verification/Sysdns.thy ===== *)
theory Sysdns
  imports Pf
begin

text \<open>
  Model of \<open>src/sysdns.rs\<close>: every network service of the Mac set to the resolver, what each had
  kept in a file until it is put back. Shown: the file is read back as it was written; what a
  service had is on disk before any service is set, and never the resolver's own address; the file
  goes only after every service went back.
\<close>

section \<open>Addresses as text\<close>

text \<open>
  \<open>IpAddr\<close> of the standard library: an IPv4 address, or eight groups of at most four hexadecimal
  digits, a run of zeros shortened to \<open>::\<close>, the last two groups as an IPv4 address.
\<close>

definition is_hex :: "char \<Rightarrow> bool" where
  "is_hex c = (is_digit c \<or> (65 \<le> code_of c \<and> code_of c \<le> 70) \<or> (97 \<le> code_of c \<and> code_of c \<le> 102))"

definition read_hex :: "string \<Rightarrow> string option" where
  "read_hex s =
     (let d = takeWhile is_hex s in if d \<noteq> [] \<and> length d \<le> 4 then Some (drop (length d) s) else None)"

definition read_octet :: "string \<Rightarrow> string option" where
  "read_octet s =
     (let d = takeWhile is_digit s in if parse_octet d \<noteq> None then Some (drop (length d) s) else None)"

definition read_char :: "char \<Rightarrow> string \<Rightarrow> string option" where
  "read_char c s = (case s of x # xs \<Rightarrow> if x = c then Some xs else None | [] \<Rightarrow> None)"

definition read_ip4 :: "string \<Rightarrow> string option" where
  "read_ip4 s =
     Option.bind (read_octet s) (\<lambda>s. Option.bind (read_char (CHR ''.'') s) (\<lambda>s.
     Option.bind (read_octet s) (\<lambda>s. Option.bind (read_char (CHR ''.'') s) (\<lambda>s.
     Option.bind (read_octet s) (\<lambda>s. Option.bind (read_char (CHR ''.'') s) read_octet)))))"

definition read_sep :: "nat \<Rightarrow> (string \<Rightarrow> string option) \<Rightarrow> string \<Rightarrow> string option" where
  "read_sep i p s = (if i = 0 then p s else Option.bind (read_char (CHR '':'') s) p)"

fun read_groups :: "nat \<Rightarrow> nat \<Rightarrow> string \<Rightarrow> nat \<times> bool \<times> string" where
  "read_groups 0 i s = (i, False, s)"
| "read_groups (Suc n) i s =
     (case (if 0 < n then read_sep i read_ip4 s else None) of
        Some rest \<Rightarrow> (i + 2, True, rest)
      | None \<Rightarrow>
          (case read_sep i read_hex s of
             Some rest \<Rightarrow> read_groups n (Suc i) rest
           | None \<Rightarrow> (i, False, s)))"

definition is_ip6 :: "string \<Rightarrow> bool" where
  "is_ip6 s =
     (case read_groups 8 0 s of
        (n, v4, rest) \<Rightarrow>
          if n = 8 then rest = []
          else if v4 then False
          else (case Option.bind (read_char (CHR '':'') rest) (read_char (CHR '':'')) of
                  None \<Rightarrow> False
                | Some rest \<Rightarrow> snd (snd (read_groups (8 - (n + 1)) 0 rest)) = []))"

definition is_ip :: "string \<Rightarrow> bool" where
  "is_ip s = (parse_ip s \<noteq> None \<or> is_ip6 s)"

section \<open>Services and their servers\<close>

definition NETWORKSETUP :: string where "NETWORKSETUP = ''/usr/sbin/networksetup''"
definition SAVED :: string where "SAVED = ''dns-saved''"
definition LOCAL :: string where "LOCAL = ''127.0.0.1''"
definition DNS_STEP :: duration where "DNS_STEP = from_secs 10"

type_synonym dns_entry = "string \<times> string list"

definition parse_services :: "string \<Rightarrow> string list" where
  "parse_services out =
     filter (\<lambda>l. l \<noteq> []) (map (\<lambda>l. case strip_prefix ''*'' l of None \<Rightarrow> l | Some r \<Rightarrow> r) (drop 1 (lines out)))"

definition parse_servers :: "string \<Rightarrow> string list" where
  "parse_servers out = filter is_ip (split_whitespace out)"

definition parse_saved_line :: "string \<Rightarrow> dns_entry option" where
  "parse_saved_line l = map_option (\<lambda>(svc, servers). (svc, split_whitespace servers)) (split_once TAB l)"

definition parse_saved :: "string \<Rightarrow> dns_entry list" where
  "parse_saved txt = List.map_filter parse_saved_line (lines txt)"

definition show_saved :: "dns_entry \<Rightarrow> string" where
  "show_saved e = (case e of (svc, servers) \<Rightarrow> svc @ [TAB] @ join '' '' servers)"

definition format_saved :: "dns_entry list \<Rightarrow> string" where
  "format_saved entries = foldl (\<lambda>s e. s @ show_saved e @ [NL]) [] entries"

definition saved_load :: "'w os \<Rightarrow> path \<Rightarrow> 'w \<Rightarrow> dns_entry list option io_result" where
  "saved_load os p w =
     (case os_read os p w of
        Inr txt \<Rightarrow> Inr (Some (parse_saved txt))
      | Inl e \<Rightarrow> if e = NotFound then Inr None else Inl e)"

definition services :: "'w os \<Rightarrow> 'w \<Rightarrow> string list io_result \<times> 'w" where
  "services os w =
     (case run os NETWORKSETUP [''-listallnetworkservices''] None DNS_STEP w of
        (Inl e, w) \<Rightarrow> (Inl e, w) | (Inr out, w) \<Rightarrow> (Inr (parse_services out), w))"

definition servers :: "'w os \<Rightarrow> string \<Rightarrow> 'w \<Rightarrow> string list io_result \<times> 'w" where
  "servers os svc w =
     (case run os NETWORKSETUP [''-getdnsservers'', svc] None DNS_STEP w of
        (Inl e, w) \<Rightarrow> (Inl e, w) | (Inr out, w) \<Rightarrow> (Inr (parse_servers out), w))"

definition set_servers :: "'w os \<Rightarrow> string \<Rightarrow> string list \<Rightarrow> 'w \<Rightarrow> unit io_result \<times> 'w" where
  "set_servers os svc ss w =
     (case run os NETWORKSETUP ([''-setdnsservers'', svc] @ (if ss = [] then [''Empty''] else ss)) None DNS_STEP w of
        (Inl e, w) \<Rightarrow> (Inl e, w) | (Inr out, w) \<Rightarrow> (Inr (), w))"

definition dns_flush :: "'w os \<Rightarrow> 'w \<Rightarrow> 'w" where
  "dns_flush os w =
     snd (run os ''/usr/bin/killall'' [''-HUP'', ''mDNSResponder''] None DNS_STEP
       (snd (run os ''/usr/bin/dscacheutil'' [''-flushcache''] None DNS_STEP w)))"

section \<open>Taking over\<close>

text \<open>The first error is kept: \<open>Option::get_or_insert\<close>.\<close>

definition first_error :: "io_error \<Rightarrow> io_error option \<Rightarrow> io_error option" where
  "first_error e f = (case f of None \<Rightarrow> Some e | Some x \<Rightarrow> Some x)"

record look =
  lk_saved :: "dns_entry list"
  lk_changed :: bool
  lk_todo :: "string list"
  lk_first :: "io_error option"

definition look_at :: "string \<Rightarrow> string list \<Rightarrow> look \<Rightarrow> look" where
  "look_at svc now k =
     (let k = (if \<not> list_ex (\<lambda>(s, _). s = svc) (lk_saved k)
               then k\<lparr>lk_saved := lk_saved k @ [(svc, filter (\<lambda>s. s \<noteq> LOCAL) now)], lk_changed := True\<rparr>
               else k)
      in if now \<noteq> [LOCAL] then k\<lparr>lk_todo := lk_todo k @ [svc]\<rparr> else k)"

fun look_services :: "'w os \<Rightarrow> string list \<Rightarrow> look \<Rightarrow> 'w \<Rightarrow> look \<times> 'w" where
  "look_services os [] k w = (k, w)"
| "look_services os (svc # svcs) k w =
     (case servers os svc w of
        (Inl e, w) \<Rightarrow> look_services os svcs (k\<lparr>lk_first := first_error e (lk_first k)\<rparr>) w
      | (Inr now, w) \<Rightarrow> look_services os svcs (look_at svc now k) w)"

fun set_all :: "'w os \<Rightarrow> dns_entry list \<Rightarrow> nat \<Rightarrow> io_error option \<Rightarrow> 'w \<Rightarrow> (nat \<times> io_error option) \<times> 'w" where
  "set_all os [] n first w = ((n, first), w)"
| "set_all os ((svc, ss) # rest) n first w =
     (case set_servers os svc ss w of
        (Inl e, w) \<Rightarrow> set_all os rest n (first_error e first) w
      | (Inr _, w) \<Rightarrow> set_all os rest (n + 1) first w)"

definition save_saved :: "'w os \<Rightarrow> path \<Rightarrow> look \<Rightarrow> 'w \<Rightarrow> unit io_result \<times> 'w" where
  "save_saved os dir k w =
     (if \<not> lk_changed k then (Inr (), w)
      else (let tmp = path_join dir (SAVED @ ''.new'') in
            case write_private os tmp (format_saved (lk_saved k)) w of
              (Inl e, w) \<Rightarrow> (Inl e, w)
            | (Inr _, w) \<Rightarrow> os_rename os tmp (path_join dir SAVED) w))"

definition take_over :: "'w os \<Rightarrow> path \<Rightarrow> 'w \<Rightarrow> nat io_result \<times> 'w" where
  "take_over os dir w =
     (case saved_load os (path_join dir SAVED) w of
        Inl e \<Rightarrow> (Inl e, w)
      | Inr s \<Rightarrow>
          (case services os w of
             (Inl e, w) \<Rightarrow> (Inl e, w)
           | (Inr svcs, w) \<Rightarrow>
               (let (k, w) = look_services os svcs
                      \<lparr>lk_saved = (case s of None \<Rightarrow> [] | Some s \<Rightarrow> s), lk_changed = False, lk_todo = [], lk_first = None\<rparr> w
                in case save_saved os dir k w of
                     (Inl e, w) \<Rightarrow> (Inl e, w)
                   | (Inr _, w) \<Rightarrow>
                       (let ((n, first), w) = set_all os (map (\<lambda>svc. (svc, [LOCAL])) (lk_todo k)) 0 (lk_first k) w;
                            w = (if 0 < n then dns_flush os w else w)
                        in (case first of None \<Rightarrow> Inr n | Some e \<Rightarrow> Inl e, w)))))"

definition give_back :: "'w os \<Rightarrow> path \<Rightarrow> 'w \<Rightarrow> nat io_result \<times> 'w" where
  "give_back os dir w =
     (case saved_load os (path_join dir SAVED) w of
        Inl e \<Rightarrow> (Inl e, w)
      | Inr None \<Rightarrow> (Inr 0, w)
      | Inr (Some s) \<Rightarrow>
          (case services os w of
             (Inl e, w) \<Rightarrow> (Inl e, w)
           | (Inr present, w) \<Rightarrow>
               (let ((n, first), w) = set_all os (filter (\<lambda>(s, _). s \<in> set present) s) 0 None w;
                    w = dns_flush os w
                in case first of
                     Some e \<Rightarrow> (Inl e, w)
                   | None \<Rightarrow>
                       (case os_remove os (path_join dir SAVED) w of
                          (Inl e, w) \<Rightarrow> (Inl e, w)
                        | (Inr _, w) \<Rightarrow> (Inr n, w)))))"

definition dns_saved :: "'w os \<Rightarrow> path \<Rightarrow> 'w \<Rightarrow> bool" where
  "dns_saved os dir w = path_exists os dir SAVED w"

section \<open>The file\<close>

definition saved_ok :: "dns_entry \<Rightarrow> bool" where
  "saved_ok e \<longleftrightarrow> TAB \<notin> set (fst e) \<and> NL \<notin> set (fst e) \<and> (\<forall>s\<in>set (snd e). s \<noteq> [] \<and> (\<forall>c\<in>set s. \<not> is_ws c))"

lemma join_last:
  "ws \<noteq> [] \<Longrightarrow> \<forall>w\<in>set ws. w \<noteq> [] \<Longrightarrow> join sep ws \<noteq> [] \<and> last (join sep ws) = last (last ws)"
  by (induction sep ws rule: join.induct) auto

lemma join_set: "set (join sep ws) \<subseteq> set sep \<union> \<Union> (set ` set ws)"
  by (induction sep ws rule: join.induct) auto

interpretation saved_text: line_format show_saved parse_saved_line saved_ok
proof unfold_locales
  fix e
  assume ok: "saved_ok e"
  obtain svc ss where e: "e = (svc, ss)" by fastforce
  have ss: "\<forall>s\<in>set ss. s \<noteq> [] \<and> (\<forall>c\<in>set s. \<not> is_ws c)" and svc: "TAB \<notin> set svc" "NL \<notin> set svc"
    using ok by (auto simp: saved_ok_def e)
  show "parse_saved_line (show_saved e) = Some e"
    using svc by (simp add: e show_saved_def parse_saved_line_def split_once_append split_whitespace_join [OF ss])
  have "NL \<notin> set (join '' '' ss)"
  proof
    assume "NL \<in> set (join '' '' ss)"
    with join_set [of "'' ''" ss] have "\<exists>s\<in>set ss. NL \<in> set s" by (auto simp: NL_def)
    with ss show False by fastforce
  qed
  then have "NL \<notin> set (show_saved e)" using svc by (simp add: e show_saved_def NL_def TAB_def)
  moreover have "last (show_saved e) \<noteq> CR"
  proof (cases "ss = []")
    case True
    then show ?thesis by (simp add: e show_saved_def TAB_def CR_def)
  next
    case False
    then have "join '' '' ss \<noteq> []" "last (join '' '' ss) = last (last ss)"
      using join_last [OF False] ss by auto
    moreover have "\<not> is_ws (last (last ss))" using ss last_in_set [OF False] by (meson last_in_set)
    ultimately show ?thesis by (auto simp: e show_saved_def)
  qed
  ultimately show "NL \<notin> set (show_saved e) \<and> (show_saved e = [] \<or> last (show_saved e) \<noteq> CR)" by blast
qed

lemma format_saved_concat: "format_saved es = concat (map (\<lambda>e. show_saved e @ [NL]) es)"
proof -
  have "foldl (\<lambda>s e. s @ show_saved e @ [NL]) s0 es = s0 @ concat (map (\<lambda>e. show_saved e @ [NL]) es)" for s0
    by (induction es arbitrary: s0) auto
  then show ?thesis by (simp add: format_saved_def)
qed

lemma parse_format_saved: "\<forall>e\<in>set es. saved_ok e \<Longrightarrow> parse_saved (format_saved es) = es"
  by (simp add: parse_saved_def format_saved_concat saved_text.parse_lines)

section \<open>What is kept\<close>

definition keeps_saved :: "dns_entry list \<Rightarrow> dns_entry list \<Rightarrow> bool" where
  "keeps_saved old new \<longleftrightarrow>
     (\<exists>more. new = old @ more \<and> (\<forall>(svc, ss)\<in>set more. LOCAL \<notin> set ss \<and> svc \<notin> fst ` set old) \<and>
        distinct (map fst more))"

lemma keeps_refl: "keeps_saved s s"
  by (simp add: keeps_saved_def)

lemma keeps_snoc:
  assumes "keeps_saved old new" "svc \<notin> fst ` set new" "LOCAL \<notin> set ss"
  shows "keeps_saved old (new @ [(svc, ss)])"
proof -
  obtain more where m: "new = old @ more" "\<forall>(svc, ss)\<in>set more. LOCAL \<notin> set ss \<and> svc \<notin> fst ` set old"
    "distinct (map fst more)"
    using assms(1) by (auto simp: keeps_saved_def)
  then show ?thesis
    unfolding keeps_saved_def using assms(2,3) by (intro exI [of _ "more @ [(svc, ss)]"]) auto
qed

lemma look_at_keeps:
  assumes "keeps_saved old (lk_saved k)"
  shows "keeps_saved old (lk_saved (look_at svc now k))"
proof (cases "list_ex (\<lambda>(s, _). s = svc) (lk_saved k)")
  case True
  with assms show ?thesis by (simp add: look_at_def)
next
  case False
  then have "svc \<notin> fst ` set (lk_saved k)" by (auto simp: list_ex_iff)
  with keeps_snoc [OF assms this, of "filter (\<lambda>s. s \<noteq> LOCAL) now"] False show ?thesis
    by (cases "now = [LOCAL]") (simp_all add: look_at_def Let_def)
qed

lemma look_at_has: "svc \<in> fst ` set (lk_saved (look_at svc now k))"
  by (force simp: look_at_def Let_def list_ex_iff image_iff)

lemma look_at_mono: "fst ` set (lk_saved k) \<subseteq> fst ` set (lk_saved (look_at svc now k))"
  by (auto simp: look_at_def Let_def image_iff)

lemma look_at_todo: "set (lk_todo (look_at svc now k)) \<subseteq> insert svc (set (lk_todo k))"
  by (auto simp: look_at_def Let_def)

lemma look_at_unchanged:
  "\<not> lk_changed (look_at svc now k) \<Longrightarrow> \<not> lk_changed k \<and> lk_saved (look_at svc now k) = lk_saved k"
  by (auto simp: look_at_def Let_def split: if_splits)

lemma look_services_keeps:
  "look_services os svcs k w = (k', w') \<Longrightarrow> keeps_saved old (lk_saved k) \<Longrightarrow> keeps_saved old (lk_saved k')"
  by (induction svcs arbitrary: k w)
    (auto split: prod.splits sum.splits intro: look_at_keeps)

lemma look_services_todo:
  "look_services os svcs k w = (k', w') \<Longrightarrow> set (lk_todo k) \<subseteq> fst ` set (lk_saved k) \<Longrightarrow>
    set (lk_todo k') \<subseteq> fst ` set (lk_saved k')"
proof (induction svcs arbitrary: k w)
  case (Cons svc svcs)
  obtain r w1 where s: "servers os svc w = (r, w1)" by fastforce
  show ?case
  proof (cases r)
    case (Inl e)
    with Cons s show ?thesis by simp
  next
    case (Inr now)
    have "set (lk_todo (look_at svc now k)) \<subseteq> fst ` set (lk_saved (look_at svc now k))"
      using look_at_todo [of svc now k] look_at_has [of svc now k] look_at_mono [of k svc now] Cons.prems(2) by blast
    with Cons s Inr show ?thesis by simp
  qed
qed simp

lemma look_services_unchanged:
  "look_services os svcs k w = (k', w') \<Longrightarrow> \<not> lk_changed k' \<Longrightarrow> \<not> lk_changed k \<and> lk_saved k' = lk_saved k"
proof (induction svcs arbitrary: k w)
  case (Cons svc svcs)
  obtain r w1 where s: "servers os svc w = (r, w1)" by fastforce
  show ?case
  proof (cases r)
    case (Inl e)
    with Cons s show ?thesis by force
  next
    case (Inr now)
    with Cons s show ?thesis using look_at_unchanged [of svc now k] by force
  qed
qed simp

text \<open>
  Services are set only from a world whose file has what they had: what the file had before, and an
  entry for each service to be set.
\<close>

definition set_after_saving :: "'w os \<Rightarrow> path \<Rightarrow> dns_entry list \<Rightarrow> nat io_result \<Rightarrow> bool" where
  "set_after_saving os dir old res \<longleftrightarrow>
     (\<exists>new todo first0 w2 n first w3.
        keeps_saved old new \<and> set todo \<subseteq> fst ` set new \<and>
        (new = old \<or> os_read os (path_join dir SAVED) w2 = Inr (format_saved new)) \<and>
        set_all os (map (\<lambda>svc. (svc, [LOCAL])) todo) 0 first0 w2 = ((n, first), w3) \<and>
        res = (case first of None \<Rightarrow> Inr n | Some e \<Rightarrow> Inl e))"

lemma save_saved_file:
  assumes "disk_ok os" "save_saved os dir k w = (Inr u, w')" "lk_changed k"
  shows "os_read os (path_join dir SAVED) w' = Inr (format_saved (lk_saved k))"
proof -
  let ?tmp = "path_join dir (SAVED @ ''.new'')"
  obtain r w1 where a: "write_private os ?tmp (format_saved (lk_saved k)) w = (r, w1)" by fastforce
  with assms(2,3) have r: "r = Inr ()" "os_rename os ?tmp (path_join dir SAVED) w1 = (Inr (), w')"
    by (auto simp: save_saved_def Let_def split: sum.splits)
  have "os_read os ?tmp w1 = Inr (format_saved (lk_saved k))"
    using disk_write [OF assms(1), of ?tmp "format_saved (lk_saved k)" w] a r by (simp add: write_private_def)
  with disk_rename [OF assms(1), of ?tmp "path_join dir SAVED" w1] r show ?thesis by simp
qed

lemma take_over_saves:
  assumes "disk_ok os" "take_over os dir w = (res, w')" "saved_load os (path_join dir SAVED) w = Inr s"
  shows "set_after_saving os dir (case s of None \<Rightarrow> [] | Some s \<Rightarrow> s) res \<or>
    (\<exists>e w1. services os w = (Inl e, w1) \<and> res = Inl e) \<or>
    (\<exists>k w1 e w2. save_saved os dir k w1 = (Inl e, w2) \<and> res = Inl e)"
proof -
  let ?old = "case s of None \<Rightarrow> [] | Some s \<Rightarrow> s"
  let ?k0 = "\<lparr>lk_saved = ?old, lk_changed = False, lk_todo = [], lk_first = None\<rparr>"
  obtain a w1 where a: "services os w = (a, w1)" by fastforce
  show ?thesis
  proof (cases a)
    case (Inl e)
    with a assms(2,3) show ?thesis by (simp add: take_over_def)
  next
    case (Inr svcs)
    obtain k w2 where k: "look_services os svcs ?k0 w1 = (k, w2)" by fastforce
    obtain b w3 where b: "save_saved os dir k w2 = (b, w3)" by fastforce
    obtain n first w4 where c: "set_all os (map (\<lambda>svc. (svc, [LOCAL])) (lk_todo k)) 0 (lk_first k) w3 = ((n, first), w4)"
      by (metis prod.collapse)
    show ?thesis
    proof (cases b)
      case (Inl e)
      with a Inr k b assms(2,3) show ?thesis by (auto simp: take_over_def)
    next
      case b': (Inr u)
      have res: "res = (case first of None \<Rightarrow> Inr n | Some e \<Rightarrow> Inl e)"
        using a Inr k b b' c assms(2,3) by (simp add: take_over_def)
      have "keeps_saved ?old (lk_saved k)"
        by (rule look_services_keeps [OF k]) (simp add: keeps_refl)
      moreover have "set (lk_todo k) \<subseteq> fst ` set (lk_saved k)"
        by (rule look_services_todo [OF k]) simp
      moreover have "lk_saved k = ?old \<or> os_read os (path_join dir SAVED) w3 = Inr (format_saved (lk_saved k))"
      proof (cases "lk_changed k")
        case True
        with save_saved_file [OF assms(1) b [unfolded b']] show ?thesis by blast
      next
        case False
        with look_services_unchanged [OF k] show ?thesis by simp
      qed
      ultimately show ?thesis
        using c res unfolding set_after_saving_def by blast
    qed
  qed
qed

text \<open>The file goes only when every service that is still there went back.\<close>

lemma set_all_error:
  "set_all os es n (Some e0) w = ((m, first), w') \<Longrightarrow> first = Some e0"
  by (induction es arbitrary: n w) (auto simp: first_error_def split: prod.splits sum.splits)

lemma set_all_none:
  "set_all os es n None w = ((m, None), w') \<Longrightarrow>
    m = n + length es \<and> (\<forall>(svc, ss)\<in>set es. \<exists>v v'. set_servers os svc ss v = (Inr (), v'))"
proof (induction es arbitrary: n w)
  case (Cons e es)
  obtain svc ss where e: "e = (svc, ss)" by fastforce
  obtain r w1 where r: "set_servers os svc ss w = (r, w1)" by fastforce
  have "\<exists>u. r = Inr u"
  proof (cases r)
    case (Inl x)
    with Cons.prems r e have "set_all os es n (Some x) w1 = ((m, None), w')" by (simp add: first_error_def)
    from set_all_error [OF this] show ?thesis by simp
  qed simp
  with Cons r e show ?case by fastforce
qed simp

lemma give_back_all:
  assumes "give_back os dir w = (Inr n, w')" "saved_load os (path_join dir SAVED) w = Inr (Some s)"
  shows "\<exists>present w1 w2. services os w = (Inr present, w1) \<and>
    n = length (filter (\<lambda>(svc, _). svc \<in> set present) s) \<and>
    (\<forall>(svc, ss)\<in>set s. svc \<in> set present \<longrightarrow> (\<exists>v v'. set_servers os svc ss v = (Inr (), v'))) \<and>
    os_remove os (path_join dir SAVED) w2 = (Inr (), w')"
proof -
  obtain present w1 where p: "services os w = (Inr present, w1)"
    using assms by (auto simp: give_back_def split: prod.splits sum.splits)
  obtain m first w2 where q: "set_all os (filter (\<lambda>(s, _). s \<in> set present) s) 0 None w1 = ((m, first), w2)"
    by (metis prod.collapse)
  have f: "first = None" "m = n" "os_remove os (path_join dir SAVED) (dns_flush os w2) = (Inr (), w')"
    using assms p q by (auto simp: give_back_def Let_def split: option.splits prod.splits sum.splits)
  with set_all_none [OF q [unfolded f(1)]] p show ?thesis by fastforce
qed

end
