(* ===== verification/Sources.thy ===== *)
theory Sources
  imports Config Pf Hosts_State
begin

text \<open>
  Model of \<open>src/sources.rs\<close>: the sources of the lists, the copies kept of them, and the updater
  that reads files when they settle and fetches addresses when they are due. Shown: a copy is only
  ever replaced by a text that reads as a list, a file that stops reading gives its last good text,
  a changed file is taken once it settled, the next fetch of an address is set by what the last one
  brought. Times of files and clocks are the system's; the words of an error are left out.
\<close>

section \<open>Copies\<close>

definition EVERY :: duration where "EVERY = from_hours 24"
definition RETRY :: duration where "RETRY = from_hours 1"
definition FETCH_LIMIT :: duration where "FETCH_LIMIT = from_mins 1"
definition MAX_BYTES :: string where "MAX_BYTES = ''20000000''"
definition CURL :: string where "CURL = ''/usr/bin/curl''"

definition fnv1a :: "string \<Rightarrow> u64" where
  "fnv1a txt = foldl (\<lambda>h c. (h XOR of_nat (of_char c)) * 0x100000001b3) 0xcbf29ce484222325 txt"

text \<open>\<open>{:016x}\<close> of a word of 64 bits.\<close>

definition hex_digit :: "nat \<Rightarrow> char" where
  "hex_digit n = (if n < 10 then char_of (48 + n) else char_of (87 + n))"

definition show_hex16 :: "u64 \<Rightarrow> string" where
  "show_hex16 h = map (\<lambda>i. hex_digit (unat (drop_bit (4 * i) h AND 15))) (rev [0..<16])"

definition cache_file :: "path \<Rightarrow> string \<Rightarrow> path" where
  "cache_file dir url = path_join dir (show_hex16 (fnv1a url) @ ''.lst'')"

datatype check_error = No_entries | More_rejected nat nat

definition check_list :: "string \<Rightarrow> check_error + nat" where
  "check_list txt =
     (let l = Lists_add ''check'' txt Lists_default; n = entry_count l in
      if n = 0 then Inl No_entries
      else if n < length (rejected l) then Inl (More_rejected (length (rejected l)) n)
      else Inr n)"

text \<open>What a file holds: entries, no list, or it could not be read.\<close>

datatype holds_what = Entries nat | No_list check_error | Unreadable io_error

definition entries_of :: "'w os \<Rightarrow> path \<Rightarrow> 'w \<Rightarrow> bool \<times> holds_what" where
  "entries_of os p w =
     (case os_read os p w of
        Inr txt \<Rightarrow> (case check_list txt of Inr n \<Rightarrow> (True, Entries n) | Inl e \<Rightarrow> (False, No_list e))
      | Inl e \<Rightarrow> (False, Unreadable e))"

section \<open>Fetching\<close>

definition fetch_args :: "string \<Rightarrow> string option \<Rightarrow> string list" where
  "fetch_args url ifc =
     [''-f'', ''-s'', ''-S'', ''-L'', ''--max-redirs'', ''5'', ''--proto'', ''=http,https'',
      ''--max-time'', show_nat (as_secs FETCH_LIMIT), ''--max-filesize'', MAX_BYTES] @
     (case ifc of None \<Rightarrow> [] | Some i \<Rightarrow> [''--interface'', i]) @ [url]"

definition fetch :: "'w os \<Rightarrow> string \<Rightarrow> string option \<Rightarrow> 'w \<Rightarrow> string io_result \<times> 'w" where
  "fetch os url ifc w = run os CURL (fetch_args url ifc) None (FETCH_LIMIT + from_secs 5) w"

text \<open>The text and the way it came; or why the tunnel failed, when it was tried, and the direct way.\<close>

datatype fetch_error = Fetch_error "io_error option" io_error

definition fetch_any ::
    "'w os \<Rightarrow> string \<Rightarrow> string option \<Rightarrow> 'w \<Rightarrow> (fetch_error + string \<times> string) \<times> 'w" where
  "fetch_any os url tun w =
     (let direct = (\<lambda>tried w.
            case fetch os url None w of
              (Inr txt, w) \<Rightarrow> (Inr (txt, ''direct''), w)
            | (Inl e, w) \<Rightarrow> (Inl (Fetch_error tried e), w))
      in case tun of
           None \<Rightarrow> direct None w
         | Some t \<Rightarrow>
             (case fetch os url (Some t) w of
                (Inr txt, w) \<Rightarrow> (Inr (txt, ''tunnel''), w)
              | (Inl e, w) \<Rightarrow> direct (Some e) w))"

definition write_cache :: "'w os \<Rightarrow> path \<Rightarrow> string \<Rightarrow> 'w \<Rightarrow> unit io_result \<times> 'w" where
  "write_cache os p txt w =
     (let tmp = with_extension p ''tmp'' in
      case write_private os tmp txt w of
        (Inl e, w) \<Rightarrow> (Inl e, w)
      | (Inr _, w) \<Rightarrow> os_rename os tmp p w)"

section \<open>Building the lists\<close>

record built =
  bl_lists :: lists
  bl_missing :: "(string \<times> source \<times> io_error) list"
  bl_stale :: "(string \<times> source) list"

definition Built_default :: built where
  "Built_default = \<lparr>bl_lists = Lists_default, bl_missing = [], bl_stale = []\<rparr>"

definition file_key :: "path \<Rightarrow> string" where
  "file_key rel = ''file:'' @ rel"

definition read_file :: "'w os \<Rightarrow> path \<Rightarrow> path \<Rightarrow> path \<Rightarrow> 'w \<Rightarrow> (string \<times> bool) io_result \<times> 'w" where
  "read_file os rel base cache w =
     (let copy = cache_file cache (file_key rel) in
      case os_read os (path_join base rel) w of
        Inr txt \<Rightarrow>
          (Inr (txt, False), case check_list txt of Inr _ \<Rightarrow> snd (write_cache os copy txt w) | Inl _ \<Rightarrow> w)
      | Inl e \<Rightarrow>
          (case os_read os copy w of
             Inr txt \<Rightarrow> (Inr (txt, True), w)
           | Inl _ \<Rightarrow> (Inl e, w)))"

definition read_source :: "'w os \<Rightarrow> path \<Rightarrow> path \<Rightarrow> source \<Rightarrow> 'w \<Rightarrow> (string \<times> bool) io_result \<times> 'w" where
  "read_source os base cache s w =
     (case s of
        File p \<Rightarrow> read_file os p base cache w
      | Url u \<Rightarrow>
          (case os_read os (cache_file cache u) w of
             Inr txt \<Rightarrow> (Inr (txt, False), w)
           | Inl e \<Rightarrow> (Inl e, w)))"

definition build_source :: "'w os \<Rightarrow> path \<Rightarrow> path \<Rightarrow> string \<Rightarrow> source \<Rightarrow> built \<Rightarrow> 'w \<Rightarrow> built \<times> 'w" where
  "build_source os base cache name s out w =
     (case read_source os base cache s w of
        (Inr (txt, from_copy), w) \<Rightarrow>
          (out\<lparr>bl_stale := (if from_copy then bl_stale out @ [(name, s)] else bl_stale out),
               bl_lists := Lists_add name txt (bl_lists out)\<rparr>, w)
      | (Inl e, w) \<Rightarrow> (out\<lparr>bl_missing := bl_missing out @ [(name, s, e)]\<rparr>, w))"

text \<open>The sources of the settings with the names of their lists, in order.\<close>

definition named_sources :: "settings \<Rightarrow> (string \<times> source) list" where
  "named_sources st = concat (map (\<lambda>l. map (\<lambda>s. (l_name l, s)) (l_sources l)) (s_lists st))"

fun build_loop :: "'w os \<Rightarrow> path \<Rightarrow> path \<Rightarrow> (string \<times> source) list \<Rightarrow> built \<Rightarrow> 'w \<Rightarrow> built \<times> 'w" where
  "build_loop os base cache [] out w = (out, w)"
| "build_loop os base cache ((name, s) # rest) out w =
     (let (out, w) = build_source os base cache name s out w in build_loop os base cache rest out w)"

definition build :: "'w os \<Rightarrow> settings \<Rightarrow> path \<Rightarrow> path \<Rightarrow> 'w \<Rightarrow> built \<times> 'w" where
  "build os st base cache w = build_loop os base cache (named_sources st) Built_default w"

section \<open>The updater\<close>

text \<open>Times of files, in nanoseconds since the epoch, and the two clocks.\<close>

record 'w stat =
  st_modified :: "path \<Rightarrow> 'w \<Rightarrow> nat option"
  st_exists :: "path \<Rightarrow> 'w \<Rightarrow> bool"
  st_now :: "'w \<Rightarrow> instant"
  st_wall :: "'w \<Rightarrow> nat"

definition due_in :: "nat option \<Rightarrow> nat \<Rightarrow> duration" where
  "due_in fetched now = (case fetched of None \<Rightarrow> 0 | Some t \<Rightarrow> t + EVERY - now)"

record stamp_of =
  sm_path :: path
  sm_taken :: "nat option"
  sm_seen :: "nat option"

type_synonym fetched = "(string \<times> (fetch_error + string \<times> string)) list"

text \<open>A task that fetches: what it was given.\<close>

record updater =
  ud_settings :: settings
  ud_base :: path
  ud_cache :: path
  ud_flag :: path
  ud_stamps :: "stamp_of list"
  ud_due :: "(string, instant) hashmap"
  ud_task :: "(string list \<times> string option) option"

definition Updater_new :: "'w stat \<Rightarrow> settings \<Rightarrow> path \<Rightarrow> path \<Rightarrow> path \<Rightarrow> 'w \<Rightarrow> updater" where
  "Updater_new st s base cache flag w =
     \<lparr>ud_settings = s, ud_base = base, ud_cache = cache, ud_flag = flag,
      ud_stamps = map (\<lambda>p. let f = path_join base p; t = st_modified st f w in
        \<lparr>sm_path = f, sm_taken = t, sm_seen = t\<rparr>) (files s),
      ud_due = hm_collect (map (\<lambda>u.
        (u, st_now st w + due_in (st_modified st (cache_file cache u) w) (st_wall st w))) (urls s)),
      ud_task = None\<rparr>"

definition Updater_build :: "'w os \<Rightarrow> updater \<Rightarrow> 'w \<Rightarrow> built \<times> 'w" where
  "Updater_build os u w = build os (ud_settings u) (ud_base u) (ud_cache u) w"

text \<open>One file looked at: whether it was taken in, and its times.\<close>

definition follow_file :: "'w os \<Rightarrow> 'w stat \<Rightarrow> 'w \<Rightarrow> stamp_of \<Rightarrow> bool \<times> stamp_of" where
  "follow_file os st w sm =
     (let t = st_modified st (sm_path sm) w;
          moved = (t \<noteq> sm_seen sm);
          sm = sm\<lparr>sm_seen := t\<rparr>
      in if t = sm_taken sm then (False, sm)
         else (let (is_list, what) = entries_of os (sm_path sm) w in
               if moved \<and> \<not> is_list then (False, sm) else (True, sm\<lparr>sm_taken := t\<rparr>)))"

definition follow_files :: "'w os \<Rightarrow> 'w stat \<Rightarrow> updater \<Rightarrow> 'w \<Rightarrow> bool \<times> updater" where
  "follow_files os st u w =
     (let out = map (follow_file os st w) (ud_stamps u)
      in (list_ex fst out, u\<lparr>ud_stamps := map snd out\<rparr>))"

text \<open>One result of a fetch taken in.\<close>

definition take_one ::
    "'w os \<Rightarrow> instant \<Rightarrow> string \<times> (fetch_error + string \<times> string) \<Rightarrow> updater \<Rightarrow> 'w \<Rightarrow> bool \<times> updater \<times> 'w" where
  "take_one os now got u w =
     (case got of (url, res) \<Rightarrow>
        (let retry = u\<lparr>ud_due := hm_insert url (now + RETRY) (ud_due u)\<rparr> in
         case res of
           Inl e \<Rightarrow> (False, retry, w)
         | Inr (txt, via) \<Rightarrow>
             (case check_list txt of
                Inl e \<Rightarrow> (False, retry, w)
              | Inr n \<Rightarrow>
                  (let p = cache_file (ud_cache u) url;
                       new = (os_read os p w \<noteq> Inr txt)
                   in case write_cache os p txt w of
                        (Inl e, w) \<Rightarrow> (False, retry, w)
                      | (Inr _, w) \<Rightarrow> (new, u\<lparr>ud_due := hm_insert url (now + EVERY) (ud_due u)\<rparr>, w)))))"

fun take_in_loop :: "'w os \<Rightarrow> instant \<Rightarrow> fetched \<Rightarrow> updater \<Rightarrow> 'w \<Rightarrow> bool \<times> updater \<times> 'w" where
  "take_in_loop os now [] u w = (False, u, w)"
| "take_in_loop os now (got # rest) u w =
     (let (a, u, w) = take_one os now got u w;
          (b, u, w) = take_in_loop os now rest u w
      in (a \<or> b, u, w))"

definition take_in :: "'w os \<Rightarrow> 'w stat \<Rightarrow> fetched \<Rightarrow> updater \<Rightarrow> 'w \<Rightarrow> bool \<times> updater \<times> 'w" where
  "take_in os st got u w = take_in_loop os (st_now st w) got u w"

text \<open>The task that fetches what is due.\<close>

fun fetch_task :: "'w os \<Rightarrow> string list \<Rightarrow> string option \<Rightarrow> 'w \<Rightarrow> fetched \<times> 'w" where
  "fetch_task os [] tun w = ([], w)"
| "fetch_task os (u # us) tun w =
     (let (got, w) = fetch_any os u tun w;
          (rest, w) = fetch_task os us tun w
      in ((u, got) # rest, w))"

text \<open>
  A step. \<open>joined\<close> is what the task there gave, once it is over: its results, or none when it
  panicked.
\<close>

definition heed_flag :: "'w os \<Rightarrow> 'w stat \<Rightarrow> updater \<Rightarrow> 'w \<Rightarrow> updater \<times> 'w" where
  "heed_flag os st u w =
     (if st_exists st (ud_flag u) w
      then (u\<lparr>ud_due := map (\<lambda>(url, at). (url, st_now st w)) (ud_due u)\<rparr>, snd (os_remove os (ud_flag u) w))
      else (u, w))"

definition join_task ::
    "'w os \<Rightarrow> 'w stat \<Rightarrow> fetched option option \<Rightarrow> updater \<Rightarrow> 'w \<Rightarrow> bool \<times> updater \<times> 'w" where
  "join_task os st joined u w =
     (case (ud_task u, joined) of
        (Some _, Some over) \<Rightarrow>
          (let u = u\<lparr>ud_task := None\<rparr> in
           case over of None \<Rightarrow> (False, u, w) | Some got \<Rightarrow> take_in os st got u w)
      | _ \<Rightarrow> (False, u, w))"

definition start_due :: "instant \<Rightarrow> string option \<Rightarrow> updater \<Rightarrow> updater" where
  "start_due now tun u =
     (if ud_task u \<noteq> None then u
      else (let due = map fst (filter (\<lambda>(url, at). at \<le> now) (ud_due u)) in
            if due = [] then u
            else u\<lparr>ud_due := foldl (\<lambda>m url. hm_insert url (now + RETRY) m) (ud_due u) due,
                   ud_task := Some (due, tun)\<rparr>))"

definition poll ::
    "'w os \<Rightarrow> 'w stat \<Rightarrow> fetched option option \<Rightarrow> string option \<Rightarrow> updater \<Rightarrow> 'w \<Rightarrow> bool \<times> updater \<times> 'w" where
  "poll os st joined tun u w =
     (let now = st_now st w;
          (u, w) = heed_flag os st u w;
          (a, u, w) = join_task os st joined u w;
          (b, u) = follow_files os st u w
      in (a \<or> b, start_due now tun u, w))"

section \<open>Copies hold lists\<close>

text \<open>A text a copy may hold.\<close>

definition good_list :: "string \<Rightarrow> bool" where
  "good_list body \<longleftrightarrow> (\<exists>n. check_list body = Inr n)"

text \<open>A copy is as it was, or holds a list.\<close>

definition copy_kept :: "'w os \<Rightarrow> path \<Rightarrow> 'w \<Rightarrow> 'w \<Rightarrow> bool" where
  "copy_kept os p w w' \<longleftrightarrow> os_read os p w' = os_read os p w \<or> (\<exists>body. os_read os p w' = Inr body \<and> good_list body)"

lemma copy_kept_refl: "copy_kept os p w w"
  by (simp add: copy_kept_def)

lemma copy_kept_trans: "copy_kept os p w1 w2 \<Longrightarrow> copy_kept os p w2 w3 \<Longrightarrow> copy_kept os p w1 w3"
  unfolding copy_kept_def by metis

lemma last_append_lst: "last (cache_file dir url) = CHR ''t''"
  by (simp add: cache_file_def path_join_def)

lemma tmp_not_copy: "with_extension p ''tmp'' \<noteq> cache_file dir url"
proof
  assume e: "with_extension p ''tmp'' = cache_file dir url"
  obtain pre where "with_extension p ''tmp'' = pre @ ''.'' @ ''tmp''" using with_extension_ends by blast
  then have "last (cache_file dir url) = CHR ''p''" by (simp add: e)
  then show False by (simp add: last_append_lst)
qed

lemma write_cache_read:
  assumes "disk_ok os" "write_cache os (cache_file dir url) body w = (r, w')"
  shows "os_read os (cache_file dir url) w' = (case r of Inr _ \<Rightarrow> Inr body | Inl _ \<Rightarrow> os_read os (cache_file dir url) w)"
    "cache_file d2 u2 \<noteq> cache_file dir url \<Longrightarrow> os_read os (cache_file d2 u2) w' = os_read os (cache_file d2 u2) w"
proof -
  let ?p = "cache_file dir url" and ?t = "with_extension (cache_file dir url) ''tmp''"
  obtain a w1 where a: "os_write os ?t body w = (a, w1)" by fastforce
  obtain b w2 where b: "os_rename os ?t ?p w1 = (b, w2)" by fastforce
  have other: "os_read os (cache_file d u) w1 = os_read os (cache_file d u) w" for d u
    using disk_write_other [OF assms(1) tmp_not_copy [symmetric], of d u "cache_file dir url" body w] by (simp add: a)
  show "os_read os ?p w' = (case r of Inr _ \<Rightarrow> Inr body | Inl _ \<Rightarrow> os_read os ?p w)"
  proof (cases a)
    case (Inl e)
    with assms(2) other show ?thesis by (auto simp: write_cache_def write_private_def a Let_def)
  next
    case (Inr u)
    then have t: "os_read os ?t w1 = Inr body" using disk_write [OF assms(1), of ?t body w] by (simp add: a)
    from Inr assms(2) have r: "r = b" "w' = w2" by (simp_all add: write_cache_def write_private_def a b Let_def)
    show ?thesis
    proof (cases b)
      case (Inl e)
      with disk_rename_err [OF assms(1), of ?t ?p w1] other show ?thesis by (simp add: r b)
    next
      case (Inr v)
      with disk_rename [OF assms(1), of ?t ?p w1] t show ?thesis by (simp add: r b)
    qed
  qed
  assume ne: "cache_file d2 u2 \<noteq> ?p"
  have "os_read os (cache_file d2 u2) w2 = os_read os (cache_file d2 u2) w1"
    using assms(1) ne tmp_not_copy [of ?p d2 u2] b unfolding disk_ok_def by (metis snd_conv)
  then show "os_read os (cache_file d2 u2) w' = os_read os (cache_file d2 u2) w"
    using assms(2) other by (auto simp: write_cache_def write_private_def a b Let_def split: sum.splits)
qed

lemma write_cache_kept:
  assumes "disk_ok os" "good_list body" "write_cache os (cache_file dir url) body w = (r, w')"
  shows "copy_kept os (cache_file d2 u2) w w'"
proof (cases "cache_file d2 u2 = cache_file dir url")
  case True
  with write_cache_read(1) [OF assms(1,3)] assms(2) show ?thesis
    by (cases r) (auto simp: copy_kept_def)
next
  case False
  with write_cache_read(2) [OF assms(1,3)] show ?thesis by (simp add: copy_kept_def)
qed

lemma read_file_kept:
  assumes "disk_ok os" "read_file os rel base cache w = (r, w')"
  shows "copy_kept os (cache_file d u) w w'"
proof (cases "os_read os (path_join base rel) w")
  case (Inl e)
  with assms(2) show ?thesis by (auto simp: read_file_def Let_def copy_kept_refl split: sum.splits)
next
  case (Inr body)
  show ?thesis
  proof (cases "check_list body")
    case (Inl e)
    with Inr assms(2) show ?thesis by (auto simp: read_file_def Let_def copy_kept_refl)
  next
    case ok: (Inr n)
    obtain x w1 where x: "write_cache os (cache_file cache (file_key rel)) body w = (x, w1)" by fastforce
    have "good_list body" using ok by (simp add: good_list_def)
    from write_cache_kept [OF assms(1) this x] Inr ok assms(2) x show ?thesis by (simp add: read_file_def Let_def)
  qed
qed

lemma build_loop_kept:
  "disk_ok os \<Longrightarrow> build_loop os base cache srcs out w = (out', w') \<Longrightarrow> copy_kept os (cache_file d u) w w'"
proof (induction srcs arbitrary: out w)
  case (Cons e srcs)
  obtain name s where e: "e = (name, s)" by fastforce
  obtain r w1 where r: "read_source os base cache s w = (r, w1)" by fastforce
  have k: "copy_kept os (cache_file d u) w w1"
    using r read_file_kept [OF Cons.prems(1)]
    by (cases s) (auto simp: read_source_def copy_kept_refl split: sum.splits)
  obtain out1 where 1: "build_source os base cache name s out w = (out1, w1)"
    by (cases r) (auto simp: build_source_def r)
  with Cons.prems(2) have "build_loop os base cache srcs out1 w1 = (out', w')" by (simp add: e)
  from copy_kept_trans [OF k Cons.IH [OF Cons.prems(1) this]] show ?case .
qed (simp add: copy_kept_refl)

lemma take_one_kept:
  assumes "disk_ok os" "take_one os now got u w = (c, u', w')"
  shows "copy_kept os (cache_file d x) w w' \<and> ud_cache u' = ud_cache u"
proof -
  obtain url res where g: "got = (url, res)" by fastforce
  consider (no) e where "res = Inl e" | (bad) body via e where "res = Inr (body, via)" "check_list body = Inl e"
    | (ok) body via n where "res = Inr (body, via)" "check_list body = Inr n"
    by (metis old.prod.exhaust sum.exhaust_sel)
  then show ?thesis
  proof cases
    case ok
    obtain y w1 where y: "write_cache os (cache_file (ud_cache u) url) body w = (y, w1)" by fastforce
    have "good_list body" using ok(2) by (simp add: good_list_def)
    from write_cache_kept [OF assms(1) this y] ok y assms(2) g show ?thesis
      by (auto simp: take_one_def Let_def split: sum.splits)
  qed (use assms(2) g in \<open>auto simp: take_one_def Let_def copy_kept_refl\<close>)
qed

lemma take_in_loop_kept:
  "disk_ok os \<Longrightarrow> take_in_loop os now got u w = (c, u', w') \<Longrightarrow> copy_kept os (cache_file d x) w w'"
proof (induction got arbitrary: c u u' w w')
  case (Cons g got)
  obtain a u1 w1 where 1: "take_one os now g u w = (a, u1, w1)" by (cases "take_one os now g u w") auto
  obtain b u2 w2 where 2: "take_in_loop os now got u1 w1 = (b, u2, w2)" by (cases "take_in_loop os now got u1 w1") auto
  from Cons.prems(2) 1 2 have "w' = w2" by simp
  with copy_kept_trans [OF conjunct1 [OF take_one_kept [OF Cons.prems(1) 1]] Cons.IH [OF Cons.prems(1) 2]]
  show ?case by simp
qed (simp add: copy_kept_refl)

section \<open>A file that stops reading\<close>

lemma file_falls_back:
  assumes "disk_ok os" "os_read os (path_join base rel) w = Inr body" "check_list body = Inr n"
    "write_cache os (cache_file cache (file_key rel)) body w = (Inr u, w1)"
    "os_read os (path_join base rel) w2 = Inl e"
    "os_read os (cache_file cache (file_key rel)) w2 = os_read os (cache_file cache (file_key rel)) w1"
  shows "read_file os rel base cache w = (Inr (body, False), w1) \<and>
    read_file os rel base cache w2 = (Inr (body, True), w2)"
  using write_cache_read(1) [OF assms(1,4)] assms by (simp add: read_file_def Let_def)

section \<open>Settling\<close>

text \<open>
  A changed file is taken in the step it is seen when it reads as a list, else the step after the
  one in which its time moved; one whose time is that of the last read is never taken.
\<close>

lemma follow_file_taken:
  "fst (follow_file os st w sm) \<longleftrightarrow>
    st_modified st (sm_path sm) w \<noteq> sm_taken sm \<and>
    (fst (entries_of os (sm_path sm) w) \<or> st_modified st (sm_path sm) w = sm_seen sm)"
  by (auto simp: follow_file_def Let_def split: prod.split)

lemma follow_file_stamp:
  "snd (follow_file os st w sm) =
    sm\<lparr>sm_seen := st_modified st (sm_path sm) w,
       sm_taken := (if fst (follow_file os st w sm) then st_modified st (sm_path sm) w else sm_taken sm)\<rparr>"
  by (cases sm) (auto simp: follow_file_def Let_def split: prod.split)

lemma settles:
  assumes "st_modified st (sm_path sm) w = t" "st_modified st (sm_path sm) w' = t" "t \<noteq> sm_taken sm"
  shows "fst (follow_file os st w sm) \<or> fst (follow_file os st w' (snd (follow_file os st w sm)))"
  using assms by (simp add: follow_file_taken follow_file_stamp)

section \<open>When a fetch is due\<close>

lemma due_in_bound: "t \<le> now \<Longrightarrow> due_in (Some t) now \<le> EVERY"
  by (simp add: due_in_def)

lemma due_in_day: "due_in (Some t) now = (if t + EVERY \<le> now then 0 else t + EVERY - now)"
  by (simp add: due_in_def)

text \<open>What a result makes of the next fetch: a day when it was taken, an hour when it was not.\<close>

lemma take_one_due:
  assumes "take_one os now (url, res) u w = (c, u', w')"
  shows "hm_get (ud_due u') x =
    (if x \<noteq> url then hm_get (ud_due u) x
     else if \<exists>body via n r w1. res = Inr (body, via) \<and> check_list body = Inr n \<and>
            write_cache os (cache_file (ud_cache u) url) body w = (Inr r, w1)
          then Some (now + EVERY) else Some (now + RETRY))"
  using assms by (auto simp: take_one_def Let_def dict_simps split: sum.splits prod.splits)

lemma ins_all_get:
  "hm_get (foldl (\<lambda>m x. hm_insert x v m) m xs) k = (if k \<in> set xs then Some v else hm_get m k)"
  by (induction xs arbitrary: m) (auto simp: dict_simps)

text \<open>A fetch is begun for exactly what is due, unless one is under way; it is due again in an hour.\<close>

lemma start_due_task:
  assumes "hm_ok (ud_due u)" "ud_task u = None"
  shows "(case ud_task (start_due now tun u) of
      None \<Rightarrow> \<forall>x at. hm_get (ud_due u) x = Some at \<longrightarrow> now < at
    | Some (due, t) \<Rightarrow> t = tun \<and> due \<noteq> [] \<and> (\<forall>x. x \<in> set due \<longleftrightarrow> (\<exists>at. hm_get (ud_due u) x = Some at \<and> at \<le> now)) \<and>
        (\<forall>x. hm_get (ud_due (start_due now tun u)) x =
          (if x \<in> set due then Some (now + RETRY) else hm_get (ud_due u) x)))"
proof -
  let ?due = "map fst (filter (\<lambda>(url, at). at \<le> now) (ud_due u))"
  have d: "x \<in> set ?due \<longleftrightarrow> (\<exists>at. hm_get (ud_due u) x = Some at \<and> at \<le> now)" for x
    using hm_ok_map_of [OF assms(1)] by force
  show ?thesis
  proof (cases "?due = []")
    case True
    with d have "\<forall>x at. hm_get (ud_due u) x = Some at \<longrightarrow> now < at" by (metis empty_iff list.set(1) not_le)
    with True assms(2) show ?thesis by (simp add: start_due_def)
  next
    case False
    then have "start_due now tun u = u\<lparr>ud_due := foldl (\<lambda>m url. hm_insert url (now + RETRY) m) (ud_due u) ?due,
        ud_task := Some (?due, tun)\<rparr>"
      using assms(2) by (simp add: start_due_def Let_def)
    with False d show ?thesis by (simp del: set_map foldl_map add: ins_all_get)
  qed
qed

end
