(* ===== verification/Daemon.thy ===== *)
theory Daemon
  imports Link Geo Sysdns Sources
begin

text \<open>
  Model of \<open>src/daemon.rs\<close>: what a start makes of the files, the tracker of the network, and the
  watch with its steps and its stop. Lines of the journal are left out.

  The watch is one task, its state is changed by nobody else; at every wait the others run, and
  \<open>en_others\<close> is what they do. A function of another module that waits without touching the
  resolver is one wait. What the tracker sent, what a task it started gave and the clocks are
  read from the world.
\<close>

section \<open>Files and flags\<close>

definition NET_POLL :: duration where "NET_POLL = from_secs 30"
definition FAKEIP_EVERY :: duration where "FAKEIP_EVERY = from_mins 5"
definition SAVE_EVERY :: duration where "SAVE_EVERY = from_mins 1"
definition SWEEP_EVERY :: duration where "SWEEP_EVERY = from_mins 10"
definition STATUS_EVERY :: duration where "STATUS_EVERY = from_mins 10"
definition COUNTRY_AFTER :: duration where "COUNTRY_AFTER = from_hours 3"
definition COUNTRY_RETRY :: duration where "COUNTRY_RETRY = from_mins 5"
definition COUNTRY_DEFAULT :: string where "COUNTRY_DEFAULT = ''RU''"
definition STRAYS_WAIT :: duration where "STRAYS_WAIT = from_secs 20"
definition LINKS_EXIT :: duration where "LINKS_EXIT = from_secs 15"
definition OWNER_FLAG :: string where "OWNER_FLAG = ''killswitch''"
definition COUNTRY_FLAG :: string where "COUNTRY_FLAG = ''country''"
definition COUNTRY_SEEN :: string where "COUNTRY_SEEN = ''country-seen''"
definition UPDATE_FLAG :: string where "UPDATE_FLAG = ''update''"
definition CACHE :: string where "CACHE = ''sources''"

text \<open>\<open>Path::parent\<close>, of a path that ends in a file name.\<close>

definition path_parent :: "path \<Rightarrow> path" where
  "path_parent p =
     (case rsplit_once (CHR ''/'') p of
        None \<Rightarrow> []
      | Some (d, _) \<Rightarrow> (let d = trim_end_char (CHR ''/'') d in if d = [] then ''/'' else d))"

definition dir_of :: "path \<Rightarrow> path" where
  "dir_of file = (let d = path_parent file in if d = [] then ''.'' else d)"

text \<open>\<open>touch\<close> opens a file for writing, and makes it when it is not there.\<close>

definition lower_flag :: "'w os \<Rightarrow> path \<Rightarrow> 'w \<Rightarrow> unit io_result \<times> 'w" where
  "lower_flag os flag w =
     (case os_remove os flag w of
        (Inl e, w) \<Rightarrow> (if e = NotFound then Inr () else Inl e, w)
      | (Inr u, w) \<Rightarrow> (Inr u, w))"

definition request_update :: "(path \<Rightarrow> 'w \<Rightarrow> unit io_result \<times> 'w) \<Rightarrow> path \<Rightarrow> 'w \<Rightarrow> unit io_result \<times> 'w" where
  "request_update touch state w = touch (path_join (dir_of state) UPDATE_FLAG) w"

definition owner_killswitch ::
    "(path \<Rightarrow> 'w \<Rightarrow> unit io_result \<times> 'w) \<Rightarrow> 'w os \<Rightarrow> path \<Rightarrow> bool \<Rightarrow> 'w \<Rightarrow> unit io_result \<times> 'w" where
  "owner_killswitch touch os state on w =
     (let flag = path_join (dir_of state) OWNER_FLAG in if on then touch flag w else lower_flag os flag w)"

definition owner_country :: "'w os \<Rightarrow> path \<Rightarrow> string option \<Rightarrow> 'w \<Rightarrow> unit io_result \<times> 'w" where
  "owner_country os state code w =
     (let flag = path_join (dir_of state) COUNTRY_FLAG in
      case code of
        Some c \<Rightarrow> write_private os flag (c @ [NL]) w
      | None \<Rightarrow> lower_flag os flag w)"

definition country_code :: "string \<Rightarrow> string option" where
  "country_code txt = (let t = trim txt in if length t = 2 \<and> list_all is_upper t then Some t else None)"

section \<open>The tunnel files\<close>

datatype conf_file_error =
    Conf_unread path io_error
  | Conf_refused path conf_error
  | Same_address string ipv4 string

fun load_confs_loop ::
    "'w os \<Rightarrow> path \<Rightarrow> tunnel_conf list \<Rightarrow> tunnel_conf list \<Rightarrow> conf list \<Rightarrow> 'w \<Rightarrow> conf_file_error + conf list" where
  "load_confs_loop os base all [] confs w = Inr confs"
| "load_confs_loop os base all (t # ts) confs w =
     (let p = path_join base (t_conf t) in
      case os_read os p w of
        Inl e \<Rightarrow> Inl (Conf_unread p e)
      | Inr txt \<Rightarrow>
          (case Conf_parse txt of
             Inl e \<Rightarrow> Inl (Conf_refused p e)
           | Inr c \<Rightarrow>
               (case List.find (\<lambda>(_, k). cf_address k = cf_address c) (zip all confs) of
                  Some (other, _) \<Rightarrow> Inl (Same_address (t_name t) (cf_address c) (t_name other))
                | None \<Rightarrow> load_confs_loop os base all ts (confs @ [c]) w)))"

definition load_confs :: "'w os \<Rightarrow> settings \<Rightarrow> path \<Rightarrow> 'w \<Rightarrow> conf_file_error + conf list" where
  "load_confs os st base w = load_confs_loop os base (s_tunnels st) (s_tunnels st) [] w"

section \<open>Saved hosts\<close>

definition rule_of :: "settings \<Rightarrow> string \<Rightarrow> nat option" where
  "rule_of st name =
     (case position (\<lambda>r. r_name r = name) (s_rules st) of
        Some i \<Rightarrow> Some i
      | None \<Rightarrow> position (\<lambda>r. list_ex (\<lambda>l. l = name) (r_lists r)) (s_rules st))"

definition saved_by_rule :: "settings \<Rightarrow> hosts \<Rightarrow> (ipv4, nat \<times> nat) hashmap" where
  "saved_by_rule st saved =
     hm_collect (List.map_filter (\<lambda>(ip, h). map_option (\<lambda>i. (ip, (i, ho_last h))) (rule_of st (ho_rule h))) saved)"

definition hosts_to_restore ::
    "'w os \<Rightarrow> settings \<Rightarrow> hosts \<Rightarrow> nat \<Rightarrow> 'w \<Rightarrow> (ipv4 \<times> nat \<times> nat) list \<times> 'w" where
  "hosts_to_restore os st saved now w =
     (let (held, w) = Pf_held_hosts os (length (s_rules st)) w;
          hosts = foldl (\<lambda>m (rule, ip). hm_or_insert ip (rule, now) m) (saved_by_rule st saved) held
      in (map (\<lambda>(ip, rule, seen). (ip, rule, seen)) hosts, w))"

section \<open>The country\<close>

record country =
  cn_owner :: "string option"
  cn_seen :: "(string \<times> nat) option"
  cn_seen_on :: "network option"

definition read_country_flag :: "'w os \<Rightarrow> path \<Rightarrow> 'w \<Rightarrow> string option" where
  "read_country_flag os dir w =
     (case os_read os (path_join dir COUNTRY_FLAG) w of Inl _ \<Rightarrow> None | Inr txt \<Rightarrow> country_code txt)"

definition parse_seen :: "string \<Rightarrow> (string \<times> nat) option" where
  "parse_seen txt =
     (let f = split_whitespace txt in
      Option.bind (Option.bind (get f 0) country_code) (\<lambda>code.
      Option.bind (Option.bind (get f 1) parse_u64) (\<lambda>at. Some (code, at))))"

definition Country_load :: "'w os \<Rightarrow> path \<Rightarrow> 'w \<Rightarrow> country" where
  "Country_load os dir w =
     \<lparr>cn_owner = read_country_flag os dir w,
      cn_seen = (case os_read os (path_join dir COUNTRY_SEEN) w of Inl _ \<Rightarrow> None | Inr txt \<Rightarrow> parse_seen txt),
      cn_seen_on = None\<rparr>"

definition Country_now :: "country \<Rightarrow> string \<times> string" where
  "Country_now c =
     (case (cn_owner c, cn_seen c) of
        (Some code, _) \<Rightarrow> (code, ''owner'')
      | (None, Some (code, _)) \<Rightarrow> (code, ''services'')
      | (None, None) \<Rightarrow> (COUNTRY_DEFAULT, ''default''))"

definition Country_stale :: "nat \<Rightarrow> country \<Rightarrow> bool" where
  "Country_stale unix c =
     (case cn_seen c of None \<Rightarrow> True | Some (_, at) \<Rightarrow> as_secs COUNTRY_AFTER < unix - at)"

section \<open>The watch\<close>

record watch =
  wt_state_path :: path
  wt_dir :: path
  wt_window :: nat
  wt_network :: "network option"
  wt_fakeip_at :: instant
  wt_save_at :: instant
  wt_sweep_at :: instant
  wt_status_at :: instant
  wt_clock :: clock
  wt_use_fakeip :: bool
  wt_links :: "ctl list"
  wt_wakes :: nat
  wt_reasons :: "(string \<times> reasons) list"
  wt_country :: country
  wt_country_at :: "instant option"
  wt_asking :: "network option option"
  wt_dns_dir :: "path option"
  wt_dns_at :: "instant option"
  wt_updater :: updater
  wt_missing :: "(string \<times> source \<times> io_error) list"
  wt_stale :: "(string \<times> source) list"
  wt_strays :: "(nat list \<times> instant) option"

text \<open>
  What a watch uses. \<open>we_net\<close> is what the tracker sent last, \<open>we_net_new\<close> whether the watch has not
  read it yet; \<open>we_asked\<close> and \<open>we_fetched\<close> are what the task that asks for the country and the one
  that fetches gave, once they are over; \<open>we_join\<close> waits for the links to stop.
\<close>

record ('k, 'w) watch_env =
  we_env :: "('k, 'w) env"
  we_stat :: "'w stat"
  we_tools :: tools
  we_nanos :: "'w \<Rightarrow> u32"
  we_net :: "'w \<Rightarrow> network option"
  we_net_new :: "'w \<Rightarrow> bool"
  we_nudge :: "'w \<Rightarrow> 'w"
  we_asked :: "'w \<Rightarrow> asked option option"
  we_fetched :: "'w \<Rightarrow> fetched option option"
  we_join :: "duration \<Rightarrow> 'w \<Rightarrow> 'w"

type_synonym ('k, 'w) wk = "watch \<times> 'k resolver \<times> 'w"

definition we_os :: "('k, 'w) watch_env \<Rightarrow> 'w os" where "we_os we = en_os (we_env we)"
definition we_now :: "('k, 'w) watch_env \<Rightarrow> 'w \<Rightarrow> instant" where "we_now we w = st_now (we_stat we) w"
definition we_unix :: "('k, 'w) watch_env \<Rightarrow> 'w \<Rightarrow> nat" where "we_unix we w = en_unix (we_env we) w"
definition we_others :: "('k, 'w) watch_env \<Rightarrow> 'k resolver \<times> 'w \<Rightarrow> 'k resolver \<times> 'w" where
  "we_others we = en_others (we_env we)"

definition Watch_new ::
    "('k, 'w) watch_env \<Rightarrow> path \<Rightarrow> nat \<Rightarrow> bool \<Rightarrow> bool \<Rightarrow> updater \<Rightarrow> ctl list \<Rightarrow> country \<Rightarrow> 'w \<Rightarrow> watch" where
  "Watch_new we state window trust system_dns u links c w =
     (let now = we_now we w; dir = dir_of state in
      \<lparr>wt_state_path = state, wt_dir = dir, wt_window = window, wt_network = None, wt_fakeip_at = now,
       wt_save_at = now + SAVE_EVERY, wt_sweep_at = now + SWEEP_EVERY, wt_status_at = now + STATUS_EVERY,
       wt_clock = \<lparr>ck_wall = st_wall (we_stat we) w, ck_mono = now\<rparr>, wt_use_fakeip = trust,
       wt_links = links, wt_wakes = 0, wt_reasons = [], wt_country = c, wt_country_at = None,
       wt_asking = None, wt_dns_dir = (if system_dns then Some dir else None), wt_dns_at = None,
       wt_updater = u, wt_missing = [], wt_stale = [], wt_strays = None\<rparr>)"

definition take_dns :: "('k, 'w) watch_env \<Rightarrow> ('k, 'w) wk \<Rightarrow> ('k, 'w) wk" where
  "take_dns we s =
     (case s of (k, r, w) \<Rightarrow>
        (case wt_dns_dir k of
           None \<Rightarrow> (k, r, w)
         | Some dir \<Rightarrow>
             (let (res, w) = take_over (we_os we) dir w;
                  (r, w) = we_others we (r, w)
              in case res of
                   Inr n \<Rightarrow> (k\<lparr>wt_dns_at := None\<rparr>, r, w)
                 | Inl e \<Rightarrow> (k\<lparr>wt_dns_at := Some (we_now we w + NET_POLL)\<rparr>, r, w))))"

definition tell_links :: "('k, 'w) wk \<Rightarrow> ('k, 'w) wk" where
  "tell_links s =
     (case s of (k, r, w) \<Rightarrow>
        (let want = wanted r in
         (k\<lparr>wt_links := map (\<lambda>(i, c). c\<lparr>ct_wanted := (case get want i of None \<Rightarrow> False | Some b \<Rightarrow> b),
              ct_wakes := wt_wakes k\<rparr>) (enumerate 0 (wt_links k))\<rparr>, r, w)))"

definition log_reasons :: "('k, 'w) wk \<Rightarrow> ('k, 'w) wk" where
  "log_reasons s = (case s of (k, r, w) \<Rightarrow> (k\<lparr>wt_reasons := resolver_reasons r\<rparr>, r, w))"

definition take_country :: "('k, 'w) watch_env \<Rightarrow> asked \<Rightarrow> network option \<Rightarrow> 'w \<Rightarrow> watch \<Rightarrow> watch \<times> 'w" where
  "take_country we a on w k =
     (if on \<noteq> wt_network k then (k, w)
      else case as_country a of
             None \<Rightarrow> (k\<lparr>wt_country_at := Some (we_now we w + COUNTRY_RETRY)\<rparr>, w)
           | Some code \<Rightarrow>
               (let at = we_unix we w;
                    w = snd (write_private (we_os we) (path_join (wt_dir k) COUNTRY_SEEN)
                      (code @ '' '' @ show_nat at @ [NL]) w)
                in (k\<lparr>wt_country := (wt_country k)\<lparr>cn_seen := Some (code, at), cn_seen_on := on\<rparr>\<rparr>, w)))"

text \<open>What the services answered, once the task that asks them is over.\<close>

definition join_country :: "('k, 'w) watch_env \<Rightarrow> watch \<Rightarrow> 'w \<Rightarrow> watch \<times> 'w" where
  "join_country we k w =
     (case (wt_asking k, we_asked we w) of
        (Some on, Some over) \<Rightarrow>
          (let k = k\<lparr>wt_asking := None\<rparr> in
           case over of None \<Rightarrow> (k, w) | Some a \<Rightarrow> take_country we a on w k)
      | _ \<Rightarrow> (k, w))"

text \<open>The services asked, when it is time, nobody is asking and there is a network.\<close>

definition ask_country :: "instant \<Rightarrow> watch \<Rightarrow> watch" where
  "ask_country now k =
     (if wt_asking k = None \<and> (case wt_country_at k of None \<Rightarrow> False | Some at \<Rightarrow> at \<le> now) \<and> wt_network k \<noteq> None
      then k\<lparr>wt_country_at := None, wt_asking := Some (wt_network k)\<rparr> else k)"

definition follow_country :: "('k, 'w) watch_env \<Rightarrow> ('k, 'w) wk \<Rightarrow> ('k, 'w) wk" where
  "follow_country we s =
     (case s of (k, r, w) \<Rightarrow>
        (let owner = read_country_flag (we_os we) (wt_dir k) w;
             before = fst (Country_now (wt_country k));
             k = k\<lparr>wt_country := (wt_country k)\<lparr>cn_owner := owner\<rparr>\<rparr>;
             (k, w) = join_country we k w;
             k = ask_country (we_now we w) k;
             code = fst (Country_now (wt_country k))
         in (k, if code \<noteq> before then snd (set_country code r) else r, w)))"

text \<open>
  The task that asks for the country, taken as one wait: \<open>r\<close> is the resolver it finds when it looks which
  addresses are held.
\<close>

definition country_task ::
    "(ask_error \<Rightarrow> string) \<Rightarrow> ('k, 'w) watch_env \<Rightarrow> network \<Rightarrow> 'k resolver \<Rightarrow> 'w \<Rightarrow> asked \<times> 'w" where
  "country_task words we n r w =
     geo_country words (we_os we) (en_net (we_env we)) (en_lib (we_env we)) (we_nanos we w) n (\<lambda>ip. held ip r) w"

definition follow_sources :: "('k, 'w) watch_env \<Rightarrow> ('k, 'w) wk \<Rightarrow> ('k, 'w) wk" where
  "follow_sources we s =
     (case s of (k, r, w) \<Rightarrow>
        (case poll (we_os we) (we_stat we) (we_fetched we w) (fetch_iface r) (wt_updater k) w of
           (False, u, w) \<Rightarrow> (k\<lparr>wt_updater := u\<rparr>, r, w)
         | (True, u, w) \<Rightarrow>
             (let (b, w) = Updater_build (we_os we) u w;
                  k = k\<lparr>wt_updater := u, wt_missing := bl_missing b, wt_stale := bl_stale b\<rparr>
              in if entry_count (bl_lists b) = 0 then (k, r, w)
                 else (let r = reconcile (en_kernel (we_env we)) (we_now we w) (set_lists (bl_lists b) r);
                           (res, r, w) = sync_pf (we_env we) r w
                       in (k, r, w)))))"

definition watch_network :: "('k, 'w) watch_env \<Rightarrow> ('k, 'w) wk \<Rightarrow> ('k, 'w) wk" where
  "watch_network we s =
     (case s of (k, r, w) \<Rightarrow>
        (let n = we_net we w in
         if n = wt_network k then (k, r, w)
         else (let r = set_use_fakeip False (set_network n r);
                   now = we_now we w;
                   k = k\<lparr>wt_fakeip_at := now, wt_dns_at := Some now,
                     wt_country_at := (if n \<noteq> None \<and> (n \<noteq> cn_seen_on (wt_country k) \<or>
                         Country_stale (we_unix we w) (wt_country k))
                       then Some now else wt_country_at k),
                     wt_network := n\<rparr>
               in (k, r, w))))"

definition detect_upstream_fakeip :: "('k, 'w) watch_env \<Rightarrow> ('k, 'w) wk \<Rightarrow> ('k, 'w) wk" where
  "detect_upstream_fakeip we s =
     (case s of (k, r, w) \<Rightarrow>
        (if \<not> wt_use_fakeip k then (k, r, w)
         else case wt_network k of
                None \<Rightarrow> (k, set_use_fakeip False r, w)
              | Some n \<Rightarrow>
                  (let (res, w) = upstream_has_fakeip (en_net (we_env we)) (en_lib (we_env we))
                         (we_nanos we w) (Network_upstream n) w;
                       (r, w) = we_others we (r, w)
                   in case res of
                        Inr p \<Rightarrow> (k, set_use_fakeip p r, w)
                      | Inl e \<Rightarrow> (k, r, w))))"

definition stop_strays :: "('k, 'w) watch_env \<Rightarrow> ('k, 'w) wk \<Rightarrow> ('k, 'w) wk" where
  "stop_strays we s =
     (case s of (k, r, w) \<Rightarrow>
        (case wt_strays k of
           None \<Rightarrow> (k, r, w)
         | Some (pids, since) \<Rightarrow>
             if all_routed r \<or> STRAYS_WAIT \<le> we_now we w - since
             then (k\<lparr>wt_strays := None\<rparr>, we_others we (r, stop_pids (we_os we) pids w))
             else (k, r, w)))"

definition watch_save :: "('k, 'w) watch_env \<Rightarrow> ('k, 'w) wk \<Rightarrow> ('k, 'w) wk" where
  "watch_save we s =
     (case s of (k, r, w) \<Rightarrow>
        (case hosts_save (we_os we) (wt_state_path k) (hosts_snapshot r) w of
           (Inl e, w) \<Rightarrow> (k, mark_dirty r, w)
         | (Inr _, w) \<Rightarrow> (k, r, w)))"

definition save_due :: "('k, 'w) watch_env \<Rightarrow> instant \<Rightarrow> ('k, 'w) wk \<Rightarrow> ('k, 'w) wk" where
  "save_due we now s =
     (case s of (k, r, w) \<Rightarrow>
        (if wt_save_at k \<le> now
         then (let (dirty, r) = take_dirty r;
                   k = k\<lparr>wt_save_at := now + SAVE_EVERY\<rparr>
               in if dirty then watch_save we (k, r, w) else (k, r, w))
         else (k, r, w)))"

definition sweep_due :: "('k, 'w) watch_env \<Rightarrow> instant \<Rightarrow> ('k, 'w) wk \<Rightarrow> ('k, 'w) wk" where
  "sweep_due we now s =
     (case s of (k, r, w) \<Rightarrow>
        (if wt_sweep_at k \<le> now
         then (let (n, r, w) = expire (we_env we) (we_unix we w) (wt_window k) r w
               in (k\<lparr>wt_sweep_at := now + SWEEP_EVERY\<rparr>, r, w))
         else (k, r, w)))"

definition housekeeping :: "('k, 'w) watch_env \<Rightarrow> ('k, 'w) wk \<Rightarrow> ('k, 'w) wk" where
  "housekeeping we s =
     (case s of (k, r, w) \<Rightarrow>
        (let now = we_now we w;
             s = (if (case wt_dns_at k of None \<Rightarrow> False | Some at \<Rightarrow> at \<le> now) then take_dns we (k, r, w) else (k, r, w));
             (k, r, w) = sweep_due we now (save_due we now s)
         in (if wt_status_at k \<le> now then k\<lparr>wt_status_at := now + STATUS_EVERY\<rparr> else k, r, w)))"

text \<open>A wake: counted, the tracker nudged, the country asked when the last answer is old.\<close>

definition watch_wake :: "('k, 'w) watch_env \<Rightarrow> ('k, 'w) wk \<Rightarrow> ('k, 'w) wk" where
  "watch_wake we s =
     (case s of (k, r, w) \<Rightarrow>
        (let now = we_now we w;
             (gap, ck) = Clock_slept (st_wall (we_stat we) w) (we_now we w) (wt_clock k);
             k = k\<lparr>wt_clock := ck\<rparr>
         in case gap of
              None \<Rightarrow> (k, r, w)
            | Some _ \<Rightarrow>
                (k\<lparr>wt_wakes := wt_wakes k + 1,
                   wt_country_at := (if Country_stale (we_unix we w) (wt_country k) then Some now else wt_country_at k)\<rparr>,
                 r, we_nudge we w)))"

definition look_network :: "('k, 'w) watch_env \<Rightarrow> ('k, 'w) wk \<Rightarrow> ('k, 'w) wk" where
  "look_network we s =
     (case (if we_net_new we (snd (snd s)) then watch_network we s else s) of (k, r, w) \<Rightarrow>
        (if wt_fakeip_at k \<le> we_now we w
         then detect_upstream_fakeip we (k\<lparr>wt_fakeip_at := we_now we w + FAKEIP_EVERY\<rparr>, r, w)
         else (k, r, w)))"

definition apply_rules :: "('k, 'w) watch_env \<Rightarrow> ('k, 'w) wk \<Rightarrow> ('k, 'w) wk" where
  "apply_rules we s =
     (case s of (k, r, w) \<Rightarrow>
        (let r = set_owner (st_exists (we_stat we) (path_join (wt_dir k) OWNER_FLAG) w) r;
             (k, r, w) = tell_links (follow_country we (k, r, w));
             r = reconcile (en_kernel (we_env we)) (we_now we w) r;
             (k, r, w) = log_reasons (k, r, w);
             (res, r, w) = sync_pf (we_env we) r w
         in (k, r, w)))"

definition watch_step :: "('k, 'w) watch_env \<Rightarrow> ('k, 'w) wk \<Rightarrow> ('k, 'w) wk" where
  "watch_step we s =
     follow_sources we (housekeeping we (stop_strays we (apply_rules we (look_network we (watch_wake we s)))))"

text \<open>
  The stop. The links are waited for one after the other, each for at most \<open>LINKS_EXIT\<close>, and run
  meanwhile.
\<close>

fun join_links :: "('k, 'w) watch_env \<Rightarrow> ctl list \<Rightarrow> 'k resolver \<Rightarrow> 'w \<Rightarrow> 'k resolver \<times> 'w" where
  "join_links we [] r w = (r, w)"
| "join_links we (c # cs) r w =
     (let (r, w) = we_others we (r, we_join we LINKS_EXIT w) in join_links we cs r w)"

definition stop_dns :: "('k, 'w) watch_env \<Rightarrow> ('k, 'w) wk \<Rightarrow> nat io_result option \<times> ('k, 'w) wk" where
  "stop_dns we s =
     (case s of (k, r, w) \<Rightarrow>
        (case wt_dns_dir k of
           None \<Rightarrow> (None, k, r, w)
         | Some dir \<Rightarrow>
             (let (res, w) = give_back (we_os we) dir w; (r, w) = we_others we (r, w) in (Some res, k, r, w))))"

definition stop_links :: "('k, 'w) watch_env \<Rightarrow> ('k, 'w) wk \<Rightarrow> ('k, 'w) wk" where
  "stop_links we s =
     (case s of (k, r, w) \<Rightarrow>
        (let cs = map (\<lambda>c. c\<lparr>ct_stop := True\<rparr>) (wt_links k);
             (r, w) = join_links we cs r w
         in (k\<lparr>wt_links := []\<rparr>, r, w)))"

definition watch_stop :: "('k, 'w) watch_env \<Rightarrow> ('k, 'w) wk \<Rightarrow> ('k, 'w) wk" where
  "watch_stop we s =
     (let (dns, s) = stop_dns we s;
          (k, r, w) = stop_links we s;
          (n, r) = remove_all (en_kernel (we_env we)) r;
          (k, r, w) = watch_save we (k, r, w);
          (r, w) = (case rv_pf r of
             None \<Rightarrow> (r, w)
           | Some dir \<Rightarrow> we_others we (r, snd (Pf_release (we_os we) dir w)))
      in (k, r, snd (os_remove (we_os we) (path_join (wt_dir k) OWNER_FLAG) w)))"

section \<open>The tracker\<close>

text \<open>One look of the tracker: \<open>sent\<close> is what it sent last.\<close>

definition track_network ::
    "('k, 'w) env \<Rightarrow> (string \<Rightarrow> u16 io_result) \<Rightarrow> network option \<Rightarrow> 'k resolver \<Rightarrow> 'w \<Rightarrow>
      network option \<times> 'k resolver \<times> 'w" where
  "track_network env if_index_of sent r w =
     (let (n, w) = net_current (en_os env) if_index_of w;
          (r, w) = en_others env (r, w)
      in if n \<noteq> sent then (n, set_use_fakeip False (set_network n r), w) else (sent, r, w))"

text \<open>
  The loop, over what ended each of its waits: the poll, the nudge of a wake, or an event of the
  routing socket, as long as that is open; a burst of events is waited out, an error closes it.
\<close>

datatype wakeup = Poll | Nudge | Event "unit io_result"

record tracker =
  tk_sent :: "network option"
  tk_events :: bool

fun woken ::
    "('k, 'w) env \<Rightarrow> wakeup \<Rightarrow> tracker \<times> 'k resolver \<times> 'w \<Rightarrow> tracker \<times> 'k resolver \<times> 'w" where
  "woken env (Event got) (t, r, w) =
     (if \<not> tk_events t then (t, r, w)
      else case got of
             Inr _ \<Rightarrow> (t, en_others env (r, w))
           | Inl e \<Rightarrow> (t\<lparr>tk_events := False\<rparr>, r, w))"
| "woken env _ s = s"

fun track_loop ::
    "('k, 'w) env \<Rightarrow> (string \<Rightarrow> u16 io_result) \<Rightarrow> wakeup list \<Rightarrow> tracker \<times> 'k resolver \<times> 'w \<Rightarrow>
      tracker \<times> 'k resolver \<times> 'w" where
  "track_loop env if_index_of [] s = s"
| "track_loop env if_index_of (got # rest) (t, r, w) =
     (let (sent, r, w) = track_network env if_index_of (tk_sent t) r w;
          (r, w) = en_others env (r, w)
      in track_loop env if_index_of rest (woken env got (t\<lparr>tk_sent := sent\<rparr>, r, w)))"

section \<open>A start\<close>

definition open_sources :: "('k, 'w) watch_env \<Rightarrow> (path \<Rightarrow> 'w \<Rightarrow> unit io_result \<times> 'w) \<Rightarrow> path \<Rightarrow> path \<Rightarrow> settings \<Rightarrow> 'w \<Rightarrow>
      updater io_result \<times> 'w" where
  "open_sources we mkdir settings_path state st w =
     (let dir = dir_of state; cache = path_join dir CACHE in
      case mkdir cache w of
        (Inl e, w) \<Rightarrow> (Inl e, w)
      | (Inr _, w) \<Rightarrow>
          (Inr (Updater_new (we_stat we) st (dir_of settings_path) cache (path_join dir UPDATE_FLAG) w), w))"

definition spawn_links ::
    "('k, 'w) link_env \<Rightarrow> settings \<Rightarrow> conf list \<Rightarrow> 'k resolver \<Rightarrow> 'w \<Rightarrow> (ctl \<times> link) list" where
  "spawn_links le st confs r w =
     map (\<lambda>(i, c). (\<lparr>ct_wanted = (case get (wanted r) i of None \<Rightarrow> False | Some b \<Rightarrow> b), ct_wakes = 0, ct_stop = False\<rparr>,
        with_grace (s_degraded_grace st) (Link_new le i c w)))
       (enumerate 0 (take (length (s_tunnels st)) confs))"

text \<open>
  The resolver of a start: made of the lists, the rules and the tunnels, told the servers written
  as addresses, given the country, its rules and the saved hosts.
\<close>

fun tell_endpoints :: "nat \<Rightarrow> conf list \<Rightarrow> 'k resolver \<Rightarrow> 'k resolver" where
  "tell_endpoints i [] r = r"
| "tell_endpoints i (c # cs) r =
     tell_endpoints (Suc i) cs
       (case endpoint_ip c of
          None \<Rightarrow> r
        | Some ip \<Rightarrow> set_link i (LinkState_default\<lparr>ls_endpoint := Some ip\<rparr>) r)"

definition start_resolver ::
    "built \<Rightarrow> settings \<Rightarrow> conf list \<Rightarrow> ipv4 \<Rightarrow> 'k route_socket \<Rightarrow> path \<Rightarrow> duration \<Rightarrow> country \<Rightarrow>
      (ipv4 \<times> nat \<times> nat) list \<Rightarrow> 'k resolver" where
  "start_resolver b st confs tunnel_dns routes dir limit c hosts =
     (let r = Resolver_new (bl_lists b) (s_rules st) (map t_name (s_tunnels st)) tunnel_dns routes (Some dir) limit;
          r = tell_endpoints 0 confs r;
          r = snd (set_country (fst (Country_now c)) r)
      in load_hosts hosts r)"

end
