(* ===== verification/Daemon_Facts.thy ===== *)
theory Daemon_Facts
  imports Daemon Resolver_Run
begin

text \<open>
  What holds of the daemon: the watch does nothing to the resolver but its operations, and a stop
  leaves no route; the rules in force are always those of the country; saved hosts survive a
  restart with their rules and times; lists are never replaced by nothing; the owner's word comes
  first; the tunnel files that are taken have addresses of their own.
\<close>

section \<open>The watch is a run of the resolver\<close>

lemma we_others_run:
  "env_ok (we_env we) \<Longrightarrow> we_others we (r, w) = (r', w') \<Longrightarrow> rv_run (en_kernel (we_env we)) r r'"
  unfolding we_others_def by (rule others_run)

lemma run_one: "rv_step krn r r' \<Longrightarrow> rv_run krn r r'"
  by (rule r_into_rtranclp)

lemma network_run: "rv_run krn r (set_use_fakeip b (set_network n r))"
  by (rule rtranclp.rtrancl_into_rtrancl [OF run_one [OF step_network] step_use_fakeip])

lemma track_network_run:
  assumes "env_ok env" "track_network env ix sent r w = (sent', r', w')"
  shows "rv_run (en_kernel env) r r'"
  using assms(2)
  by (auto simp: track_network_def split: prod.splits if_splits dest!: others_run [OF assms(1)]
      intro: rtranclp_trans network_run)

lemma woken_run:
  "env_ok env \<Longrightarrow> woken env got (t, r, w) = (t', r', w') \<Longrightarrow> rv_run (en_kernel env) r r'"
  by (cases got) (auto split: if_splits sum.splits dest: others_run)

lemma track_loop_run:
  assumes "env_ok env"
  shows "track_loop env ix wakes (t, r, w) = (t', r', w') \<Longrightarrow> rv_run (en_kernel env) r r'"
proof (induction wakes arbitrary: t r w)
  case (Cons got rest)
  obtain sent r1 w1 where 1: "track_network env ix (tk_sent t) r w = (sent, r1, w1)" by (metis prod_cases3)
  obtain r2 w2 where 2: "en_others env (r1, w1) = (r2, w2)" by fastforce
  obtain t3 r3 w3 where 3: "woken env got (t\<lparr>tk_sent := sent\<rparr>, r2, w2) = (t3, r3, w3)" by (metis prod_cases3)
  have "track_loop env ix rest (t3, r3, w3) = (t', r', w')" using Cons.prems by (simp add: 1 2 3)
  then have "rv_run (en_kernel env) r3 r'" by (rule Cons.IH)
  then show ?case
    using track_network_run [OF assms 1] others_run [OF assms 2] woken_run [OF assms 3] by (meson rtranclp_trans)
qed simp

lemma take_dns_run:
  "env_ok (we_env we) \<Longrightarrow> take_dns we (k, r, w) = (k', r', w') \<Longrightarrow> rv_run (en_kernel (we_env we)) r r'"
  by (auto simp: take_dns_def Let_def split: option.splits prod.splits sum.splits dest: we_others_run)

lemma follow_country_resolver:
  "follow_country we (k, r, w) = (k', r', w') \<Longrightarrow> r' = r \<or> (\<exists>c. r' = snd (set_country c r))"
  by (auto simp: follow_country_def Let_def split: prod.splits if_splits)

lemma follow_country_run:
  assumes "follow_country we (k, r, w) = (k', r', w')"
  shows "rv_run krn r r'"
  using follow_country_resolver [OF assms] run_one [OF step_country] by auto

lemma tell_links_resolver: "tell_links (k, r, w) = (k', r', w') \<Longrightarrow> r' = r \<and> w' = w"
  by (simp add: tell_links_def Let_def)

lemma watch_network_run: "watch_network we (k, r, w) = (k', r', w') \<Longrightarrow> rv_run krn r r'"
  using network_run [of krn r False] by (auto simp: watch_network_def Let_def split: if_splits)

lemma detect_run:
  assumes "env_ok (we_env we)" "detect_upstream_fakeip we (k, r, w) = (k', r', w')"
  shows "rv_run (en_kernel (we_env we)) r r'"
proof -
  consider (off) "\<not> wt_use_fakeip k" | (none) "wt_use_fakeip k" "wt_network k = None"
    | (ask) n where "wt_use_fakeip k" "wt_network k = Some n" by blast
  then show ?thesis
  proof cases
    case ask
    obtain res w1 where 1: "upstream_has_fakeip (en_net (we_env we)) (en_lib (we_env we)) (we_nanos we w)
        (Network_upstream n) w = (res, w1)" by fastforce
    obtain r2 w2 where 2: "we_others we (r, w1) = (r2, w2)" by fastforce
    have r2: "rv_run (en_kernel (we_env we)) r r2" by (rule we_others_run [OF assms(1) 2])
    have "r' = r2 \<or> (\<exists>b. r' = set_use_fakeip b r2)"
      using assms(2) ask 1 2 by (auto simp: detect_upstream_fakeip_def split: sum.splits)
    with r2 show ?thesis by (auto intro: rtranclp.rtrancl_into_rtrancl step_use_fakeip)
  qed (use assms(2) in \<open>auto simp: detect_upstream_fakeip_def intro: run_one step_use_fakeip\<close>)
qed

lemma look_network_run:
  assumes "env_ok (we_env we)" "look_network we (k, r, w) = (k', r', w')"
  shows "rv_run (en_kernel (we_env we)) r r'"
proof -
  obtain k1 r1 w1 where 1: "(if we_net_new we w then watch_network we (k, r, w) else (k, r, w)) = (k1, r1, w1)"
    by (cases "if we_net_new we w then watch_network we (k, r, w) else (k, r, w)") auto
  have r1: "rv_run (en_kernel (we_env we)) r r1"
    using 1 watch_network_run by (fastforce split: if_splits)
  show ?thesis
  proof (cases "wt_fakeip_at k1 \<le> we_now we w1")
    case True
    with assms(2) 1 have "detect_upstream_fakeip we (k1\<lparr>wt_fakeip_at := we_now we w1 + FAKEIP_EVERY\<rparr>, r1, w1) = (k', r', w')"
      by (simp add: look_network_def)
    from rtranclp_trans [OF r1 detect_run [OF assms(1) this]] show ?thesis .
  next
    case False
    with assms(2) 1 r1 show ?thesis by (simp add: look_network_def)
  qed
qed

lemma apply_rules_run:
  assumes "env_ok (we_env we)" "apply_rules we (k, r, w) = (k', r', w')"
  shows "rv_run (en_kernel (we_env we)) r r'"
proof -
  let ?krn = "en_kernel (we_env we)"
  let ?r0 = "set_owner (st_exists (we_stat we) (path_join (wt_dir k) OWNER_FLAG) w) r"
  obtain k1 r1 w1 where 1: "follow_country we (k, ?r0, w) = (k1, r1, w1)"
    by (cases "follow_country we (k, ?r0, w)") auto
  obtain k2 where 2: "tell_links (k1, r1, w1) = (k2, r1, w1)" by (simp add: tell_links_def Let_def)
  let ?r2 = "reconcile ?krn (we_now we w1) r1"
  obtain x r3 w3 where 3: "sync_pf (we_env we) ?r2 w1 = (x, r3, w3)" by (cases "sync_pf (we_env we) ?r2 w1") auto
  have "rv_run ?krn r r1"
    using converse_rtranclp_into_rtranclp [of "rv_step ?krn", OF step_owner follow_country_run [OF 1]] .
  then have "rv_run ?krn r ?r2" by (rule rtranclp.rtrancl_into_rtrancl) (rule step_reconcile)
  then have "rv_run ?krn r r3" using sync_pf_run [OF assms(1) 3] by (rule rtranclp_trans)
  moreover have "r' = r3" using assms(2) 1 2 3 by (simp add: apply_rules_def log_reasons_def Let_def)
  ultimately show ?thesis by simp
qed

lemma stop_strays_run:
  "env_ok (we_env we) \<Longrightarrow> stop_strays we (k, r, w) = (k', r', w') \<Longrightarrow> rv_run (en_kernel (we_env we)) r r'"
  by (auto simp: stop_strays_def split: option.splits prod.splits if_splits dest: we_others_run)

lemma watch_save_run: "watch_save we (k, r, w) = (k', r', w') \<Longrightarrow> rv_run krn r r'"
  by (auto simp: watch_save_def mark_dirty_def split: prod.splits sum.splits intro: run_one step_dirty)

lemma save_due_run:
  assumes "save_due we now (k, r, w) = (k', r', w')"
  shows "rv_run krn r r'"
proof -
  have d: "rv_step krn r (r\<lparr>rv_dirty := False\<rparr>)" by (rule step_dirty)
  have s: "rv_run krn r r'" if "watch_save we (a, r\<lparr>rv_dirty := False\<rparr>, w) = (k', r', w')" for a
    using converse_rtranclp_into_rtranclp [of "rv_step krn", OF d watch_save_run [OF that]] .
  with assms d show ?thesis by (auto simp: save_due_def take_dirty_def Let_def split: if_splits)
qed

lemma sweep_due_run:
  "env_ok (we_env we) \<Longrightarrow> sweep_due we now (k, r, w) = (k', r', w') \<Longrightarrow> rv_run (en_kernel (we_env we)) r r'"
  by (auto simp: sweep_due_def Let_def split: prod.splits if_splits dest: expire_run)

lemma housekeeping_run:
  assumes "env_ok (we_env we)" "housekeeping we (k, r, w) = (k', r', w')"
  shows "rv_run (en_kernel (we_env we)) r r'"
proof -
  let ?krn = "en_kernel (we_env we)" and ?now = "we_now we w"
  let ?due = "case wt_dns_at k of None \<Rightarrow> False | Some at \<Rightarrow> at \<le> ?now"
  obtain k1 r1 w1 where 1: "(if ?due then take_dns we (k, r, w) else (k, r, w)) = (k1, r1, w1)"
    by (cases "if ?due then take_dns we (k, r, w) else (k, r, w)") auto
  obtain k2 r2 w2 where 2: "save_due we ?now (k1, r1, w1) = (k2, r2, w2)" by (cases "save_due we ?now (k1, r1, w1)") auto
  obtain k3 r3 w3 where 3: "sweep_due we ?now (k2, r2, w2) = (k3, r3, w3)" by (cases "sweep_due we ?now (k2, r2, w2)") auto
  have "rv_run ?krn r r1" using 1 take_dns_run [OF assms(1)] by (fastforce split: if_splits)
  then have "rv_run ?krn r r3"
    using save_due_run [OF 2] sweep_due_run [OF assms(1) 3] by (meson rtranclp_trans)
  moreover have "r' = r3" using assms(2) 1 2 3 by (simp add: housekeeping_def Let_def)
  ultimately show ?thesis by simp
qed

lemma Built_ok:
  "lists_ok (bl_lists out) \<Longrightarrow> build_loop os base cache srcs out w = (out', w') \<Longrightarrow> lists_ok (bl_lists out')"
proof (induction srcs arbitrary: out w)
  case (Cons e srcs)
  obtain name s where e: "e = (name, s)" by fastforce
  obtain o1 w1 where 1: "build_source os base cache name s out w = (o1, w1)" by fastforce
  have "lists_ok (bl_lists o1)"
    using 1 Cons.prems(1) by (auto simp: build_source_def lists_ok_add split: prod.splits sum.splits)
  with Cons.IH Cons.prems(2) 1 show ?case by (simp add: e)
qed simp

lemma build_ok: "Updater_build os u w = (b, w') \<Longrightarrow> lists_ok (bl_lists b)"
  using Built_ok [of Built_default] by (simp add: Updater_build_def build_def Built_default_def lists_ok_default)

lemma follow_sources_cases:
  assumes "follow_sources we (k, r, w) = (k', r', w')"
  obtains (same) "r' = r"
  | (taken) b u w1 w2 x where "Updater_build (we_os we) u w1 = (b, w2)" "entry_count (bl_lists b) \<noteq> 0"
    "sync_pf (we_env we) (reconcile (en_kernel (we_env we)) (we_now we w2) (set_lists (bl_lists b) r)) w2 = (x, r', w')"
proof -
  obtain c u w1 where p: "poll (we_os we) (we_stat we) (we_fetched we w) (fetch_iface r) (wt_updater k) w = (c, u, w1)"
    by (cases "poll (we_os we) (we_stat we) (we_fetched we w) (fetch_iface r) (wt_updater k) w") auto
  show thesis
  proof (cases c)
    case False
    with assms p same show thesis by (simp add: follow_sources_def)
  next
    case True
    obtain b w2 where b: "Updater_build (we_os we) u w1 = (b, w2)" by fastforce
    show thesis
    proof (cases "entry_count (bl_lists b) = 0")
      case True
      with \<open>c\<close> assms p b same show thesis by (simp add: follow_sources_def)
    next
      case False
      obtain x r3 w3 where s: "sync_pf (we_env we)
          (reconcile (en_kernel (we_env we)) (we_now we w2) (set_lists (bl_lists b) r)) w2 = (x, r3, w3)"
        by (metis prod.collapse)
      with \<open>c\<close> assms p b False have "r3 = r'" "w3 = w'" by (simp_all add: follow_sources_def Let_def)
      with taken [OF b False] s show thesis by simp
    qed
  qed
qed

lemma follow_sources_run:
  assumes "env_ok (we_env we)" "follow_sources we (k, r, w) = (k', r', w')"
  shows "rv_run (en_kernel (we_env we)) r r'"
  using assms(2)
proof (cases rule: follow_sources_cases)
  case (taken b u w1 w2 x)
  let ?krn = "en_kernel (we_env we)"
  have "rv_run ?krn r (set_lists (bl_lists b) r)" by (intro run_one step_lists build_ok [OF taken(1)])
  then have "rv_run ?krn r (reconcile ?krn (we_now we w2) (set_lists (bl_lists b) r))"
    by (rule rtranclp.rtrancl_into_rtrancl) (rule step_reconcile)
  then show ?thesis using sync_pf_run [OF assms(1) taken(3)] by (rule rtranclp_trans)
qed simp

lemma watch_wake_resolver: "watch_wake we (k, r, w) = (k', r', w') \<Longrightarrow> r' = r"
  by (auto simp: watch_wake_def Let_def split: prod.splits option.splits)

theorem watch_step_run:
  assumes "env_ok (we_env we)" "watch_step we (k, r, w) = (k', r', w')"
  shows "rv_run (en_kernel (we_env we)) r r'"
proof -
  obtain k1 r1 w1 where 1: "watch_wake we (k, r, w) = (k1, r1, w1)" by (cases "watch_wake we (k, r, w)") auto
  obtain k2 r2 w2 where 2: "look_network we (k1, r1, w1) = (k2, r2, w2)" by (cases "look_network we (k1, r1, w1)") auto
  obtain k3 r3 w3 where 3: "apply_rules we (k2, r2, w2) = (k3, r3, w3)" by (cases "apply_rules we (k2, r2, w2)") auto
  obtain k4 r4 w4 where 4: "stop_strays we (k3, r3, w3) = (k4, r4, w4)" by (cases "stop_strays we (k3, r3, w3)") auto
  obtain k5 r5 w5 where 5: "housekeeping we (k4, r4, w4) = (k5, r5, w5)" by (cases "housekeeping we (k4, r4, w4)") auto
  have "follow_sources we (k5, r5, w5) = (k', r', w')" using assms(2) 1 2 3 4 5 by (simp add: watch_step_def)
  with watch_wake_resolver [OF 1] look_network_run [OF assms(1) 2] apply_rules_run [OF assms(1) 3]
    stop_strays_run [OF assms(1) 4] housekeeping_run [OF assms(1) 5] follow_sources_run [OF assms(1)]
  show ?thesis by (meson rtranclp_trans)
qed

section \<open>The stop\<close>

lemma join_links_run:
  "env_ok (we_env we) \<Longrightarrow> join_links we cs r w = (r', w') \<Longrightarrow> rv_run (en_kernel (we_env we)) r r'"
proof (induction cs arbitrary: r w)
  case (Cons c cs)
  obtain r1 w1 where 1: "we_others we (r, we_join we LINKS_EXIT w) = (r1, w1)" by fastforce
  with Cons.prems(2) have "join_links we cs r1 w1 = (r', w')" by simp
  from rtranclp_trans [OF we_others_run [OF Cons.prems(1) 1] Cons.IH [OF Cons.prems(1) this]] show ?case .
qed simp

lemma watch_stop_run:
  assumes "env_ok (we_env we)" "watch_stop we (k, r, w) = (k', r', w')"
  shows "\<exists>r1 r2. rv_run (en_kernel (we_env we)) r r1 \<and> r2 = snd (remove_all (en_kernel (we_env we)) r1) \<and>
    rv_run (en_kernel (we_env we)) r2 r'"
proof -
  let ?krn = "en_kernel (we_env we)"
  obtain dns k1 r1 w1 where 1: "stop_dns we (k, r, w) = (dns, k1, r1, w1)" by (cases "stop_dns we (k, r, w)") auto
  obtain k2 r2 w2 where 2: "stop_links we (k1, r1, w1) = (k2, r2, w2)" by (cases "stop_links we (k1, r1, w1)") auto
  obtain n r3 where 3: "remove_all ?krn r2 = (n, r3)" by fastforce
  obtain k4 r4 w4 where 4: "watch_save we (k2, r3, w2) = (k4, r4, w4)" by (cases "watch_save we (k2, r3, w2)") auto
  have "rv_run ?krn r r1"
    using 1 by (auto simp: stop_dns_def Let_def split: option.splits prod.splits dest: we_others_run [OF assms(1)])
  moreover have "rv_run ?krn r1 r2"
    using 2 by (auto simp: stop_links_def Let_def split: prod.splits dest: join_links_run [OF assms(1)])
  moreover have "rv_run ?krn r4 r'"
    using assms(2) 1 2 3 4
    by (auto simp: watch_stop_def Let_def split: option.splits prod.splits dest: we_others_run [OF assms(1)])
  ultimately show ?thesis
    using watch_save_run [OF 4] 3 by (metis rtranclp_trans snd_conv)
qed

lemma watch_stop_run':
  assumes "env_ok (we_env we)" "watch_stop we (k, r, w) = (k', r', w')"
  shows "rv_run (en_kernel (we_env we)) r r'"
  using watch_stop_run [OF assms] step_remove_all
  by (metis (no_types, lifting) rtranclp.rtrancl_into_rtrancl rtranclp_trans)

text \<open>
  No route outlives a stop, and nothing sets one again: not even what the others still do while
  the last files are written.
\<close>

lemma stop_leaves:
  assumes "env_ok (we_env we)" "kernel_obeys (en_kernel (we_env we)) tbl" "resolver_ok r" "accounted tbl T r"
    "watch_stop we (k, r, w) = (k', r', w')"
  shows "cr_stopped (rv_core r')" "tbl (sock (rv_routes r')) key \<noteq> None \<Longrightarrow> key \<in> T"
proof -
  let ?krn = "en_kernel (we_env we)"
  obtain r1 r2 where 1: "rv_run ?krn r r1" and 2: "r2 = snd (remove_all ?krn r1)" and 3: "rv_run ?krn r2 r'"
    using watch_stop_run [OF assms(1,5)] by blast
  have ok1: "resolver_ok r1" and ac1: "accounted tbl T r1"
    using ok_run [OF 1 assms(3)] accounted_run [OF assms(2) 1 assms(3,4)] .
  have ok2: "resolver_ok r2" using ok_remove_all [OF ok1] 2 by simp
  have stopped: "cr_stopped (rv_core r2)" by (simp add: 2 remove_all_core)
  note run = stopped_run [OF 3 ok2 stopped]
  then show "cr_stopped (rv_core r')" by blast
  show "key \<in> T" if "tbl (sock (rv_routes r')) key \<noteq> None"
    using accounted_remove_all [OF assms(2) ac1] that run 2 by simp
qed

section \<open>The country\<close>

text \<open>The rules that are active are those that hold in the country.\<close>

definition rules_follow :: "country \<Rightarrow> 'k resolver \<Rightarrow> bool" where
  "rules_follow c r \<longleftrightarrow>
     (\<forall>x\<in>set (cr_rules (rv_core r)). rn_active x = holds (rn_when x) (fst (Country_now c)))"

lemma rules_follow_set: "fst (Country_now c) = code \<Longrightarrow> rules_follow c (snd (set_country code r))"
  by (simp add: rules_follow_def set_country_core)

lemma rules_follow_now: "fst (Country_now c') = fst (Country_now c) \<Longrightarrow> rules_follow c r \<Longrightarrow> rules_follow c' r"
  by (simp add: rules_follow_def)

lemma ask_country_kept: "wt_country (ask_country now k) = wt_country k" "wt_network (ask_country now k) = wt_network k"
  by (simp_all add: ask_country_def)

lemma rules_follow_country:
  assumes "rules_follow (wt_country k) r" "follow_country we (k, r, w) = (k', r', w')"
  shows "rules_follow (wt_country k') r'"
proof -
  let ?owner = "read_country_flag (we_os we) (wt_dir k) w"
  obtain k1 w1 where j: "join_country we (k\<lparr>wt_country := (wt_country k)\<lparr>cn_owner := ?owner\<rparr>\<rparr>) w = (k1, w1)"
    by fastforce
  let ?k2 = "ask_country (we_now we w1) k1"
  let ?code = "fst (Country_now (wt_country ?k2))"
  have k': "k' = ?k2" and r': "r' = (if ?code \<noteq> fst (Country_now (wt_country k)) then snd (set_country ?code r) else r)"
    using assms(2) j by (auto simp: follow_country_def Let_def)
  show ?thesis
  proof (cases "?code = fst (Country_now (wt_country k))")
    case True
    with assms(1) k' r' show ?thesis by (simp add: rules_follow_now [of "wt_country ?k2" "wt_country k"])
  next
    case False
    with k' r' show ?thesis by (simp add: rules_follow_set)
  qed
qed

text \<open>An answer is kept only when it was asked for on the network the daemon is on.\<close>

lemma take_country_old: "on \<noteq> wt_network k \<Longrightarrow> take_country we a on w k = (k, w)"
  by (simp add: take_country_def)

lemma take_country_seen:
  assumes "take_country we a on w k = (k', w')" "wt_country k' \<noteq> wt_country k"
  shows "on = wt_network k \<and> (\<exists>code. as_country a = Some code \<and> cn_seen (wt_country k') = Some (code, we_unix we w))"
  using assms by (auto simp: take_country_def Let_def split: if_splits option.splits)

text \<open>The owner's word, and what the services said, are read back from their files.\<close>

lemma upper_not_ws: "is_upper x \<Longrightarrow> \<not> is_ws x"
  by (auto simp: is_upper_def is_ws_def)

lemma country_code_id: "length c = 2 \<Longrightarrow> list_all is_upper c \<Longrightarrow> country_code c = Some c"
  by (simp add: country_code_def trim_id list_all_iff upper_not_ws)

lemma country_code_line: "length c = 2 \<Longrightarrow> list_all is_upper c \<Longrightarrow> country_code (c @ [NL]) = Some c"
proof -
  assume c: "length c = 2" "list_all is_upper c"
  have ws: "\<forall>x\<in>set c. \<not> is_ws x" using c(2) by (auto simp: list_all_iff upper_not_ws)
  have "trim (c @ [NL]) = c"
  proof -
    have "trim_start (c @ [NL]) = c @ [NL]" using ws c(1) by (cases c) (auto simp: trim_start_def)
    moreover have "is_ws NL" by (simp add: is_ws_def NL_def)
    ultimately show ?thesis using ws by (simp add: trim_def trim_end_def dropWhile_none)
  qed
  with c show ?thesis by (simp add: country_code_def)
qed

lemma parse_seen_line:
  assumes "length c = 2" "list_all is_upper c" "at < 2 ^ 64"
  shows "parse_seen (c @ '' '' @ show_nat at @ [NL]) = Some (c, at)"
proof -
  have ws: "\<forall>x\<in>set c. \<not> is_ws x" "c \<noteq> []" using assms(1,2) by (auto simp: list_all_iff upper_not_ws)
  have nl: "is_ws NL" "is_ws (CHR '' '')" by (simp_all add: is_ws_def NL_def)
  have "split_whitespace (c @ '' '' @ show_nat at @ [NL]) = [c, show_nat at]"
    using split_whitespace_word [OF ws nl(2), of "show_nat at @ [NL]"]
      split_whitespace_word [OF show_nat_no_ws show_nat_nonempty nl(1), of at "[]"] by simp
  then show ?thesis
    using assms by (simp add: parse_seen_def get_def country_code_id parse_show_uint)
qed

lemma owner_country_load:
  assumes "disk_ok os" "length c = 2" "list_all is_upper c" "owner_country os state (Some c) w = (Inr (), w')"
  shows "Country_now (Country_load os (dir_of state) w') = (c, ''owner'')"
proof -
  have "os_write os (path_join (dir_of state) COUNTRY_FLAG) (c @ [NL]) w = (Inr (), w')"
    using assms(4) by (simp add: owner_country_def write_private_def Let_def)
  with disk_write [OF assms(1), of "path_join (dir_of state) COUNTRY_FLAG" "c @ [NL]" w]
  have "os_read os (path_join (dir_of state) COUNTRY_FLAG) w' = Inr (c @ [NL])" by simp
  then show ?thesis
    by (simp add: Country_now_def Country_load_def read_country_flag_def country_code_line assms(2,3))
qed

lemma take_country_load:
  assumes "disk_ok (we_os we)" "as_country a = Some code" "length code = 2" "list_all is_upper code"
    "we_unix we w < 2 ^ 64" "take_country we a (wt_network k) w k = (k', w')"
    "fst (os_write (we_os we) (path_join (wt_dir k) COUNTRY_SEEN) (code @ '' '' @ show_nat (we_unix we w) @ [NL]) w) = Inr ()"
  shows "cn_seen (Country_load (we_os we) (wt_dir k) w') = cn_seen (wt_country k')"
    "cn_owner (Country_load (we_os we) (wt_dir k) w') = read_country_flag (we_os we) (wt_dir k) w"
proof -
  let ?txt = "code @ '' '' @ show_nat (we_unix we w) @ [NL]" and ?seen = "path_join (wt_dir k) COUNTRY_SEEN"
  have k': "cn_seen (wt_country k') = Some (code, we_unix we w)" and w': "w' = snd (os_write (we_os we) ?seen ?txt w)"
    using assms(2,6) by (auto simp: take_country_def write_private_def Let_def)
  have "os_read (we_os we) ?seen w' = Inr ?txt" using disk_write [OF assms(1,7)] by (simp add: w')
  then show "cn_seen (Country_load (we_os we) (wt_dir k) w') = cn_seen (wt_country k')"
    using parse_seen_line [OF assms(3,4,5)] k' by (simp add: Country_load_def)
  have "path_join (wt_dir k) COUNTRY_FLAG \<noteq> ?seen" by (simp add: path_join_inj COUNTRY_FLAG_def COUNTRY_SEEN_def)
  from disk_write_other [OF assms(1) this, of ?txt w]
  show "cn_owner (Country_load (we_os we) (wt_dir k) w') = read_country_flag (we_os we) (wt_dir k) w"
    by (simp add: Country_load_def read_country_flag_def w')
qed

section \<open>The tunnel files\<close>

lemma find_zip_None:
  assumes "List.find (\<lambda>(_, k). f k = v) (zip xs ys) = None" "length ys \<le> length xs"
  shows "v \<notin> f ` set ys"
proof
  assume "v \<in> f ` set ys"
  then obtain i where i: "i < length ys" "f (ys ! i) = v" by (auto simp: in_set_conv_nth)
  with assms(2) have "(xs ! i, ys ! i) \<in> set (zip xs ys)" by (auto simp: set_zip)
  with assms(1) i show False by (auto simp: find_None_iff)
qed

definition conf_of_file :: "'w os \<Rightarrow> path \<Rightarrow> 'w \<Rightarrow> tunnel_conf \<Rightarrow> conf \<Rightarrow> bool" where
  "conf_of_file os base w t c \<longleftrightarrow>
     (\<exists>txt. os_read os (path_join base (t_conf t)) w = Inr txt \<and> Conf_parse txt = Inr c)"

lemma load_confs_loop_ok:
  assumes "load_confs_loop os base all ts confs w = Inr cs" "distinct (map cf_address confs)"
    "length confs + length ts \<le> length all"
  shows "distinct (map cf_address cs) \<and> (\<exists>new. cs = confs @ new \<and> list_all2 (conf_of_file os base w) ts new)"
  using assms
proof (induction ts arbitrary: confs)
  case (Cons t ts)
  let ?p = "path_join base (t_conf t)"
  obtain x where r: "os_read os ?p w = Inr x" using Cons.prems(1) by (cases "os_read os ?p w") auto
  obtain c where c: "Conf_parse x = Inr c" using Cons.prems(1) r by (cases "Conf_parse x") auto
  have n: "List.find (\<lambda>(_, k). cf_address k = cf_address c) (zip all confs) = None"
    using Cons.prems(1) r c
    by (cases "List.find (\<lambda>(_, k). cf_address k = cf_address c) (zip all confs)") auto
  have "cf_address c \<notin> cf_address ` set confs" using find_zip_None [OF n] Cons.prems(3) by simp
  with Cons.prems(2) have d: "distinct (map cf_address (confs @ [c]))" by simp
  have "load_confs_loop os base all ts (confs @ [c]) w = Inr cs" using Cons.prems(1) r c n by simp
  from Cons.IH [OF this d] Cons.prems(3) obtain new where new: "distinct (map cf_address cs)"
      "cs = confs @ c # new" "list_all2 (conf_of_file os base w) ts new" by auto
  moreover have "conf_of_file os base w t c" using r c by (simp add: conf_of_file_def)
  ultimately show ?case by (intro conjI exI [of _ "c # new"]) simp_all
qed simp

lemma load_confs_ok:
  assumes "load_confs os st base w = Inr cs"
  shows "distinct (map cf_address cs)" "list_all2 (conf_of_file os base w) (s_tunnels st) cs"
  using load_confs_loop_ok [OF assms [unfolded load_confs_def]] by auto

text \<open>Two files with the same address are refused, and both are named.\<close>

lemma load_confs_same:
  assumes "s_tunnels st = [t, u]" "conf_of_file os base w t c" "conf_of_file os base w u d"
    "cf_address c = cf_address d"
  shows "load_confs os st base w = Inl (Same_address (t_name u) (cf_address d) (t_name t))"
  using assms by (auto simp: load_confs_def conf_of_file_def)

section \<open>A restart\<close>

lemma map_of_map_filter:
  "distinct (map fst m) \<Longrightarrow>
    map_of (List.map_filter (\<lambda>(k, v). map_option (Pair k) (f v)) m) k = Option.bind (map_of m k) f"
proof (induction m)
  case (Cons e m)
  obtain a b where e: "e = (a, b)" by fastforce
  have "map_of m a = None" using Cons.prems by (simp add: e map_of_eq_None_iff)
  with Cons show ?case by (cases "f b") (auto simp: e List.map_filter_simps)
qed (simp add: List.map_filter_simps)

lemma keys_map_filter:
  "map fst (List.map_filter (\<lambda>(k, v). map_option (Pair k) (f v)) m) = map fst (filter (\<lambda>(k, v). f v \<noteq> None) m)"
  by (induction m) (auto simp: List.map_filter_simps split: option.split)

lemma saved_by_rule_get:
  assumes "hm_ok saved"
  shows "map_of (saved_by_rule st saved) ip =
    Option.bind (map_of saved ip) (\<lambda>h. map_option (\<lambda>i. (i, ho_last h)) (rule_of st (ho_rule h)))"
proof -
  let ?f = "\<lambda>h. map_option (\<lambda>i. (i, ho_last h)) (rule_of st (ho_rule h))"
  let ?m = "List.map_filter (\<lambda>(k, v). map_option (Pair k) (?f v)) saved"
  have "saved_by_rule st saved = hm_collect ?m"
    by (simp add: saved_by_rule_def option.map_comp comp_def)
  moreover have "distinct (map fst ?m)"
    unfolding keys_map_filter using hm_filter_ok [OF assms] by simp
  then have "map_of (rev ?m) = map_of ?m" by (subst map_of_inject_set) (simp_all add: rev_map [symmetric])
  ultimately show ?thesis
    using map_of_map_filter [of saved ?f ip] assms by (simp add: hm_collect_get)
qed

lemma rule_of_name:
  assumes "distinct (map r_name (s_rules st))" "i < length (s_rules st)"
  shows "rule_of st (r_name (s_rules st ! i)) = Some i"
proof -
  have "position (\<lambda>r. r_name r = r_name (s_rules st ! i)) (s_rules st) = Some i"
  proof (cases "position (\<lambda>r. r_name r = r_name (s_rules st ! i)) (s_rules st)")
    case None
    with assms(2) show ?thesis by (auto simp: position_None)
  next
    case (Some j)
    note j = position_Some [OF Some]
    then have "j = i" using assms nth_eq_iff_index_eq [of "map r_name (s_rules st)" j i] by simp
    with Some show ?thesis by simp
  qed
  then show ?thesis by (simp add: rule_of_def)
qed

lemma load_host_get:
  "map_of (foldl (load_host n) m hs) ip =
    (case map_of m ip of Some v \<Rightarrow> Some v
     | None \<Rightarrow> map_option (\<lambda>(i, u). \<lparr>h_rule = i, h_last = u, h_placed = None\<rparr>)
         (map_of (filter (\<lambda>(ip, i, u). i < n) hs) ip))"
proof (induction hs arbitrary: m)
  case (Cons e hs)
  obtain a i u where e: "e = (a, i, u)" by (cases e)
  have "map_of (load_host n m e) ip =
      (if i < n \<and> ip = a \<and> map_of m a = None then Some \<lparr>h_rule = i, h_last = u, h_placed = None\<rparr> else map_of m ip)"
    by (simp add: e load_host_def hm_or_insert_get)
  then show ?case using Cons.IH [of "load_host n m e"] by (auto simp: e split: option.split)
qed (simp split: option.split)

lemma or_insert_held_get:
  "map_of (foldl (\<lambda>m (rule, ip). hm_or_insert ip (rule, now) m) m pfh) ip =
    (case map_of m ip of Some v \<Rightarrow> Some v
     | None \<Rightarrow> map_option (\<lambda>rule. (rule, now)) (map_of (map prod.swap pfh) ip))"
  by (induction pfh arbitrary: m) (auto simp: hm_or_insert_get split: option.split)

lemma tell_endpoints_core:
  "cr_hosts (rv_core (tell_endpoints i cs r)) = cr_hosts (rv_core r) \<and>
   map (\<lambda>x. (rn_name x, rn_when x)) (cr_rules (rv_core (tell_endpoints i cs r))) =
     map (\<lambda>x. (rn_name x, rn_when x)) (cr_rules (rv_core r))"
  by (induction cs arbitrary: i r) (auto simp: set_link_def Let_def split: option.split)

lemma start_resolver_hosts:
  "cr_hosts (rv_core (start_resolver b st confs dns routes dir limit c hosts)) =
    foldl (load_host (length (s_rules st))) [] hosts"
proof -
  let ?r0 = "Resolver_new (bl_lists b) (s_rules st) (map t_name (s_tunnels st)) dns routes (Some dir) limit"
  have "length (cr_rules (rv_core (tell_endpoints 0 confs ?r0))) = length (s_rules st)"
    using arg_cong [OF conjunct2 [OF tell_endpoints_core [of 0 confs ?r0]], of length]
    by (simp add: Resolver_new_def)
  then show ?thesis
    using conjunct1 [OF tell_endpoints_core [of 0 confs ?r0]]
    by (simp add: start_resolver_def Let_def load_hosts_def set_country_core Resolver_new_def)
qed

lemma start_rules_follow: "rules_follow c (start_resolver b st confs dns routes dir limit c hosts)"
  by (simp add: start_resolver_def Let_def load_hosts_def rules_follow_def set_country_core)

text \<open>What a start makes of the hosts that a daemon with the same rules saved.\<close>

definition saved_here :: "settings \<Rightarrow> 'k resolver \<Rightarrow> bool" where
  "saved_here st r \<longleftrightarrow> resolver_ok r \<and> settings_wf st \<and> map rn_name (cr_rules (rv_core r)) = map r_name (s_rules st) \<and>
     (\<forall>e\<in>set (cr_hosts (rv_core r)). h_last (snd e) < 2 ^ 64)"

lemma name_ok_word: "name_ok n \<Longrightarrow> n \<noteq> [] \<and> (\<forall>c\<in>set n. \<not> is_ws c)"
  by (auto simp: name_ok_def list_all_iff is_alnum_def is_ws_def is_digit_def is_lower_def is_upper_def)

lemma saved_rule:
  assumes "saved_here st r" "hm_get (cr_hosts (rv_core r)) ip = Some h"
  shows "h_rule h < length (s_rules st)"
    "rn_name (cr_rules (rv_core r) ! h_rule h) = r_name (s_rules st ! h_rule h)"
    "rule_of st (rn_name (cr_rules (rv_core r) ! h_rule h)) = Some (h_rule h)"
proof -
  have n: "map rn_name (cr_rules (rv_core r)) = map r_name (s_rules st)" "settings_wf st"
    and i: "h_rule h < length (cr_rules (rv_core r))"
    using assms(1) map_of_SomeD [OF assms(2)] by (auto simp: saved_here_def resolver_ok_def Let_def)
  show l: "h_rule h < length (s_rules st)" using n(1) i by (metis length_map)
  show nm: "rn_name (cr_rules (rv_core r) ! h_rule h) = r_name (s_rules st ! h_rule h)"
    using arg_cong [OF n(1), of "\<lambda>l. l ! h_rule h"] i l by simp
  show "rule_of st (rn_name (cr_rules (rv_core r) ! h_rule h)) = Some (h_rule h)"
    using n(2) l by (simp add: nm rule_of_name settings_wf_def)
qed

lemma snapshot_ok:
  assumes "saved_here st r"
  shows "hosts_ok (hosts_snapshot r)"
proof -
  have ok: "hm_ok (hosts_snapshot r)" unfolding hosts_snapshot_def by (rule hm_collect_ok)
  have "host_ok (ip, h)" if h: "(ip, h) \<in> set (hosts_snapshot r)" for ip h
  proof -
    have r: "resolver_ok r" using assms by (simp add: saved_here_def)
    have "hm_get (hosts_snapshot r) ip = Some h" using h hm_ok_map_of [OF ok] by simp
    then obtain e where e: "hm_get (cr_hosts (rv_core r)) ip = Some e"
        "h = \<lparr>ho_rule = rn_name (cr_rules (rv_core r) ! h_rule e), ho_last = h_last e\<rparr>"
      by (auto simp: snapshot_get [OF r] split: option.splits)
    have "h_last e < 2 ^ 64" using map_of_SomeD [OF e(1)] assms by (auto simp: saved_here_def)
    moreover have "name_ok (r_name (s_rules st ! h_rule e))"
      using assms saved_rule(1) [OF assms e(1)] by (simp add: saved_here_def settings_wf_def rule_wf_def)
    ultimately show ?thesis using name_ok_word saved_rule(2) [OF assms e(1)] e(2) by (auto simp: host_ok_def)
  qed
  with ok show ?thesis by (auto simp: hosts_ok_def)
qed

lemma hosts_to_restore_get:
  assumes "hm_ok saved" "Pf_held_hosts os (length (s_rules st)) w = (pfh, w1)"
    "hosts_to_restore os st saved now w = (hosts, w')"
  shows "hm_ok hosts" "map_of hosts ip =
    (case Option.bind (map_of saved ip) (\<lambda>h. map_option (\<lambda>i. (i, ho_last h)) (rule_of st (ho_rule h))) of
       Some v \<Rightarrow> Some v
     | None \<Rightarrow> map_option (\<lambda>rule. (rule, now)) (map_of (map prod.swap pfh) ip))"
proof -
  let ?m = "foldl (\<lambda>m (rule, ip). hm_or_insert ip (rule, now) m) (saved_by_rule st saved) pfh"
  have h: "hosts = ?m" using assms(2,3) by (simp add: hosts_to_restore_def)
  have ok: "hm_ok (saved_by_rule st saved)" by (simp add: saved_by_rule_def hm_collect_ok)
  have "hm_ok m \<Longrightarrow> hm_ok (foldl (\<lambda>m (rule, ip). hm_or_insert ip (rule, now) m) m pfh)" for m :: "(ipv4, nat \<times> nat) hashmap"
    by (induction pfh arbitrary: m) (auto simp: hm_or_insert_ok)
  with ok h show "hm_ok hosts" by simp
  show "map_of hosts ip = (case Option.bind (map_of saved ip) (\<lambda>h. map_option (\<lambda>i. (i, ho_last h)) (rule_of st (ho_rule h))) of
       Some v \<Rightarrow> Some v
     | None \<Rightarrow> map_option (\<lambda>rule. (rule, now)) (map_of (map prod.swap pfh) ip))"
    unfolding h or_insert_held_get saved_by_rule_get [OF assms(1)] ..
qed

lemma restart_hosts:
  assumes "saved_here st r" "Pf_held_hosts os (length (s_rules st)) w = (pfh, w1)"
    "hosts_to_restore os st (parse_hosts (format_hosts (hosts_snapshot r))) now w = (hosts, w')"
    "\<forall>e\<in>set pfh. fst e < length (s_rules st)"
  shows "hm_get (cr_hosts (rv_core (start_resolver b st confs dns routes dir limit c hosts))) ip =
    (case hm_get (cr_hosts (rv_core r)) ip of
       Some h \<Rightarrow> Some (h\<lparr>h_placed := None\<rparr>)
     | None \<Rightarrow> map_option (\<lambda>i. \<lparr>h_rule = i, h_last = now, h_placed = None\<rparr>) (map_of (map prod.swap pfh) ip))"
proof -
  let ?saved = "parse_hosts (format_hosts (hosts_snapshot r))" and ?n = "length (s_rules st)"
  have ok: "hm_ok ?saved" unfolding parse_hosts_def by (rule hm_collect_ok)
  have r: "resolver_ok r" using assms(1) by (simp add: saved_here_def)
  have s: "map_of ?saved ip = hm_get (hosts_snapshot r) ip" by (simp add: parse_format_map [OF snapshot_ok [OF assms(1)]])
  note g = hosts_to_restore_get [OF ok assms(2,3)]
  show ?thesis
  proof (cases "hm_get (cr_hosts (rv_core r)) ip")
    case None
    then have m: "map_of hosts ip = map_option (\<lambda>rule. (rule, now)) (map_of (map prod.swap pfh) ip)"
      using g(2) [of ip] s by (simp add: snapshot_get [OF r])
    have "i < ?n" if "map_of (map prod.swap pfh) ip = Some i" for i
      using assms(4) map_of_SomeD [OF that] by force
    with m None show ?thesis
      by (simp add: start_resolver_hosts load_host_get map_of_filter_ok [OF g(1)] split: option.split)
  next
    case (Some h)
    note h = saved_rule [OF assms(1) Some]
    have "map_of hosts ip = Some (h_rule h, h_last h)"
      using g(2) [of ip] s Some h by (simp add: snapshot_get [OF r])
    with h Some show ?thesis
      by (simp add: start_resolver_hosts load_host_get map_of_filter_ok [OF g(1)])
  qed
qed

lemma held_rules: "Pf_held_from os is w = (pfh, w') \<Longrightarrow> e \<in> set pfh \<Longrightarrow> fst e \<in> set is"
  by (induction "is" arbitrary: w pfh) (fastforce split: prod.splits sum.splits)+

lemma held_bound: "Pf_held_hosts os n w = (pfh, w') \<Longrightarrow> \<forall>e\<in>set pfh. fst e < n"
  using held_rules [of os "[0..<n]" w pfh w'] by (auto simp: Pf_held_hosts_def)

section \<open>Fake-IP of the network's servers\<close>

text \<open>
  The answer of the servers of a network is put into the resolver whatever network it is on by
  then: the tracker may have moved it while the servers were asked.
\<close>

lemma detect_answer:
  assumes "wt_use_fakeip k" "wt_network k = Some n"
    "upstream_has_fakeip (en_net (we_env we)) (en_lib (we_env we)) (we_nanos we w) (Network_upstream n) w = (Inr p, w1)"
    "we_others we (r, w1) = (r2, w2)"
  shows "detect_upstream_fakeip we (k, r, w) = (k, set_use_fakeip p r2, w2)"
  using assms by (simp add: detect_upstream_fakeip_def)

section \<open>Strays\<close>

text \<open>
  The processes of a previous run are stopped once the new routes are all set, or after a while:
  not before, for their routes carry the traffic until then.
\<close>

lemma strays_stay:
  assumes "wt_strays k = Some (pids, since)" "\<not> all_routed r" "we_now we w - since < STRAYS_WAIT"
  shows "stop_strays we (k, r, w) = (k, r, w)"
  using assms by (simp add: stop_strays_def)

section \<open>The timers\<close>

text \<open>A step leaves what it did on time for later: nothing of it is due at the time of its look.\<close>

definition timers_ahead :: "instant \<Rightarrow> watch \<Rightarrow> bool" where
  "timers_ahead now k \<longleftrightarrow> now < wt_save_at k \<and> now < wt_sweep_at k \<and> now < wt_status_at k"

lemma every_pos: "0 < SAVE_EVERY" "0 < SWEEP_EVERY" "0 < STATUS_EVERY"
  by (simp_all add: SAVE_EVERY_def SWEEP_EVERY_def STATUS_EVERY_def)

lemma watch_save_timers:
  "watch_save we (k, r, w) = (k', r', w') \<Longrightarrow> k' = k"
  by (auto simp: watch_save_def split: prod.splits sum.splits)

lemma save_due_timers:
  assumes "save_due we now (k, r, w) = (k', r', w')"
  shows "k' = (if wt_save_at k \<le> now then k\<lparr>wt_save_at := now + SAVE_EVERY\<rparr> else k)"
  using assms by (auto simp: save_due_def take_dirty_def Let_def dest: watch_save_timers split: if_splits)

lemma sweep_due_timers:
  assumes "sweep_due we now (k, r, w) = (k', r', w')"
  shows "k' = (if wt_sweep_at k \<le> now then k\<lparr>wt_sweep_at := now + SWEEP_EVERY\<rparr> else k)"
  using assms by (auto simp: sweep_due_def Let_def split: if_splits prod.splits)

lemma housekeeping_timers:
  assumes "housekeeping we (k, r, w) = (k', r', w')"
  shows "timers_ahead (we_now we w) k'"
proof -
  let ?now = "we_now we w"
  obtain k1 r1 w1 where 1: "(if (case wt_dns_at k of None \<Rightarrow> False | Some at \<Rightarrow> at \<le> ?now) then take_dns we (k, r, w) else (k, r, w))
      = (k1, r1, w1)" by (metis prod_cases3)
  obtain k2 r2 w2 where 2: "save_due we ?now (k1, r1, w1) = (k2, r2, w2)" by (metis prod_cases3)
  obtain k3 r3 w3 where 3: "sweep_due we ?now (k2, r2, w2) = (k3, r3, w3)" by (metis prod_cases3)
  have "k' = (if wt_status_at k3 \<le> ?now then k3\<lparr>wt_status_at := ?now + STATUS_EVERY\<rparr> else k3)"
    using assms 1 2 3 by (simp add: housekeeping_def Let_def)
  with save_due_timers [OF 2] sweep_due_timers [OF 3] every_pos show ?thesis
    by (simp add: timers_ahead_def)
qed

end
