(* ===== verification/Link_Run.thy ===== *)
theory Link_Run
  imports Link Resolver_Run
begin

text \<open>
  A link does nothing to the resolver but its operations: every part of its step, and the life of
  its task, is a run of the resolver. With the same of the watch and of the queries, what a task
  assumes of the others (\<open>env_ok\<close>) is what each of them is shown to do.
\<close>

abbreviation le_krn :: "('k, 'w) link_env \<Rightarrow> 'k kernel" where
  "le_krn le \<equiv> en_kernel (le_env le)"

text \<open>A part of a link that is a run of the resolver, and one that also gives a value.\<close>

definition runs :: "'k kernel \<Rightarrow> (('k, 'w) lk \<Rightarrow> ('k, 'w) lk) \<Rightarrow> bool" where
  "runs krn f \<longleftrightarrow> (\<forall>l r w l' r' w'. f (l, r, w) = (l', r', w') \<longrightarrow> rv_run krn r r')"

definition runs_val :: "'k kernel \<Rightarrow> (('k, 'w) lk \<Rightarrow> 'a \<times> ('k, 'w) lk) \<Rightarrow> bool" where
  "runs_val krn f \<longleftrightarrow> runs krn (\<lambda>s. snd (f s))"

text \<open>And one that has the resolver and the world alone.\<close>

definition runs_rw :: "'k kernel \<Rightarrow> ('k resolver \<Rightarrow> 'w \<Rightarrow> 'a \<times> 'k resolver \<times> 'w) \<Rightarrow> bool" where
  "runs_rw krn f \<longleftrightarrow> (\<forall>r w v r' w'. f r w = (v, r', w') \<longrightarrow> rv_run krn r r')"

lemma runsI: "(\<And>l r w l' r' w'. f (l, r, w) = (l', r', w') \<Longrightarrow> rv_run krn r r') \<Longrightarrow> runs krn f"
  by (simp add: runs_def)

lemma runsD: "runs krn f \<Longrightarrow> f (l, r, w) = (l', r', w') \<Longrightarrow> rv_run krn r r'"
  unfolding runs_def by blast

lemma runs_valI: "(\<And>l r w v l' r' w'. f (l, r, w) = (v, l', r', w') \<Longrightarrow> rv_run krn r r') \<Longrightarrow> runs_val krn f"
  unfolding runs_val_def runs_def by (metis prod.collapse)

lemma runs_valD: "runs_val krn f \<Longrightarrow> f (l, r, w) = (v, l', r', w') \<Longrightarrow> rv_run krn r r'"
  unfolding runs_val_def runs_def by (metis snd_conv)

lemma runs_rwI: "(\<And>r w v r' w'. f r w = (v, r', w') \<Longrightarrow> rv_run krn r r') \<Longrightarrow> runs_rw krn f"
  by (simp add: runs_rw_def)

lemma runs_rwD: "runs_rw krn f \<Longrightarrow> f r w = (v, r', w') \<Longrightarrow> rv_run krn r r'"
  unfolding runs_rw_def by blast

lemma le_others_run:
  "env_ok (le_env le) \<Longrightarrow> le_others le (r, w) = (r', w') \<Longrightarrow> rv_run (le_krn le) r r'"
  unfolding le_others_def by (rule others_run)

lemma runs_sync: "env_ok (le_env le) \<Longrightarrow> runs (le_krn le) (link_sync le)"
proof (rule runsI)
  fix l r w l' r' w'
  assume ok: "env_ok (le_env le)" and s: "link_sync le (l, r, w) = (l', r', w')"
  let ?r1 = "reconcile (le_krn le) (le_now le w) (set_link (lk_id l) (link_state_of l) r)"
  obtain x r2 w2 where 2: "sync_pf (le_env le) ?r1 w = (x, r2, w2)" by (metis prod_cases3)
  show "rv_run (le_krn le) r r'"
  proof (cases "link_state_of l = lk_published l")
    case True
    with s show ?thesis by (simp add: link_sync_def)
  next
    case False
    with s 2 have "r' = r2" by (simp add: link_sync_def Let_def)
    moreover have "rv_run (le_krn le) r ?r1"
      by (rule rtranclp.rtrancl_into_rtrancl [OF r_into_rtranclp [of "rv_step (le_krn le)", OF step_link] step_reconcile])
    ultimately show ?thesis using sync_pf_run [OF ok 2] by (simp add: rtranclp_trans [of "rv_step (le_krn le)"])
  qed
qed

lemma runs_take_down: "env_ok (le_env le) \<Longrightarrow> take_down le t r w = (r', w') \<Longrightarrow> rv_run (le_krn le) r r'"
  unfolding take_down_def by (rule le_others_run)

lemma runs_undisturbed: "env_ok (le_env le) \<Longrightarrow> runs_rw (le_krn le) (undisturbed le l probe)"
  by (rule runs_rwI) (auto simp: undisturbed_def Let_def split: option.splits prod.splits dest: le_others_run)

lemma runs_counters: "env_ok (le_env le) \<Longrightarrow> runs_rw (le_krn le) (link_counters le name)"
  by (rule runs_rwI) (auto simp: link_counters_def split: prod.splits dest: le_others_run)

lemma runs_endpoint: "env_ok (le_env le) \<Longrightarrow> runs_rw (le_krn le) (link_endpoint le l)"
  by (rule runs_rwI) (auto simp: link_endpoint_def split: option.splits prod.splits dest: le_others_run)

lemma runs_carrying: "env_ok (le_env le) \<Longrightarrow> runs_rw (le_krn le) (link_carrying le grew l)"
  by (rule runs_rwI) (auto simp: link_carrying_def Let_def split: option.splits prod.splits dest: le_others_run)

lemma runs_seen:
  assumes "env_ok (le_env le)"
  shows "runs_rw (le_krn le) (tunnel_seen le l)"
proof (rule runs_rwI)
  fix r w v r' w'
  assume t: "tunnel_seen le l r w = (v, r', w')"
  show "rv_run (le_krn le) r r'"
  proof (cases "lk_tunnel l")
    case None
    with t show ?thesis by (simp add: tunnel_seen_def)
  next
    case (Some x)
    obtain age w1 where 1: "handshake_age (le_os le) (en_unix (le_env le)) (le_tools le) x w = (age, w1)" by fastforce
    obtain r2 w2 where 2: "le_others le (r, w1) = (r2, w2)" by fastforce
    obtain c r3 w3 where 3: "link_counters le (tn_name x) r2 w2 = (c, r3, w3)" by (metis prod_cases3)
    have "r' = r3" using t Some 1 2 3 by (simp add: tunnel_seen_def Let_def)
    with rtranclp_trans [OF le_others_run [OF assms 2] runs_rwD [OF runs_counters [OF assms] 3]] show ?thesis by simp
  qed
qed

lemma runs_down:
  assumes "env_ok (le_env le)"
  shows "runs (le_krn le) (link_down le)"
proof (rule runsI)
  fix l r w l' r' w'
  assume d: "link_down le (l, r, w) = (l', r', w')"
  obtain r1 w1 where 1: "(case lk_tunnel l of None \<Rightarrow> (r, w) | Some t \<Rightarrow> take_down le t r w) = (r1, w1)" by fastforce
  have "rv_run (le_krn le) r r1" using 1 runs_take_down [OF assms] by (auto split: option.splits)
  moreover have "link_sync le ((unhealthy (l\<lparr>lk_tunnel := None\<rparr>))\<lparr>lk_confirmed := None\<rparr>, r1, w1) = (l', r', w')"
    using d 1 by (simp add: link_down_def Let_def)
  ultimately show "rv_run (le_krn le) r r'" using runsD [OF runs_sync [OF assms]] by (meson rtranclp_trans)
qed

section \<open>Connecting\<close>

lemma runs_hand_over:
  assumes "env_ok (le_env le)"
  shows "runs (le_krn le) (hand_over le new)"
proof (rule runsI)
  fix l r w l' r' w'
  assume h: "hand_over le new (l, r, w) = (l', r', w')"
  obtain port w1 where 1: "listen_port (le_os le) (le_tools le) new w = (port, w1)" by fastforce
  obtain r2 w2 where 2: "le_others le (r, w1) = (r2, w2)" by fastforce
  obtain c r3 w3 where 3: "link_counters le (tn_name new) r2 w2 = (c, r3, w3)" by (metis prod_cases3)
  have "\<exists>l3. link_sync le (l3, r3, w3) = (l', r', w')"
    using h 1 2 3 by (auto simp: hand_over_def Let_def)
  with le_others_run [OF assms 2] runs_rwD [OF runs_counters [OF assms] 3] show "rv_run (le_krn le) r r'"
    using runsD [OF runs_sync [OF assms]] by (meson rtranclp_trans)
qed

lemma runs_retire: "env_ok (le_env le) \<Longrightarrow> runs (le_krn le) (retire le old)"
  by (rule runsI) (auto simp: retire_def split: option.splits dest: runs_take_down)

lemma runs_confirm: "env_ok (le_env le) \<Longrightarrow> runs (le_krn le) (confirm le after_degraded v)"
  by (rule runsI) (auto simp: confirm_def Let_def split: option.splits bool.splits prod.splits if_splits
    dest: runs_rwD [OF runs_seen])

lemma runs_connect_up:
  assumes "env_ok (le_env le)"
  shows "runs (le_krn le) (connect_up le after_degraded new)"
proof (rule runsI)
  fix l r w l' r' w'
  assume c: "connect_up le after_degraded new (l, r, w) = (l', r', w')"
  obtain l1 r1 w1 where 1: "hand_over le new (l, r, w) = (l1, r1, w1)" by (metis prod_cases3)
  obtain l2 r2 w2 where 2: "retire le (lk_tunnel l) (l1, r1, w1) = (l2, r2, w2)" by (metis prod_cases3)
  obtain v r3 w3 where 3: "undisturbed le l2 (link_tls le (tn_name new) CONFIRM) r2 w2 = (v, r3, w3)"
    by (metis prod_cases3)
  have "confirm le after_degraded v (l2, r3, w3) = (l', r', w')" using c 1 2 3 by (simp add: connect_up_def)
  with runsD [OF runs_hand_over [OF assms] 1] runsD [OF runs_retire [OF assms] 2]
    runs_rwD [OF runs_undisturbed [OF assms] 3] runsD [OF runs_confirm [OF assms]]
  show "rv_run (le_krn le) r r'" by (meson rtranclp_trans)
qed

lemma runs_connect:
  assumes "env_ok (le_env le)"
  shows "runs (le_krn le) (connect le)"
proof (rule runsI)
  fix l r w l' r' w'
  assume c: "connect le (l, r, w) = (l', r', w')"
  let ?sq = "le_seq le w + 1"
  let ?l = "l\<lparr>lk_after_degraded := False, lk_generation := ?sq\<rparr>"
  obtain v r1 w1 where 1: "link_endpoint le ?l r (le_set_seq le ?sq w) = (v, r1, w1)" by (metis prod_cases3)
  have r1: "rv_run (le_krn le) r r1" by (rule runs_rwD [OF runs_endpoint [OF assms] 1])
  show "rv_run (le_krn le) r r'"
  proof (cases v)
    case (Inl e)
    with c 1 r1 show ?thesis by (simp add: connect_def Let_def)
  next
    case (Inr ip)
    obtain l2 r2 w2 where 2: "link_sync le (?l\<lparr>lk_endpoint := Some ip\<rparr>, r1, w1) = (l2, r2, w2)" by (metis prod_cases3)
    obtain res w3 where 3: "tunnel_up (le_os le) (le_procs le) (le_tools le) (lk_conf l2) ip ?sq w2 = (res, w3)" by fastforce
    obtain r4 w4 where 4: "le_others le (r2, w3) = (r4, w4)" by fastforce
    have "rv_run (le_krn le) r r4"
      using r1 runsD [OF runs_sync [OF assms] 2] le_others_run [OF assms 4] by (meson rtranclp_trans)
    moreover have "r' = r4 \<or> (\<exists>new. connect_up le (lk_after_degraded l) new (l2, r4, w4) = (l', r', w'))"
      using c 1 Inr 2 3 4 by (cases res) (auto simp: connect_def Let_def)
    ultimately show ?thesis using runsD [OF runs_connect_up [OF assms]] by (meson rtranclp_trans)
  qed
qed

section \<open>Checking\<close>

lemma runs_aborted: "aborted le nx (l, r, w) = (l', r', w') \<Longrightarrow> r' = r"
  by (simp add: aborted_def)

lemma runs_passed: "check_passed le was_cut (l, r, w) = (l', r', w') \<Longrightarrow> r' = r"
  by (auto simp: check_passed_def Let_def)

lemma runs_cut_seen: "env_ok (le_env le) \<Longrightarrow> runs_val (le_krn le) (cut_seen le)"
  by (rule runs_valI) (auto simp: cut_seen_def Let_def split: option.splits prod.splits dest: runs_rwD [OF runs_counters])

lemma runs_rx_grew: "env_ok (le_env le) \<Longrightarrow> runs_val (le_krn le) (rx_grew le name)"
  by (rule runs_valI) (auto simp: rx_grew_def split: option.splits prod.splits dest: runs_rwD [OF runs_counters])

lemma runs_suspect: "env_ok (le_env le) \<Longrightarrow> runs (le_krn le) (suspect le)"
  by (rule runsI) (auto simp: suspect_def split: if_splits dest: runsD [OF runs_sync])

lemma runs_degraded:
  assumes "env_ok (le_env le)"
  shows "runs_val (le_krn le) (link_degraded le grew)"
proof (rule runs_valI)
  fix l r w v l' r' w'
  assume d: "link_degraded le grew (l, r, w) = (v, l', r', w')"
  obtain carries r1 w1 where 1: "link_carrying le grew l r w = (carries, r1, w1)" by (metis prod_cases3)
  have "r' = r1" using d 1 by (auto simp: link_degraded_def Let_def split: prod.splits verdict.splits)
  with runs_rwD [OF runs_carrying [OF assms] 1] show "rv_run (le_krn le) r r'" by simp
qed

lemma runs_probes:
  assumes "env_ok (le_env le)"
  shows "runs_val (le_krn le) (probes le t plim tlim was_cut)"
proof (rule runs_valI)
  fix l r w v l' r' w'
  assume p: "probes le t plim tlim was_cut (l, r, w) = (v, l', r', w')"
  obtain x r1 w1 where 1: "undisturbed le l (link_ping le (nonzero (ucast (tn_index t))) TARGETS plim) r w = (x, r1, w1)"
    by (metis prod_cases3)
  have r1: "rv_run (le_krn le) r r1" by (rule runs_rwD [OF runs_undisturbed [OF assms] 1])
  consider (ended) "r' = r1" | (tls) limit where "x = Some None" "(if was_cut then None else tlim) = Some limit"
    using p 1 by (auto simp: probes_def Let_def split: option.splits)
  then show "rv_run (le_krn le) r r'"
  proof cases
    case tls
    obtain l2 r2 w2 where 2: "suspect le (l, r1, w1) = (l2, r2, w2)" by (metis prod_cases3)
    obtain y r3 w3 where 3: "undisturbed le l2 (link_tls le (tn_name t) limit) r2 w2 = (y, r3, w3)" by (metis prod_cases3)
    have "r' = r3" using p 1 tls 2 3 by (cases y) (auto simp: probes_def Let_def split: if_splits)
    with r1 runsD [OF runs_suspect [OF assms] 2] runs_rwD [OF runs_undisturbed [OF assms] 3]
    show ?thesis by (meson rtranclp_trans)
  qed (use r1 in simp)
qed

lemma runs_failed:
  assumes "env_ok (le_env le)"
  shows "runs (le_krn le) (check_failed le grew)"
proof (rule runsI)
  fix l r w l' r' w'
  assume c: "check_failed le grew (l, r, w) = (l', r', w')"
  obtain b l1 r1 w1 where 1: "link_degraded le grew (l, r, w) = (b, l1, r1, w1)" by (metis prod.collapse)
  have r1: "rv_run (le_krn le) r r1" by (rule runs_valD [OF runs_degraded [OF assms] 1])
  show "rv_run (le_krn le) r r'"
  proof (cases b)
    case True
    with c 1 r1 show ?thesis by (simp add: check_failed_def)
  next
    case False
    obtain l2 r2 w2 where 2: "link_sync le (unhealthy l1, r1, w1) = (l2, r2, w2)" by (metis prod_cases3)
    obtain y r3 w3 where 3: "undisturbed le l2 (direct le l2 r2) r2 w2 = (y, r3, w3)" by (metis prod_cases3)
    have "r' = r3"
      using c 1 2 3 False by (cases y) (auto simp: check_failed_def dest: runs_aborted split: bool.splits)
    with r1 runsD [OF runs_sync [OF assms] 2] runs_rwD [OF runs_undisturbed [OF assms] 3]
    show ?thesis by (meson rtranclp_trans)
  qed
qed

lemma runs_check:
  assumes "env_ok (le_env le)"
  shows "runs (le_krn le) (check le)"
proof (rule runsI)
  fix l r w l' r' w'
  assume c: "check le (l, r, w) = (l', r', w')"
  let ?fresh = "le_now le w < lk_fresh_until l"
  let ?l = "l\<lparr>lk_check_at := le_now le w + (if ?fresh then FAST else SLOW)\<rparr>"
  show "rv_run (le_krn le) r r'"
  proof (cases "lk_tunnel l")
    case None
    with c show ?thesis by (simp add: check_def Let_def)
  next
    case (Some t)
    obtain g l1 r1 w1 where 1: "rx_grew le (tn_name t) (?l, r, w) = (g, l1, r1, w1)" by (metis prod.collapse)
    obtain plim tlim where lim: "check_limits (lk_next l1 = Next_Woke) ?fresh = (plim, tlim)" by fastforce
    let ?l1 = "l1\<lparr>lk_next := Next_Usual, lk_samples := []\<rparr>" and ?cut = "lk_next l1 = Next_Cut"
    obtain v l2 r2 w2 where 2: "probes le t plim tlim ?cut (?l1, r1, w1) = (v, l2, r2, w2)" by (metis prod.collapse)
    have r2: "rv_run (le_krn le) r r2"
      using runs_valD [OF runs_rx_grew [OF assms] 1] runs_valD [OF runs_probes [OF assms] 2] by (rule rtranclp_trans)
    have e: "check le (l, r, w) = (case v of None \<Rightarrow> aborted le (lk_next l1) (l2, r2, w2)
        | Some f \<Rightarrow> (let l = l2\<lparr>lk_works := None\<rparr> in
            if link_report f then check_passed le ?cut (l, r2, w2) else check_failed le g (l, r2, w2)))"
      using Some 1 lim 2 by (simp add: check_def Let_def)
    show ?thesis
    proof (cases v)
      case None
      with e c have "aborted le (lk_next l1) (l2, r2, w2) = (l', r', w')" by simp
      with r2 runs_aborted show ?thesis by metis
    next
      case (Some f)
      let ?l2 = "l2\<lparr>lk_works := None\<rparr>"
      show ?thesis
      proof (cases "link_report f")
        case True
        with e c Some have "check_passed le ?cut (?l2, r2, w2) = (l', r', w')" by simp
        with r2 runs_passed show ?thesis by metis
      next
        case False
        with e c Some have "check_failed le g (?l2, r2, w2) = (l', r', w')" by simp
        from rtranclp_trans [OF r2 runsD [OF runs_failed [OF assms] this]] show ?thesis .
      qed
    qed
  qed
qed

section \<open>A step and a life\<close>

lemma runs_hear: "hear le c (l, r, w) = (l', r', w') \<Longrightarrow> r' = r"
  by (auto simp: hear_def Let_def)

lemma runs_unwanted:
  assumes "env_ok (le_env le)"
  shows "runs (le_krn le) (unwanted le)"
proof (rule runsI)
  fix l r w l' r' w'
  assume u: "unwanted le (l, r, w) = (l', r', w')"
  obtain l1 r1 w1 where 1: "(if lk_tunnel l \<noteq> None then link_down le (l, r, w) else (l, r, w)) = (l1, r1, w1)"
    by (metis prod_cases3)
  have "rv_run (le_krn le) r r1" using 1 runsD [OF runs_down [OF assms]] by (auto split: if_splits)
  moreover have "\<exists>l2. link_sync le (l2, r1, w1) = (l', r', w')" using u 1 by (auto simp: unwanted_def)
  ultimately show "rv_run (le_krn le) r r'" using runsD [OF runs_sync [OF assms]] by (meson rtranclp_trans)
qed

lemma runs_bury:
  assumes "env_ok (le_env le)"
  shows "runs (le_krn le) (bury le)"
proof (rule runsI)
  fix l r w l' r' w'
  assume b: "bury le (l, r, w) = (l', r', w')"
  show "rv_run (le_krn le) r r'"
  proof (cases "lk_tunnel l")
    case None
    with b show ?thesis by (simp add: bury_def)
  next
    case (Some t)
    obtain x w1 where 1: "exited (le_procs le) t w = (x, w1)" by fastforce
    obtain r2 w2 where 2: "take_down le t r w1 = (r2, w2)" by fastforce
    show ?thesis
    proof (cases x)
      case False
      with b Some 1 show ?thesis by (simp add: bury_def)
    next
      case True
      with b Some 1 2 have "\<exists>l2. link_sync le (l2, r2, w2) = (l', r', w')" by (auto simp: bury_def Let_def)
      with runs_take_down [OF assms 2] runsD [OF runs_sync [OF assms]] show ?thesis by (meson rtranclp_trans)
    qed
  qed
qed

lemma runs_watch_cut:
  assumes "env_ok (le_env le)"
  shows "runs (le_krn le) (watch_cut le)"
proof (rule runsI)
  fix l r w l' r' w'
  assume c: "watch_cut le (l, r, w) = (l', r', w')"
  obtain b l1 r1 w1 where 1: "cut_seen le (l, r, w) = (b, l1, r1, w1)" by (metis prod.collapse)
  have "r' = r \<or> r' = r1" using c 1 by (auto simp: watch_cut_def split: if_splits bool.splits)
  with runs_valD [OF runs_cut_seen [OF assms] 1] show "rv_run (le_krn le) r r'" by auto
qed

lemma runs_act: "env_ok (le_env le) \<Longrightarrow> runs (le_krn le) (act le)"
  by (rule runsI) (auto simp: act_def split: option.splits if_splits dest: runsD [OF runs_connect] runsD [OF runs_check])

theorem link_step_run:
  assumes "env_ok (le_env le)" "link_step le (l, r, w) = (stop, l', r', w')"
  shows "rv_run (le_krn le) r r'"
proof -
  let ?c = "le_ctl le w"
  obtain l1 r1 w1 where 1: "hear le ?c (l, r, w) = (l1, r1, w1)" by (metis prod_cases3)
  have r1: "r1 = r" by (rule runs_hear [OF 1])
  consider "ct_stop ?c" "link_down le (l, r, w) = (l', r', w')"
    | "\<not> ct_stop ?c" "\<not> ct_wanted ?c" "unwanted le (l1, r1, w1) = (l', r', w')"
    | "\<not> ct_stop ?c" "ct_wanted ?c" "link_sync le (act le (watch_cut le (bury le (l1, r1, w1)))) = (l', r', w')"
    using assms(2) 1 by (auto simp: link_step_def Let_def split: if_splits)
  then show ?thesis
  proof cases
    case 1
    then show ?thesis using runsD [OF runs_down [OF assms(1)]] by blast
  next
    case 2
    then show ?thesis using runsD [OF runs_unwanted [OF assms(1)]] r1 by blast
  next
    case 3
    obtain l2 r2 w2 where 2: "bury le (l1, r1, w1) = (l2, r2, w2)" by (metis prod_cases3)
    obtain l3 r3 w3 where 4: "watch_cut le (l2, r2, w2) = (l3, r3, w3)" by (metis prod_cases3)
    obtain l4 r4 w4 where 5: "act le (l3, r3, w3) = (l4, r4, w4)" by (metis prod_cases3)
    have "link_sync le (l4, r4, w4) = (l', r', w')" using 3 2 4 5 by simp
    with runsD [OF runs_bury [OF assms(1)] 2] runsD [OF runs_watch_cut [OF assms(1)] 4]
      runsD [OF runs_act [OF assms(1)] 5] runsD [OF runs_sync [OF assms(1)]]
    show ?thesis unfolding r1 by (meson rtranclp_trans)
  qed
qed

theorem link_run_run:
  assumes "env_ok (le_env le)"
  shows "link_run le waits (l, r, w) = (stop, l', r', w') \<Longrightarrow> rv_run (le_krn le) r r'"
proof (induction waits arbitrary: l r w)
  case (Cons wait waits)
  obtain r1 w1 where 1: "le_others le (r, wait w) = (r1, w1)" by fastforce
  obtain st l2 r2 w2 where 2: "link_step le (l, r1, w1) = (st, l2, r2, w2)" by (metis prod.collapse)
  have r2: "rv_run (le_krn le) r r2"
    using le_others_run [OF assms 1] link_step_run [OF assms 2] by (rule rtranclp_trans)
  show ?case
  proof (cases st)
    case True
    with Cons.prems 1 2 r2 show ?thesis by simp
  next
    case False
    with Cons.prems 1 2 have "link_run le waits (l2, r2, w2) = (stop, l', r', w')" by simp
    from rtranclp_trans [OF r2 Cons.IH [OF this]] show ?thesis .
  qed
qed simp

end
