(* ===== verification/Link_Facts.thy ===== *)
theory Link_Facts
  imports Link
begin

text \<open>
  What holds of a link: the invariant of its state in every step, that the resolver always has
  what the link published last and every step ends with it published, the pauses between connects,
  the cut detector against its definition by all samples, and what a reconnect needs as evidence.
\<close>

section \<open>The invariant\<close>

text \<open>
  Health is up exactly while there is a time since when; one that is not down has a tunnel and no
  connect due; a tunnel that is not there or is to be replaced is not confirmed; patience is in its bounds.
\<close>

definition link_ok :: "link \<Rightarrow> bool" where
  "link_ok l \<longleftrightarrow>
     (lk_health l = Health_Up \<longleftrightarrow> lk_since l \<noteq> None) \<and>
     (lk_health l \<noteq> Health_Down \<longrightarrow> lk_tunnel l \<noteq> None \<and> lk_connect_at l = None) \<and>
     (lk_connect_at l \<noteq> None \<or> lk_tunnel l = None \<longrightarrow> lk_confirmed l = None) \<and>
     deg.bounded (lk_degradation l)"

definition published :: "link \<Rightarrow> bool" where
  "published l \<longleftrightarrow> lk_published l = link_state_of l"

text \<open>The resolver has what the link published.\<close>

definition has_state :: "'k resolver \<Rightarrow> nat \<Rightarrow> link_state \<Rightarrow> bool" where
  "has_state r i s \<longleftrightarrow> map_option snd (get (cr_links (rv_core r)) i) = Some s"

definition told_link :: "('k, 'w) lk \<Rightarrow> bool" where
  "told_link s = (case s of (l, r, w) \<Rightarrow> has_state r (lk_id l) (lk_published l))"

text \<open>The other tasks leave the entry of a link alone: they are other links and the watch.\<close>

definition others_keep :: "('k, 'w) link_env \<Rightarrow> nat \<Rightarrow> bool" where
  "others_keep le i \<longleftrightarrow>
     (\<forall>r w r' w' s. le_others le (r, w) = (r', w') \<longrightarrow> has_state r i s \<longrightarrow> has_state r' i s)"

lemma others_keepD: "others_keep le i \<Longrightarrow> le_others le (r, w) = (r', w') \<Longrightarrow> has_state r i s \<Longrightarrow> has_state r' i s"
  by (auto simp: others_keep_def)

named_theorems lk_simps \<open>the marks of a link, unfolded\<close>

lemmas marks = link_fresh_def retry_now_def follow_network_def link_woke_def unhealthy_def healthy_def lost_def
  recovered_def link_failed_def Let_def

lemma bounded_or_same: "deg.bounded d \<Longrightarrow> deg.bounded (harder_or_same d)"
  by (auto simp: harder_or_same_def deg.bounded_harder split: option.split)

lemma harder_link:
  "link_ok l \<Longrightarrow> 16 * grace (lk_degradation l) \<le> duration_max \<Longrightarrow>
    deg_harder (lk_degradation l) = Some (harder_or_same (lk_degradation l))"
  using harder_no_panic [of "lk_degradation l"] by (auto simp: link_ok_def harder_or_same_def)

section \<open>Marks keep it\<close>

lemma ok_unhealthy: "link_ok l \<Longrightarrow> link_ok (unhealthy l)"
  by (simp add: link_ok_def marks)

lemma ok_lost: "link_ok l \<Longrightarrow> link_ok (lost now l)"
  by (simp add: link_ok_def marks)

lemma ok_failed: "link_ok l \<Longrightarrow> lk_confirmed l = None \<Longrightarrow> link_ok (link_failed now l)"
  by (simp add: link_ok_def marks)

lemma ok_healthy: "link_ok l \<Longrightarrow> lk_tunnel l \<noteq> None \<Longrightarrow> lk_connect_at l = None \<Longrightarrow> link_ok (healthy now l)"
  by (auto simp: link_ok_def marks deg.bounded_passed)

lemma ok_follow: "link_ok l \<Longrightarrow> link_ok (follow_network n now l)"
  by (auto simp: link_ok_def marks)

lemma ok_woke: "link_ok l \<Longrightarrow> link_ok (link_woke now l)"
  by (auto simp: link_ok_def marks)

lemma ok_frame:
  assumes "lk_health l' = lk_health l" "lk_since l' = lk_since l" "lk_tunnel l' = lk_tunnel l"
    "lk_connect_at l' = lk_connect_at l" "lk_confirmed l' = lk_confirmed l" "lk_degradation l' = lk_degradation l"
  shows "link_ok l' = link_ok l"
  by (simp add: link_ok_def assms)

text \<open>Marks name and publish nothing.\<close>

lemma marks_id [simp]:
  "lk_id (unhealthy l) = lk_id l" "lk_id (lost now l) = lk_id l" "lk_id (link_failed now l) = lk_id l"
  "lk_id (healthy now l) = lk_id l" "lk_id (follow_network n now l) = lk_id l" "lk_id (link_woke now l) = lk_id l"
  "lk_id (recovered l) = lk_id l"
  "lk_published (unhealthy l) = lk_published l" "lk_published (lost now l) = lk_published l"
  "lk_published (link_failed now l) = lk_published l" "lk_published (healthy now l) = lk_published l"
  "lk_published (follow_network n now l) = lk_published l" "lk_published (link_woke now l) = lk_published l"
  "lk_published (recovered l) = lk_published l"
  by (simp_all add: marks)

lemma marks_tunnel [simp]:
  "lk_tunnel (unhealthy l) = lk_tunnel l" "lk_tunnel (lost now l) = lk_tunnel l"
  "lk_tunnel (link_failed now l) = lk_tunnel l" "lk_tunnel (healthy now l) = lk_tunnel l"
  "lk_tunnel (follow_network n now l) = lk_tunnel l" "lk_tunnel (link_woke now l) = lk_tunnel l"
  "lk_tunnel (recovered l) = lk_tunnel l"
  by (simp_all add: marks)

section \<open>Waits keep what the resolver was told\<close>

lemma keep_sync_pf:
  assumes "others_keep le i" "sync_pf (le_env le) r w = (res, r', w')" "has_state r i s"
  shows "has_state r' i s"
proof -
  have o: "has_state (fst (en_others (le_env le) (x, y))) i s" if "has_state x i s" for x y
    using others_keepD [OF assms(1) _ that, of y] by (cases "en_others (le_env le) (x, y)") (simp add: le_others_def)
  have f: "has_state (x\<lparr>rv_pf_stale := b\<rparr>) i s = has_state x i s" "has_state (x\<lparr>rv_pf_shape := p\<rparr>) i s = has_state x i s"
    "has_state (x\<lparr>rv_pf_stale := b, rv_pf_shape := p\<rparr>) i s = has_state x i s" for x :: "'a resolver" and b p
    by (simp_all add: has_state_def)
  show ?thesis
  proof (cases "rv_pf r")
    case None
    with assms(2,3) show ?thesis by (simp add: sync_pf_def)
  next
    case (Some dir)
    obtain r1 w1 where 1: "en_others (le_env le) (r, w) = (r1, w1)" by fastforce
    have h1: "has_state r1 i s" using o [OF assms(3), of w] by (simp add: 1)
    obtain r2 w2 where 2: "en_others (le_env le) (r1\<lparr>rv_pf_stale := False\<rparr>, w1) = (r2, w2)" by fastforce
    have h2: "has_state r2 i s" using o [of "r1\<lparr>rv_pf_stale := False\<rparr>" w1] h1 by (simp add: 2 f)
    obtain v w3 where 3: "Pf_load (en_os (le_env le)) dir (resolver_shape r1) (resolver_tables r2) w2 = (v, w3)" by fastforce
    obtain r4 w4 where 4: "en_others (le_env le) (r2, w3) = (r4, w4)" by fastforce
    have h4: "has_state r4 i s" using o [OF h2, of w3] by (simp add: 4)
    from assms(2) Some 1 2 3 4 h1 h4 show ?thesis
      by (auto simp: sync_pf_def Let_def f resolver_shape_def split: if_splits sum.splits)
  qed
qed

lemma keep_reconcile: "has_state (reconcile krn now r) i s = has_state r i s"
proof (cases "cr_stopped (rv_core r)")
  case True
  then show ?thesis by (simp add: reconcile_def)
next
  case False
  have h: "cr_links (rv_core (snd (place_hosts krn x))) = cr_links (rv_core x)" for x
    by (simp add: place_hosts_def Let_def split: prod.split)
  have n: "cr_links (rv_core (snd (place_subnets krn ll x))) = cr_links (rv_core x)" for x ll
    by (simp add: place_subnets_def Let_def split: prod.split)
  show ?thesis using False by (simp add: reconcile_def has_state_def h n pick_tunnels_core Let_def)
qed

text \<open>A sync publishes the state as it is, and the resolver has it.\<close>

lemma link_sync_fst: "fst (link_sync le (l, r, w)) = l\<lparr>lk_published := link_state_of l\<rparr>"
  by (cases l) (simp add: link_sync_def Let_def split: prod.split)

lemma link_sync_told:
  assumes "others_keep le (lk_id l)" "lk_id l < length (cr_links (rv_core r))" "told_link (l, r, w)"
  shows "told_link (link_sync le (l, r, w))"
proof (cases "link_state_of l = lk_published l")
  case True
  with assms(3) show ?thesis by (simp add: link_sync_def)
next
  case False
  let ?r = "reconcile (en_kernel (le_env le)) (le_now le w) (set_link (lk_id l) (link_state_of l) r)"
  obtain res r' w' where s: "sync_pf (le_env le) ?r w = (res, r', w')"
    by (cases "sync_pf (le_env le) ?r w") auto
  have "has_state (set_link (lk_id l) (link_state_of l) r) (lk_id l) (link_state_of l)"
    using assms(2) by (simp add: has_state_def set_link_def modify_nth_def get_def split: prod.split)
  then have "has_state ?r (lk_id l) (link_state_of l)" by (simp only: keep_reconcile)
  from keep_sync_pf [OF assms(1) s this] False show ?thesis
    by (simp add: link_sync_def told_link_def s Let_def)
qed

section \<open>A sound link\<close>

definition sound :: "nat \<Rightarrow> ('k, 'w) lk \<Rightarrow> bool" where
  "sound i s = (case s of (l, r, w) \<Rightarrow> link_ok l \<and> lk_id l = i \<and> has_state r i (lk_published l))"

lemma sound_simp [simp]: "sound i (l, r, w) \<longleftrightarrow> link_ok l \<and> lk_id l = i \<and> has_state r i (lk_published l)"
  by (simp add: sound_def)

lemma keep_counters:
  "others_keep le i \<Longrightarrow> link_counters le n r w = (c, r', w') \<Longrightarrow> has_state r i s \<Longrightarrow> has_state r' i s"
  by (auto simp: link_counters_def Let_def split: prod.splits dest: others_keepD)

lemma keep_take_down:
  "others_keep le i \<Longrightarrow> take_down le t r w = (r', w') \<Longrightarrow> has_state r i s \<Longrightarrow> has_state r' i s"
  by (auto simp: take_down_def dest: others_keepD)

lemma keep_undisturbed:
  "others_keep le i \<Longrightarrow> undisturbed le l probe r w = (v, r', w') \<Longrightarrow> has_state r i s \<Longrightarrow> has_state r' i s"
  by (auto simp: undisturbed_def Let_def split: prod.splits option.splits dest: others_keepD)

lemma keep_endpoint:
  "others_keep le i \<Longrightarrow> link_endpoint le l r w = (v, r', w') \<Longrightarrow> has_state r i s \<Longrightarrow> has_state r' i s"
  by (auto simp: link_endpoint_def Let_def split: prod.splits option.splits dest: others_keepD)

lemma keep_seen:
  "others_keep le i \<Longrightarrow> tunnel_seen le l r w = (v, r', w') \<Longrightarrow> has_state r i s \<Longrightarrow> has_state r' i s"
  by (auto simp: tunnel_seen_def Let_def split: prod.splits option.splits dest: others_keepD keep_counters)

lemma keep_carrying:
  "others_keep le i \<Longrightarrow> link_carrying le g l r w = (v, r', w') \<Longrightarrow> has_state r i s \<Longrightarrow> has_state r' i s"
  by (auto simp: link_carrying_def Let_def split: prod.splits option.splits dest: others_keepD)

lemma carrying_tunnel: "link_carrying le g l r w = (True, r', w') \<Longrightarrow> lk_tunnel l \<noteq> None"
  by (cases "lk_tunnel l") (simp_all add: link_carrying_def)

lemma ok_published [simp]: "link_ok (l\<lparr>lk_published := p\<rparr>) = link_ok l"
  by (rule ok_frame) simp_all

lemma sound_sync:
  assumes "others_keep le i" "sound i (l, r, w)"
  shows "sound i (link_sync le (l, r, w)) \<and> fst (link_sync le (l, r, w)) = l\<lparr>lk_published := link_state_of l\<rparr>"
proof -
  from assms(2) have l: "lk_id l = i" "has_state r i (lk_published l)" "link_ok l" by simp_all
  from l(2) have len: "lk_id l < length (cr_links (rv_core r))" by (auto simp: has_state_def l(1))
  obtain l' r' w' where s: "link_sync le (l, r, w) = (l', r', w')" by (cases "link_sync le (l, r, w)") auto
  have l': "l' = l\<lparr>lk_published := link_state_of l\<rparr>" using link_sync_fst [of le l r w] by (simp add: s)
  have "told_link (link_sync le (l, r, w))"
    by (rule link_sync_told [OF assms(1) [folded l(1)] len]) (simp add: told_link_def l)
  with l l' show ?thesis by (simp add: s told_link_def)
qed

lemma sync_cases:
  assumes "others_keep le i" "sound i (l, r, w)" "link_sync le (l, r, w) = (l', r', w')"
  shows "l' = l\<lparr>lk_published := link_state_of l\<rparr> \<and> sound i (l', r', w')"
  using sound_sync [OF assms(1,2)] unfolding assms(3) fst_conv by blast

lemma published_sync: "published (l\<lparr>lk_published := link_state_of l\<rparr>)"
  by (simp add: published_def link_state_of_def)

lemma sound_down:
  assumes "others_keep le i" "sound i (l, r, w)" "link_down le (l, r, w) = (l', r', w')"
  shows "sound i (l', r', w') \<and> lk_tunnel l' = None \<and> lk_health l' = Health_Down \<and> published l'"
proof -
  obtain r1 w1 where 1: "(case lk_tunnel l of None \<Rightarrow> (r, w) | Some t \<Rightarrow> take_down le t r w) = (r1, w1)"
    by fastforce
  have r1: "has_state r1 i (lk_published l)"
    using assms(2) 1 by (auto split: option.splits dest: keep_take_down [OF assms(1)])
  let ?l = "(unhealthy (l\<lparr>lk_tunnel := None\<rparr>))\<lparr>lk_confirmed := None\<rparr>"
  have "link_ok ?l" using assms(2) by (auto simp: link_ok_def unhealthy_def)
  with assms(2) r1 have "sound i (?l, r1, w1)" by (simp add: unhealthy_def)
  moreover have "link_sync le (?l, r1, w1) = (l', r', w')"
    using assms(3) 1 by (simp add: link_down_def Let_def)
  ultimately have q: "l' = ?l\<lparr>lk_published := link_state_of ?l\<rparr>" "sound i (l', r', w')"
    using sync_cases [OF assms(1)] by blast+
  have "published l'" unfolding q(1) by (rule published_sync)
  with q show ?thesis by (simp add: unhealthy_def)
qed

section \<open>Connecting keeps it\<close>

lemma sound_hand_over:
  assumes "others_keep le i" "sound i (l, r, w)" "hand_over le new (l, r, w) = (l', r', w')"
    "lk_connect_at l \<noteq> None"
  shows "sound i (l', r', w') \<and> lk_tunnel l' = Some new \<and> lk_connect_at l' = lk_connect_at l \<and>
    lk_generation l' = lk_generation l \<and> published l'"
proof -
  obtain p w1 where 1: "listen_port (le_os le) (le_tools le) new w = (p, w1)" by fastforce
  obtain r2 w2 where 2: "le_others le (r, w1) = (r2, w2)" by fastforce
  obtain c r3 w3 where 3: "link_counters le (tn_name new) r2 w2 = (c, r3, w3)"
    by (cases "link_counters le (tn_name new) r2 w2") auto
  let ?l = "(unhealthy (l\<lparr>lk_tunnel := Some new, lk_rx_seen := map_option rx_bytes c\<rparr>))\<lparr>lk_pinged := False\<rparr>"
  have "has_state r2 i (lk_published l)" using others_keepD [OF assms(1) 2] assms(2) by simp
  then have "has_state r3 i (lk_published l)" by (rule keep_counters [OF assms(1) 3])
  moreover have "link_ok ?l" using assms(2,4) by (auto simp: link_ok_def unhealthy_def)
  ultimately have "sound i (?l, r3, w3)" using assms(2) by (simp add: unhealthy_def)
  moreover have "link_sync le (?l, r3, w3) = (l', r', w')"
    using assms(3) by (simp add: hand_over_def 1 2 3 Let_def)
  ultimately have q: "l' = ?l\<lparr>lk_published := link_state_of ?l\<rparr>" "sound i (l', r', w')"
    using sync_cases [OF assms(1)] by blast+
  have "published l'" unfolding q(1) by (rule published_sync)
  with q show ?thesis by (simp add: unhealthy_def)
qed

lemma retire_cases:
  assumes "others_keep le i" "has_state r i p"
  obtains r' w' where "retire le old (l, r, w) = (l, r', w')" "has_state r' i p"
proof (cases old)
  case None
  with assms(2) that show thesis by (simp add: retire_def)
next
  case (Some t)
  obtain r' w' where 1: "take_down le t r w = (r', w')" by fastforce
  with Some that keep_take_down [OF assms(1) 1 assms(2)] show thesis by (simp add: retire_def)
qed

lemma sound_confirm:
  assumes "others_keep le i" "sound i (l, r, w)" "lk_connect_at l \<noteq> None" "lk_tunnel l \<noteq> None"
    "confirm le after_degraded found (l, r, w) = (l', r', w')"
  shows "sound i (l', r', w')"
proof -
  have c: "lk_confirmed l = None" "lk_health l = Health_Down" "lk_since l = None"
    using assms(2,3) by (auto simp: link_ok_def)
  consider (yes) "found = Some True" | (no) "found = Some False" | (disturbed) "found = None"
    by (cases found) auto
  then show ?thesis
  proof cases
    case yes
    have "link_ok (healthy (le_now le w) (l\<lparr>lk_connect_at := None, lk_confirmed := Some (le_now le w)\<rparr>))"
      using assms(2,4) c by (intro ok_healthy) (auto simp: link_ok_def)
    moreover have "link_ok (recovered (x\<lparr>lk_samples := a, lk_next := b, lk_offline := d, lk_works := e\<rparr>)) = link_ok x"
      for x a b d e by (rule ok_frame) (simp_all add: recovered_def)
    ultimately show ?thesis using assms(2,5) yes by (auto simp: confirm_def Let_def)
  next
    case no
    obtain v r1 w1 where 1: "tunnel_seen le l r w = (v, r1, w1)" by (cases "tunnel_seen le l r w") auto
    have r1: "has_state r1 i (lk_published l)" using assms(2) keep_seen [OF assms(1) 1] by simp
    have "link_ok (l\<lparr>lk_degradation := harder_or_same (lk_degradation l), lk_connect_at := None,
        lk_check_at := x, lk_next := Next_Usual\<rparr>)" for x
      using assms(2) c bounded_or_same by (auto simp: link_ok_def)
    moreover have "link_ok (link_failed now l)" for now using assms(2) c by (simp add: ok_failed)
    ultimately show ?thesis using assms(2,5) no r1 by (auto simp: confirm_def Let_def 1)
  next
    case disturbed
    have "link_ok (l\<lparr>lk_connect_at := Some x\<rparr>)" for x using assms(2) c by (auto simp: link_ok_def)
    with assms(2,5) disturbed show ?thesis by (auto simp: confirm_def ok_follow)
  qed
qed

lemma sound_connect_up:
  assumes "others_keep le i" "sound i (l, r, w)" "lk_connect_at l \<noteq> None"
    "connect_up le after_degraded new (l, r, w) = (l', r', w')"
  shows "sound i (l', r', w')"
proof -
  obtain l1 r1 w1 where 1: "hand_over le new (l, r, w) = (l1, r1, w1)" by (cases "hand_over le new (l, r, w)") auto
  note s1 = sound_hand_over [OF assms(1,2) 1 assms(3)]
  obtain r2 w2 where 2: "retire le (lk_tunnel l) (l1, r1, w1) = (l1, r2, w2)" and
    s2: "has_state r2 i (lk_published l1)"
    using retire_cases [OF assms(1)] s1 by (metis sound_simp)
  obtain v r3 w3 where 3: "undisturbed le l1 (link_tls le (tn_name new) CONFIRM) r2 w2 = (v, r3, w3)"
    by (cases "undisturbed le l1 (link_tls le (tn_name new) CONFIRM) r2 w2") auto
  have s3: "sound i (l1, r3, w3)" using s1 s2 keep_undisturbed [OF assms(1) 3] by simp
  have t: "lk_connect_at l1 \<noteq> None" "lk_tunnel l1 \<noteq> None" using s1 assms(3) by simp_all
  have "confirm le after_degraded v (l1, r3, w3) = (l', r', w')"
    using assms(4) by (simp add: connect_up_def 1 2 3)
  then show ?thesis by (rule sound_confirm [OF assms(1) s3 t])
qed

lemma sound_connect:
  assumes "others_keep le i" "sound i (l, r, w)" "lk_connect_at l \<noteq> None" "connect le (l, r, w) = (l', r', w')"
  shows "sound i (l', r', w')"
proof -
  let ?sq = "le_seq le w + 1"
  let ?l = "l\<lparr>lk_after_degraded := False, lk_generation := ?sq\<rparr>"
  have l: "link_ok ?l" "lk_confirmed l = None" using assms(2,3) by (auto simp: link_ok_def)
  obtain x r1 w1 where 1: "link_endpoint le ?l r (le_set_seq le ?sq w) = (x, r1, w1)"
    by (cases "link_endpoint le ?l r (le_set_seq le ?sq w)") auto
  have s1: "sound i (?l, r1, w1)" using assms(2) l keep_endpoint [OF assms(1) 1] by simp
  show ?thesis
  proof (cases x)
    case (Inl e)
    with assms(4) 1 s1 l(2) show ?thesis by (auto simp: connect_def Let_def ok_failed)
  next
    case (Inr ip)
    obtain l2 r2 w2 where 2: "link_sync le (?l\<lparr>lk_endpoint := Some ip\<rparr>, r1, w1) = (l2, r2, w2)"
      by (cases "link_sync le (?l\<lparr>lk_endpoint := Some ip\<rparr>, r1, w1)") auto
    have "link_ok (?l\<lparr>lk_endpoint := Some ip\<rparr>) = link_ok ?l" by (rule ok_frame) simp_all
    with s1 have "sound i (?l\<lparr>lk_endpoint := Some ip\<rparr>, r1, w1)" by simp
    from sync_cases [OF assms(1) this 2] assms(3) l(2)
    have s2: "sound i (l2, r2, w2)" "lk_connect_at l2 \<noteq> None" "lk_confirmed l2 = None" by auto
    obtain y w3 where 3: "tunnel_up (le_os le) (le_procs le) (le_tools le) (lk_conf l2) ip ?sq w2 = (y, w3)" by fastforce
    obtain r4 w4 where 4: "le_others le (r2, w3) = (r4, w4)" by fastforce
    have s4: "sound i (l2, r4, w4)" using s2(1) others_keepD [OF assms(1) 4] by simp
    show ?thesis
    proof (cases y)
      case (Inl e)
      with assms(4) Inr 1 2 3 4 s4 s2(3) show ?thesis by (auto simp: connect_def Let_def ok_failed)
    next
      case (Inr new)
      with assms(4) \<open>x = Inr ip\<close> 1 2 3 4 have
        "connect_up le (lk_after_degraded l) new (l2, r4, w4) = (l', r', w')"
        by (simp add: connect_def Let_def)
      then show ?thesis by (rule sound_connect_up [OF assms(1) s4 s2(2)])
    qed
  qed
qed

section \<open>Checking keeps it\<close>

lemma sound_aborted:
  "sound i (l, r, w) \<Longrightarrow> aborted le nx (l, r, w) = (l', r', w') \<Longrightarrow> sound i (l', r', w')"
  using ok_frame [of "l\<lparr>lk_next := nx, lk_check_at := le_now le w\<rparr>" l] by (auto simp: aborted_def ok_follow)

lemma sound_rx_grew:
  assumes "others_keep le i" "sound i (l, r, w)" "rx_grew le name (l, r, w) = (g, l', r', w')"
  shows "sound i (l', r', w') \<and> lk_tunnel l' = lk_tunnel l \<and> lk_connect_at l' = lk_connect_at l"
proof -
  obtain c r1 w1 where 1: "link_counters le name r w = (c, r1, w1)" by (cases "link_counters le name r w") auto
  have "link_ok (l\<lparr>lk_rx_seen := x\<rparr>) = link_ok l" for x by (rule ok_frame) simp_all
  with assms(2,3) keep_counters [OF assms(1) 1] show ?thesis by (auto simp: rx_grew_def 1 split: option.splits)
qed

lemma sound_cut_seen:
  assumes "others_keep le i" "sound i (l, r, w)" "cut_seen le (l, r, w) = (g, l', r', w')"
  shows "sound i (l', r', w') \<and> lk_tunnel l' = lk_tunnel l \<and> lk_connect_at l' = lk_connect_at l"
proof (cases "lk_tunnel l")
  case None
  with assms(2,3) show ?thesis by (auto simp: cut_seen_def)
next
  case (Some t)
  obtain c r1 w1 where 1: "link_counters le (tn_name t) r w = (c, r1, w1)"
    by (cases "link_counters le (tn_name t) r w") auto
  have "link_ok (l\<lparr>lk_samples := x\<rparr>) = link_ok l" for x by (rule ok_frame) simp_all
  with assms(2,3) Some keep_counters [OF assms(1) 1] show ?thesis
    by (auto simp: cut_seen_def 1 Let_def split: option.splits)
qed

lemma sound_suspect:
  assumes "others_keep le i" "sound i (l, r, w)" "suspect le (l, r, w) = (l', r', w')"
  shows "sound i (l', r', w') \<and> lk_tunnel l' = lk_tunnel l \<and> lk_connect_at l' = lk_connect_at l"
proof (cases "lk_pinged l \<and> lk_health l = Health_Up")
  case False
  with assms(2,3) show ?thesis by (auto simp: suspect_def)
next
  case True
  let ?l = "l\<lparr>lk_health := Health_Suspect, lk_since := None\<rparr>"
  have s: "sound i (?l, r, w)" using assms(2) True by (auto simp: link_ok_def)
  have y: "link_sync le (?l, r, w) = (l', r', w')" using assms(3) True by (simp add: suspect_def)
  from sync_cases [OF assms(1) s y] show ?thesis by auto
qed

lemma sound_probes:
  assumes "others_keep le i" "sound i (l, r, w)" "probes le t plim tlim was_cut (l, r, w) = (v, l', r', w')"
  shows "sound i (l', r', w') \<and> lk_tunnel l' = lk_tunnel l \<and> lk_connect_at l' = lk_connect_at l"
proof -
  obtain p r1 w1 where 1: "undisturbed le l (link_ping le (nonzero (ucast (tn_index t))) TARGETS plim) r w = (p, r1, w1)"
    by (cases "undisturbed le l (link_ping le (nonzero (ucast (tn_index t))) TARGETS plim) r w") auto
  have s1: "sound i (l, r1, w1)" using assms(2) keep_undisturbed [OF assms(1) 1] by simp
  have pinged: "link_ok (l\<lparr>lk_pinged := True\<rparr>) = link_ok l" by (rule ok_frame) simp_all
  show ?thesis
  proof (cases "p = Some None \<and> \<not> was_cut \<and> tlim \<noteq> None")
    case False
    with assms(3) s1 show ?thesis
      by (auto simp: probes_def 1 pinged Let_def split: option.splits if_splits)
  next
    case True
    then obtain limit where limit: "p = Some None" "\<not> was_cut" "tlim = Some limit" by auto
    obtain l2 r2 w2 where 2: "suspect le (l, r1, w1) = (l2, r2, w2)" by (cases "suspect le (l, r1, w1)") auto
    note s2 = sound_suspect [OF assms(1) s1 2]
    obtain q r3 w3 where 3: "undisturbed le l2 (link_tls le (tn_name t) limit) r2 w2 = (q, r3, w3)"
      by (cases "undisturbed le l2 (link_tls le (tn_name t) limit) r2 w2") auto
    have s3: "sound i (l2, r3, w3)" using s2 keep_undisturbed [OF assms(1) 3] by simp
    from assms(3) limit 1 2 3 have "l' = l2" "r' = r3" "w' = w3"
      by (auto simp: probes_def Let_def split: option.splits)
    with s2 s3 show ?thesis by simp
  qed
qed

lemma sound_passed:
  assumes "sound i (l, r, w)" "lk_tunnel l \<noteq> None" "lk_connect_at l = None"
    "check_passed le was_cut (l, r, w) = (l', r', w')"
  shows "sound i (l', r', w')"
proof -
  let ?l1 = "if was_cut then l\<lparr>lk_cut_quiet_until := lk_check_at l\<rparr> else l"
  let ?l2 = "(healthy (le_now le w) ?l1)\<lparr>lk_offline := False\<rparr>"
  have "link_ok (l\<lparr>lk_cut_quiet_until := lk_check_at l\<rparr>) = link_ok l" by (rule ok_frame) simp_all
  with assms(1) have "link_ok ?l1" by simp
  then have "link_ok (healthy (le_now le w) ?l1)" using assms(2,3) by (intro ok_healthy) simp_all
  moreover have "link_ok (x\<lparr>lk_offline := False\<rparr>) = link_ok x" "link_ok (x\<lparr>lk_failures := 0\<rparr>) = link_ok x"
    "link_ok (recovered x) = link_ok x" for x by (rule ok_frame, simp_all add: recovered_def)+
  ultimately have ok: "link_ok (recovered ?l2)" "link_ok (recovered (?l2\<lparr>lk_failures := 0\<rparr>))" by simp_all
  have "l' = recovered ?l2 \<or> l' = recovered (?l2\<lparr>lk_failures := 0\<rparr>)" "r' = r"
    using assms(4) by (auto simp: check_passed_def Let_def)
  with ok assms(1) show ?thesis by auto
qed

lemma sound_degraded:
  assumes "others_keep le i" "sound i (l, r, w)" "lk_connect_at l = None"
    "link_degraded le g (l, r, w) = (b, l', r', w')"
  shows "sound i (l', r', w') \<and> (\<not> b \<longrightarrow> lk_tunnel l' = lk_tunnel l \<and> lk_connect_at l' = None)"
proof -
  obtain c r1 w1 where 1: "link_carrying le g l r w = (c, r1, w1)" by (cases "link_carrying le g l r w") auto
  obtain v d where 2: "deg_failed (lk_degradation l) (le_now le w1) c = (v, d)" by fastforce
  have s1: "has_state r1 i (lk_published l)" using assms(2) keep_carrying [OF assms(1) 1] by simp
  have d: "deg.bounded d" using deg.bounded_failed [of "lk_degradation l" "le_now le w1" c] assms(2) 2
    by (simp add: link_ok_def)
  then have ok: "link_ok (l\<lparr>lk_degradation := d\<rparr>)" "link_ok (l\<lparr>lk_degradation := d, lk_after_degraded := True\<rparr>)"
    using assms(2) by (auto simp: link_ok_def)
  show ?thesis
  proof (cases v)
    case Verdict_Down
    with assms(2-4) 1 2 s1 ok show ?thesis by (auto simp: link_degraded_def)
  next
    case (Verdict_Left age)
    then have "c" using deg.failed_not [of "lk_degradation l" "le_now le w1"] 2 by (cases c) auto
    with 1 have "lk_tunnel l \<noteq> None" using carrying_tunnel by metis
    with d assms(2,3) have "link_ok (l\<lparr>lk_degradation := d, lk_health := Health_Degraded, lk_since := None\<rparr>)"
      by (auto simp: link_ok_def)
    with Verdict_Left assms(2-4) 1 2 s1 show ?thesis by (auto simp: link_degraded_def)
  next
    case Verdict_Restart
    with assms(2-4) 1 2 s1 ok show ?thesis by (auto simp: link_degraded_def ok_lost)
  qed
qed

lemma sound_failed:
  assumes "others_keep le i" "sound i (l, r, w)" "lk_connect_at l = None"
    "check_failed le g (l, r, w) = (l', r', w')"
  shows "sound i (l', r', w')"
proof -
  obtain b l1 r1 w1 where 1: "link_degraded le g (l, r, w) = (b, l1, r1, w1)"
    by (cases "link_degraded le g (l, r, w)") auto
  note s1 = sound_degraded [OF assms(1-3) 1]
  show ?thesis
  proof (cases b)
    case True
    with assms(4) 1 s1 show ?thesis by (simp add: check_failed_def)
  next
    case False
    obtain l2 r2 w2 where 2: "link_sync le (unhealthy l1, r1, w1) = (l2, r2, w2)"
      by (cases "link_sync le (unhealthy l1, r1, w1)") auto
    have "sound i (unhealthy l1, r1, w1)" using s1 by (simp add: ok_unhealthy)
    from sync_cases [OF assms(1) this 2] have s2: "sound i (l2, r2, w2)" by blast
    obtain v r3 w3 where 3: "undisturbed le l2 (direct le l2 r2) r2 w2 = (v, r3, w3)"
      by (cases "undisturbed le l2 (direct le l2 r2) r2 w2") auto
    have s3: "sound i (l2, r3, w3)" using s2 keep_undisturbed [OF assms(1) 3] by simp
    have off: "link_ok (l2\<lparr>lk_offline := True\<rparr>) = link_ok l2" by (rule ok_frame) simp_all
    consider (a) "v = None" | (y) "v = Some True" | (n) "v = Some False" by (cases v) auto
    then show ?thesis
    proof cases
      case a
      with assms(4) 1 2 3 False have "aborted le Next_Usual (l2, r3, w3) = (l', r', w')" by (simp add: check_failed_def)
      then show ?thesis by (rule sound_aborted [OF s3])
    next
      case y
      with assms(4) 1 2 3 False s3 show ?thesis by (auto simp: check_failed_def ok_lost)
    next
      case n
      with assms(4) 1 2 3 False s3 off show ?thesis by (auto simp: check_failed_def)
    qed
  qed
qed

lemma sound_check:
  assumes "others_keep le i" "sound i (l, r, w)" "lk_connect_at l = None" "check le (l, r, w) = (l', r', w')"
  shows "sound i (l', r', w')"
proof -
  let ?fresh = "le_now le w < lk_fresh_until l"
  let ?l = "l\<lparr>lk_check_at := le_now le w + (if ?fresh then FAST else SLOW)\<rparr>"
  have l: "link_ok ?l" "link_ok (?l\<lparr>lk_works := None\<rparr>)"
    using assms(2) by (simp_all add: ok_frame [where l = l and l' = ?l] ok_frame [where l = l and l' = "?l\<lparr>lk_works := None\<rparr>"])
  show ?thesis
  proof (cases "lk_tunnel l")
    case None
    with assms(2,4) l show ?thesis by (auto simp: check_def Let_def ok_lost)
  next
    case (Some t)
    obtain g l1 r1 w1 where 1: "rx_grew le (tn_name t) (?l, r, w) = (g, l1, r1, w1)"
      by (cases "rx_grew le (tn_name t) (?l, r, w)") auto
    have s1: "sound i (l1, r1, w1)" "lk_tunnel l1 = Some t" "lk_connect_at l1 = None"
      using sound_rx_grew [OF assms(1) _ 1] assms(2,3) l Some by auto
    obtain plim tlim where lim: "check_limits (lk_next l1 = Next_Woke) ?fresh = (plim, tlim)" by fastforce
    let ?l1 = "l1\<lparr>lk_next := Next_Usual, lk_samples := []\<rparr>"
    have "link_ok ?l1 = link_ok l1" by (rule ok_frame) simp_all
    with s1(1) have s2: "sound i (?l1, r1, w1)" by simp
    obtain v l3 r3 w3 where 3: "probes le t plim tlim (lk_next l1 = Next_Cut) (?l1, r1, w1) = (v, l3, r3, w3)"
      by (cases "probes le t plim tlim (lk_next l1 = Next_Cut) (?l1, r1, w1)") auto
    have s3: "sound i (l3, r3, w3)" "lk_tunnel l3 = Some t" "lk_connect_at l3 = None"
      using sound_probes [OF assms(1) s2 3] s1 by auto
    have c: "check le (l, r, w) = (case v of
        None \<Rightarrow> aborted le (lk_next l1) (l3, r3, w3)
      | Some f \<Rightarrow> if link_report f then check_passed le (lk_next l1 = Next_Cut) (l3\<lparr>lk_works := None\<rparr>, r3, w3)
          else check_failed le g (l3\<lparr>lk_works := None\<rparr>, r3, w3))"
      using Some by (simp add: check_def 1 3 lim [unfolded if_distrib] Let_def split: option.split)
    have "link_ok (l3\<lparr>lk_works := None\<rparr>) = link_ok l3" by (rule ok_frame) simp_all
    with s3(1) have s4: "sound i (l3\<lparr>lk_works := None\<rparr>, r3, w3)" by simp
    show ?thesis
    proof (cases v)
      case None
      with c assms(4) have "aborted le (lk_next l1) (l3, r3, w3) = (l', r', w')" by simp
      then show ?thesis by (rule sound_aborted [OF s3(1)])
    next
      case (Some f)
      show ?thesis
      proof (cases "link_report f")
        case True
        with Some c assms(4) have "check_passed le (lk_next l1 = Next_Cut) (l3\<lparr>lk_works := None\<rparr>, r3, w3) = (l', r', w')"
          by simp
        from sound_passed [OF s4 _ _ this] s3 show ?thesis by simp
      next
        case False
        with Some c assms(4) have "check_failed le g (l3\<lparr>lk_works := None\<rparr>, r3, w3) = (l', r', w')" by simp
        from sound_failed [OF assms(1) s4 _ this] s3 show ?thesis by simp
      qed
    qed
  qed
qed

section \<open>Every step keeps it\<close>

lemma sound_hear:
  assumes "sound i (l, r, w)" "hear le c (l, r, w) = (l', r', w')"
  shows "sound i (l', r', w')"
proof -
  have "link_ok (l\<lparr>lk_wakes := x\<rparr>) = link_ok l" for x by (rule ok_frame) simp_all
  with assms show ?thesis by (auto simp: hear_def Let_def ok_woke ok_follow)
qed

lemma hear_tunnel: "hear le c (l, r, w) = (l', r', w') \<Longrightarrow> lk_tunnel l' = lk_tunnel l \<and> r' = r \<and> w' = w"
  by (auto simp: hear_def Let_def)

lemma sound_unwanted:
  assumes "others_keep le i" "sound i (l, r, w)" "unwanted le (l, r, w) = (l', r', w')"
  shows "sound i (l', r', w') \<and> lk_tunnel l' = None \<and> published l'"
proof -
  obtain l1 r1 w1 where 1: "(if lk_tunnel l \<noteq> None then link_down le (l, r, w) else (l, r, w)) = (l1, r1, w1)"
    by (cases "if lk_tunnel l \<noteq> None then link_down le (l, r, w) else (l, r, w)") auto
  have s1: "sound i (l1, r1, w1)" "lk_tunnel l1 = None"
    using 1 assms(2) sound_down [OF assms(1,2)] by (auto split: if_splits)
  let ?l = "l1\<lparr>lk_connect_at := Some (le_now le w1), lk_failures := 0, lk_works := None\<rparr>"
  have "link_ok ?l" using s1 by (auto simp: link_ok_def)
  with s1(1) have s2: "sound i (?l, r1, w1)" by simp
  have y: "link_sync le (?l, r1, w1) = (l', r', w')"
    using assms(3) 1 by (simp add: unwanted_def split: if_splits)
  have q: "l' = ?l\<lparr>lk_published := link_state_of ?l\<rparr>" "sound i (l', r', w')"
    using sync_cases [OF assms(1) s2 y] by blast+
  have "published l'" unfolding q(1) by (rule published_sync)
  with q s1(2) show ?thesis by simp
qed

lemma sound_bury:
  assumes "others_keep le i" "sound i (l, r, w)" "bury le (l, r, w) = (l', r', w')"
  shows "sound i (l', r', w')"
proof (cases "lk_tunnel l")
  case None
  with assms(2,3) show ?thesis by (simp add: bury_def)
next
  case (Some t)
  obtain gone w1 where 1: "exited (le_procs le) t w = (gone, w1)" by fastforce
  show ?thesis
  proof (cases gone)
    case False
    with Some 1 assms(2,3) show ?thesis by (simp add: bury_def)
  next
    case True
    obtain r2 w2 where 2: "take_down le t r w1 = (r2, w2)" by fastforce
    let ?l = "l\<lparr>lk_tunnel := None\<rparr>"
    let ?l1 = "if lk_connect_at ?l = None then lost (le_now le w2) ?l else ?l"
    have "link_ok ?l1" using assms(2) by (auto simp: link_ok_def lost_def unhealthy_def)
    moreover have "has_state r2 i (lk_published l)" using assms(2) keep_take_down [OF assms(1) 2] by simp
    ultimately have s: "sound i (?l1, r2, w2)" using assms(2) by simp
    have "link_sync le (?l1, r2, w2) = (l', r', w')"
      using assms(3) Some 1 2 True by (simp add: bury_def Let_def split: if_splits)
    from sync_cases [OF assms(1) s this] show ?thesis by blast
  qed
qed

lemma sound_watch_cut:
  assumes "others_keep le i" "sound i (l, r, w)" "watch_cut le (l, r, w) = (l', r', w')"
  shows "sound i (l', r', w')"
proof -
  obtain b l1 r1 w1 where 1: "cut_seen le (l, r, w) = (b, l1, r1, w1)" by (cases "cut_seen le (l, r, w)") auto
  note s1 = sound_cut_seen [OF assms(1,2) 1]
  have "link_ok (l1\<lparr>lk_next := x, lk_check_at := y\<rparr>) = link_ok l1" for x y by (rule ok_frame) simp_all
  with assms(2,3) s1 show ?thesis by (auto simp: watch_cut_def 1 split: if_splits bool.splits)
qed

lemma sound_act:
  assumes "others_keep le i" "sound i (l, r, w)" "act le (l, r, w) = (l', r', w')"
  shows "sound i (l', r', w')"
proof (cases "lk_connect_at l")
  case None
  with assms(2,3) sound_check [OF assms(1,2) None] show ?thesis by (auto simp: act_def split: if_splits)
next
  case (Some at)
  with assms(2,3) sound_connect [OF assms(1,2)] show ?thesis by (auto simp: act_def split: if_splits)
qed

lemma sound_step:
  assumes "others_keep le i" "sound i (l, r, w)" "link_step le (l, r, w) = (stop, l', r', w')"
  shows "sound i (l', r', w') \<and> published l' \<and> stop = ct_stop (le_ctl le w) \<and>
    (ct_stop (le_ctl le w) \<or> \<not> ct_wanted (le_ctl le w) \<longrightarrow> lk_tunnel l' = None)"
proof (cases "ct_stop (le_ctl le w)")
  case True
  with assms(3) have "link_down le (l, r, w) = (l', r', w')" "stop" by (simp_all add: link_step_def)
  with True sound_down [OF assms(1,2)] show ?thesis by simp
next
  case False
  obtain l1 r1 w1 where 1: "hear le (le_ctl le w) (l, r, w) = (l1, r1, w1)"
    by (cases "hear le (le_ctl le w) (l, r, w)") auto
  note s1 = sound_hear [OF assms(2) 1]
  show ?thesis
  proof (cases "ct_wanted (le_ctl le w)")
    case unwanted: False
    with False assms(3) 1 have "unwanted le (l1, r1, w1) = (l', r', w')" "\<not> stop"
      by (simp_all add: link_step_def Let_def)
    with False sound_unwanted [OF assms(1) s1] show ?thesis by simp
  next
    case True
    obtain l2 r2 w2 where 2: "bury le (l1, r1, w1) = (l2, r2, w2)" by (cases "bury le (l1, r1, w1)") auto
    obtain l3 r3 w3 where 3: "watch_cut le (l2, r2, w2) = (l3, r3, w3)" by (cases "watch_cut le (l2, r2, w2)") auto
    obtain l4 r4 w4 where 4: "act le (l3, r3, w3) = (l4, r4, w4)" by (cases "act le (l3, r3, w3)") auto
    note s4 = sound_act [OF assms(1) sound_watch_cut [OF assms(1) sound_bury [OF assms(1) s1 2] 3] 4]
    from False True assms(3) 1 2 3 4 have y: "link_sync le (l4, r4, w4) = (l', r', w')" "\<not> stop"
      by (simp_all add: link_step_def Let_def)
    have q: "l' = l4\<lparr>lk_published := link_state_of l4\<rparr>" "sound i (l', r', w')"
      using sync_cases [OF assms(1) s4 y(1)] by blast+
    have "published l'" unfolding q(1) by (rule published_sync)
    with q False True y(2) show ?thesis by simp
  qed
qed

lemma sound_run:
  "others_keep le i \<Longrightarrow> sound i s \<Longrightarrow> link_run le waits s = (stop, s') \<Longrightarrow> sound i s'"
proof (induction waits arbitrary: s)
  case (Cons wait waits)
  obtain l r w where s: "s = (l, r, w)" by (cases s) auto
  obtain r1 w1 where 1: "le_others le (r, wait w) = (r1, w1)" by fastforce
  have s1: "sound i (l, r1, w1)" using Cons.prems(2) others_keepD [OF Cons.prems(1) 1] by (simp add: s)
  obtain b l2 r2 w2 where 2: "link_step le (l, r1, w1) = (b, l2, r2, w2)" by (cases "link_step le (l, r1, w1)") auto
  note s2 = sound_step [OF Cons.prems(1) s1 2]
  from Cons.prems(3) 1 2 show ?case
    using Cons.IH [OF Cons.prems(1), of "(l2, r2, w2)"] s2 by (cases b) (auto simp: s)
qed simp

section \<open>Pauses\<close>

text \<open>Five connects in a row without a pause, then 30, 60 and 120 seconds.\<close>

lemma pause_table:
  "pause_secs n = (if n \<le> 5 then 30 else if n = 6 then 60 else 120)"
  by (auto simp: pause_secs_def PAUSES_def FAST_TRIES_def opt_or_def get_def nth_Cons split: option.split nat.split)

lemma failed_schedule:
  "lk_failures (link_failed now l) = lk_failures l + 1 \<and>
    lk_connect_at (link_failed now l) =
      Some (now + (if lk_failures l + 1 < 5 then 0 else if lk_failures l + 1 = 5 then from_secs 30
                   else if lk_failures l + 1 = 6 then from_secs 60 else from_secs 120))"
  by (simp add: link_failed_def Let_def unhealthy_def FAST_TRIES_def pause_table)

section \<open>Cuts\<close>

text \<open>The newest sample that is a window old.\<close>

definition newest_old :: "instant \<Rightarrow> samples \<Rightarrow> (instant \<times> nat \<times> nat) option" where
  "newest_old now xs =
     (let olds = filter (\<lambda>s. CUT_WINDOW \<le> now - fst s) xs in if olds = [] then None else Some (last olds))"

lemma drop_old_head:
  "sorted (map fst xs) \<Longrightarrow> xs \<noteq> [] \<Longrightarrow>
    drop_old now xs \<noteq> [] \<and>
    (if CUT_WINDOW \<le> now - fst (hd (drop_old now xs)) then newest_old now xs = Some (hd (drop_old now xs))
     else newest_old now xs = None)"
proof (induction now xs rule: drop_old.induct)
  case (1 now a b rest)
  show ?case
  proof (cases "CUT_WINDOW \<le> now - fst b")
    case True
    with 1 have IH: "drop_old now (b # rest) \<noteq> [] \<and>
      (if CUT_WINDOW \<le> now - fst (hd (drop_old now (b # rest)))
       then newest_old now (b # rest) = Some (hd (drop_old now (b # rest)))
       else newest_old now (b # rest) = None)" by simp
    have "newest_old now (a # b # rest) = newest_old now (b # rest)"
      using True by (simp add: newest_old_def Let_def)
    with IH True show ?thesis by simp
  next
    case False
    with 1(2) have "CUT_WINDOW > now - fst s" if "s \<in> set (b # rest)" for s
      using that by (auto simp: not_le intro: le_less_trans [rotated])
    then have "filter (\<lambda>s. CUT_WINDOW \<le> now - fst s) (b # rest) = []"
      by (auto simp: filter_empty_conv not_le)
    with False show ?thesis by (simp add: newest_old_def Let_def)
  qed
qed (auto simp: newest_old_def Let_def)

text \<open>A cut is what the definition by all samples says.\<close>

lemma cut_iff:
  assumes "sorted (map fst xs)"
  shows "is_cut now rx tx (drop_old now xs) \<longleftrightarrow>
    (\<exists>at rx0 tx0. newest_old now xs = Some (at, rx0, tx0) \<and> rx = rx0 \<and> CUT_PACKETS \<le> tx - tx0)"
proof (cases "xs = []")
  case True
  then show ?thesis by (simp add: is_cut_def newest_old_def)
next
  case False
  from drop_old_head [OF assms False, of now] show ?thesis
    by (cases "drop_old now xs") (auto simp: is_cut_def split: if_splits)
qed

section \<open>Evidence\<close>

text \<open>A probe cut short or slept through finds nothing.\<close>

lemma undisturbed_Some:
  assumes "undisturbed le l probe r w = (Some v, r', w')"
  shows "le_disturbed le (lk_wakes l) w = None \<and> fst (probe w) = v \<and>
    \<not> (le_now le w' - le_now le w \<le> le_wall le w' - le_wall le w \<and>
       SLEEP_GAP < (le_wall le w' - le_wall le w) - (le_now le w' - le_now le w))"
  using assms
  by (auto simp: undisturbed_def Let_def Clock_slept_def split: option.splits prod.splits if_splits)

lemma aborted_connect: "aborted le nx (l, r, w) = (l', r', w') \<Longrightarrow> lk_connect_at l = None \<Longrightarrow> lk_connect_at l' = None"
  by (auto simp: aborted_def marks)

lemma probes_nothing:
  "probes le t plim tlim was_cut (l, r, w) = (Some None, l', r', w') \<Longrightarrow>
    \<exists>r1 w1. undisturbed le l (link_ping le (nonzero (ucast (tn_index t))) TARGETS plim) r w = (Some None, r1, w1)"
  by (auto simp: probes_def Let_def split: option.splits prod.splits if_splits)

lemma report_None: "link_report f \<longleftrightarrow> f \<noteq> None"
  by (auto simp: link_report_def split: option.split found.split)

lemma passed_connect:
  "check_passed le was_cut (l, r, w) = (l', r', w') \<Longrightarrow> lk_connect_at l' = lk_connect_at l"
  by (auto simp: check_passed_def Let_def healthy_def link_fresh_def recovered_def)

lemma degraded_connect:
  assumes "link_degraded le g (l, r, w) = (b, l', r', w')" "lk_connect_at l = None"
  shows "(lk_connect_at l' \<noteq> None \<longrightarrow> b \<and> lk_after_degraded l') \<and> (\<not> b \<longrightarrow> lk_wakes l' = lk_wakes l)"
  using assms
  by (auto simp: link_degraded_def Let_def marks split: prod.splits verdict.splits)

lemma sync_connect:
  "link_sync le (l, r, w) = (l', r', w') \<Longrightarrow> lk_connect_at l' = lk_connect_at l"
  using link_sync_fst [of le l r w] by simp

lemma failed_evidence:
  assumes "check_failed le g (l, r, w) = (l', r', w')" "lk_connect_at l = None" "lk_connect_at l' \<noteq> None"
  shows "lk_after_degraded l' \<or>
    (\<exists>l1 r1 w1 r2 w2. undisturbed le l1 (direct le l1 r1) r1 w1 = (Some True, r2, w2))"
proof -
  obtain b l1 r1 w1 where 1: "link_degraded le g (l, r, w) = (b, l1, r1, w1)"
    by (cases "link_degraded le g (l, r, w)") auto
  show ?thesis
  proof (cases b)
    case True
    with assms 1 degraded_connect [OF 1 assms(2)] show ?thesis by (simp add: check_failed_def)
  next
    case False
    obtain l2 r2 w2 where 2: "link_sync le (unhealthy l1, r1, w1) = (l2, r2, w2)"
      by (cases "link_sync le (unhealthy l1, r1, w1)") auto
    have c2: "lk_connect_at l2 = None"
      using sync_connect [OF 2] degraded_connect [OF 1 assms(2)] False by (auto simp: unhealthy_def)
    obtain v r3 w3 where 3: "undisturbed le l2 (direct le l2 r2) r2 w2 = (v, r3, w3)"
      by (cases "undisturbed le l2 (direct le l2 r2) r2 w2") auto
    consider (a) "v = None" | (y) "v = Some True" | (n) "v = Some False" by (cases v) auto
    then show ?thesis
    proof cases
      case a
      with assms(1) 1 2 3 False have "aborted le Next_Usual (l2, r3, w3) = (l', r', w')" by (simp add: check_failed_def)
      from aborted_connect [OF this c2] assms(3) show ?thesis by simp
    next
      case y
      with 3 show ?thesis by blast
    next
      case n
      with assms(1,3) 1 2 3 False c2 show ?thesis by (auto simp: check_failed_def)
    qed
  qed
qed

text \<open>A check gives up a tunnel only on evidence.\<close>

lemma check_evidence:
  assumes "check le (l, r, w) = (l', r', w')" "lk_tunnel l = Some t" "lk_connect_at l = None"
    "lk_connect_at l' \<noteq> None"
  shows "(\<exists>l1 limit r1 w1 r2 w2.
      undisturbed le l1 (link_ping le (nonzero (ucast (tn_index t))) TARGETS limit) r1 w1 = (Some None, r2, w2)) \<and>
    (lk_after_degraded l' \<or>
      (\<exists>l1 r1 w1 r2 w2. undisturbed le l1 (direct le l1 r1) r1 w1 = (Some True, r2, w2)))"
proof -
  let ?fresh = "le_now le w < lk_fresh_until l"
  let ?l = "l\<lparr>lk_check_at := le_now le w + (if ?fresh then FAST else SLOW)\<rparr>"
  obtain g l1 r1 w1 where 1: "rx_grew le (tn_name t) (?l, r, w) = (g, l1, r1, w1)"
    by (cases "rx_grew le (tn_name t) (?l, r, w)") auto
  have c1: "lk_connect_at l1 = None"
    using 1 assms(3) by (auto simp: rx_grew_def split: prod.splits option.splits)
  obtain plim tlim where lim: "check_limits (lk_next l1 = Next_Woke) ?fresh = (plim, tlim)" by fastforce
  let ?l1 = "l1\<lparr>lk_next := Next_Usual, lk_samples := []\<rparr>"
  obtain v l3 r3 w3 where 3: "probes le t plim tlim (lk_next l1 = Next_Cut) (?l1, r1, w1) = (v, l3, r3, w3)"
    by (cases "probes le t plim tlim (lk_next l1 = Next_Cut) (?l1, r1, w1)") auto
  have c3: "lk_connect_at l3 = None"
    using 3 c1
    by (auto simp: probes_def suspect_def Let_def dest!: sync_connect split: option.splits prod.splits if_splits)
  have c: "check le (l, r, w) = (case v of
      None \<Rightarrow> aborted le (lk_next l1) (l3, r3, w3)
    | Some f \<Rightarrow> if link_report f then check_passed le (lk_next l1 = Next_Cut) (l3\<lparr>lk_works := None\<rparr>, r3, w3)
        else check_failed le g (l3\<lparr>lk_works := None\<rparr>, r3, w3))"
    using assms(2) by (simp add: check_def 1 3 lim [unfolded if_distrib] Let_def split: option.split)
  have v: "v = Some None"
  proof (cases v)
    case None
    with c assms(1) have "aborted le (lk_next l1) (l3, r3, w3) = (l', r', w')" by simp
    from aborted_connect [OF this c3] assms(4) show ?thesis by simp
  next
    case (Some f)
    show ?thesis
    proof (cases f)
      case (Some x)
      with \<open>v = Some f\<close> c assms(1)
      have "check_passed le (lk_next l1 = Next_Cut) (l3\<lparr>lk_works := None\<rparr>, r3, w3) = (l', r', w')"
        by (simp add: report_None)
      from passed_connect [OF this] c3 assms(4) show ?thesis by simp
    qed (simp add: Some)
  qed
  with c assms(1) have f: "check_failed le g (l3\<lparr>lk_works := None\<rparr>, r3, w3) = (l', r', w')"
    by (simp add: report_None)
  show ?thesis
    using probes_nothing [OF 3 [unfolded v]] failed_evidence [OF f _ assms(4)] c3 by (intro conjI) (blast, simp)
qed

section \<open>Handing over\<close>

text \<open>When the old tunnel goes, the resolver has the interface of the new one.\<close>

lemma handed_over:
  assumes "others_keep le i" "sound i (l, r, w)" "lk_connect_at l \<noteq> None" "lk_tunnel l = Some old"
    "hand_over le new (l, r, w) = (l1, r1, w1)"
  shows "\<exists>s. has_state r1 i s \<and> ls_iface s = Some \<lparr>if_name = tn_name new, if_index = tn_index new\<rparr> \<and>
      ls_generation s = lk_generation l"
    "connect_up le after_degraded new (l, r, w) =
      (let (r2, w2) = le_others le (r1, tunnel_down (le_os le) (le_procs le) old w1);
           (found, r3, w3) = undisturbed le l1 (link_tls le (tn_name new) CONFIRM) r2 w2
       in confirm le after_degraded found (l1, r3, w3))"
proof -
  note t = sound_hand_over [OF assms(1,2,5,3)]
  then have p: "lk_published l1 = link_state_of l1" by (simp add: published_def)
  from t have "has_state r1 i (lk_published l1)" by simp
  moreover have "ls_iface (lk_published l1) = Some \<lparr>if_name = tn_name new, if_index = tn_index new\<rparr>"
      "ls_generation (lk_published l1) = lk_generation l"
    using t by (simp_all add: p link_state_of_def)
  ultimately show "\<exists>s. has_state r1 i s \<and> ls_iface s = Some \<lparr>if_name = tn_name new, if_index = tn_index new\<rparr> \<and>
      ls_generation s = lk_generation l"
    by blast
  show "connect_up le after_degraded new (l, r, w) =
      (let (r2, w2) = le_others le (r1, tunnel_down (le_os le) (le_procs le) old w1);
           (found, r3, w3) = undisturbed le l1 (link_tls le (tn_name new) CONFIRM) r2 w2
       in confirm le after_degraded found (l1, r3, w3))"
    by (simp add: connect_up_def assms(4,5) retire_def take_down_def Let_def split: prod.split)
qed

section \<open>The beginning\<close>

lemma sound_new:
  "has_state r i LinkState_default \<Longrightarrow> sound i (with_grace g (Link_new le i c w), r, w')"
  using bounded_new [of g] by (simp add: with_grace_def Link_new_def link_ok_def Let_def)

end
