(* ===== verification/Journal.thy ===== *)
theory Journal
  imports Rust_Str
begin

text \<open>
  Model of \<open>Journal\<close> of \<open>src/resolver.rs\<close>: lines with a stamp, and bursts of one kind of event,
  written once and then counted. Shown: no event is lost from the count. The stamp of the \<open>i\<close>th
  line is an argument, from the clock and the time zone of the system; a journal that cannot be
  written loses lines silently, and what the model keeps are the lines it tries to write.
\<close>

section \<open>Stamps\<close>

text \<open>\<open>{:0w}\<close> of an integer: zeros after the sign up to the width.\<close>

definition show_padded :: "nat \<Rightarrow> int \<Rightarrow> string" where
  "show_padded w n =
     (let sign = (if n < 0 then ''-'' else []); d = show_nat (nat \<bar>n\<bar>)
      in sign @ replicate (w - length sign - length d) (CHR ''0'') @ d)"

definition stamp :: "int \<times> int \<times> int \<Rightarrow> int \<times> int \<times> int \<Rightarrow> nat \<Rightarrow> string" where
  "stamp date time us =
     (case (date, time) of ((y, mon, day), (h, mi, sec)) \<Rightarrow>
        show_padded 4 y @ ''.'' @ show_padded 2 mon @ ''.'' @ show_padded 2 day @ '' '' @
        show_padded 2 h @ '':'' @ show_padded 2 mi @ '':'' @ show_padded 2 sec @ ''.'' @
        show_padded 6 (int us))"

text \<open>
  \<open>now_stamp\<close>: from the broken-down time of the system, with its years since 1900 and months since
  January; the microseconds since the epoch when the system cannot tell.
\<close>

record tm =
  tm_year :: int
  tm_mon :: int
  tm_mday :: int
  tm_hour :: int
  tm_min :: int
  tm_sec :: int

definition now_stamp :: "(nat \<Rightarrow> tm option) \<Rightarrow> nat \<Rightarrow> string" where
  "now_stamp localtime micros =
     (case localtime (micros div 1000000) of
        None \<Rightarrow> show_nat micros
      | Some t \<Rightarrow> stamp (tm_year t + 1900, tm_mon t + 1, tm_mday t) (tm_hour t, tm_min t, tm_sec t)
          (micros mod 1000000))"

section \<open>The journal\<close>

text \<open>A line: an event written at once, the first of a burst, or the count of a burst that is over.\<close>

datatype entry = Log_line string | Burst_line string string | Repeated_line string nat

definition BURST :: duration where "BURST = from_secs 10"

fun show_entry :: "entry \<Rightarrow> string" where
  "show_entry (Log_line e) = e"
| "show_entry (Burst_line kind e) = e"
| "show_entry (Repeated_line kind n) =
     kind @ '' repeated '' @ show_nat n @ '' more times within '' @ show_nat (as_secs BURST) @ ''s''"

record journal =
  jn_out :: "entry list"
  jn_bursts :: "(string, instant \<times> nat) hashmap"

definition Journal_open :: journal where
  "Journal_open = \<lparr>jn_out = [], jn_bursts = []\<rparr>"

definition journal_write :: "entry \<Rightarrow> journal \<Rightarrow> journal" where
  "journal_write e j = j\<lparr>jn_out := jn_out j @ [e]\<rparr>"

definition journal_text :: "(nat \<Rightarrow> string) \<Rightarrow> journal \<Rightarrow> string" where
  "journal_text at j =
     concat (map (\<lambda>(i, e). at i @ '' '' @ show_entry e @ [NL]) (enumerate 0 (jn_out j)))"

definition repeated :: "string \<times> nat \<Rightarrow> journal \<Rightarrow> journal" where
  "repeated e j = (case e of (kind, n) \<Rightarrow> if 0 < n then journal_write (Repeated_line kind n) j else j)"

definition burst :: "instant \<Rightarrow> string \<Rightarrow> string \<Rightarrow> journal \<Rightarrow> journal" where
  "burst now kind event j =
     (case hm_get (jn_bursts j) kind of
        Some (until, n) \<Rightarrow>
          if now < until then j\<lparr>jn_bursts := hm_insert kind (until, n + 1) (jn_bursts j)\<rparr>
          else journal_write (Burst_line kind event)
            (repeated (kind, n) (j\<lparr>jn_bursts := hm_insert kind (now + BURST, 0) (jn_bursts j)\<rparr>))
      | None \<Rightarrow>
          journal_write (Burst_line kind event)
            (j\<lparr>jn_bursts := hm_insert kind (now + BURST, 0) (jn_bursts j)\<rparr>))"

definition flush :: "instant \<Rightarrow> journal \<Rightarrow> journal" where
  "flush now j =
     (let over = List.map_filter (\<lambda>(kind, until, n). if until \<le> now then Some (kind, n) else None) (jn_bursts j)
      in foldl (\<lambda>j e. repeated e j)
           (j\<lparr>jn_bursts := filter (\<lambda>(kind, until, n). now < until) (jn_bursts j)\<rparr>) over)"

section \<open>Every event is counted once\<close>

datatype journal_op = Op_burst instant string string | Op_flush instant | Op_log string

fun journal_step :: "journal_op \<Rightarrow> journal \<Rightarrow> journal" where
  "journal_step (Op_burst now kind e) j = burst now kind e j"
| "journal_step (Op_flush now) j = flush now j"
| "journal_step (Op_log e) j = journal_write (Log_line e) j"

definition journal_run :: "journal_op list \<Rightarrow> journal \<Rightarrow> journal" where
  "journal_run ops j = foldl (\<lambda>j op. journal_step op j) j ops"

text \<open>How many events of a kind a line stands for, and how many wait to be counted.\<close>

fun stands_for :: "string \<Rightarrow> entry \<Rightarrow> nat" where
  "stands_for k (Log_line e) = 0"
| "stands_for k (Burst_line kind e) = (if kind = k then 1 else 0)"
| "stands_for k (Repeated_line kind n) = (if kind = k then n else 0)"

definition told :: "string \<Rightarrow> journal \<Rightarrow> nat" where
  "told k j = sum_list (map (stands_for k) (jn_out j))"

definition waiting :: "string \<Rightarrow> journal \<Rightarrow> nat" where
  "waiting k j = (case hm_get (jn_bursts j) k of None \<Rightarrow> 0 | Some (until, n) \<Rightarrow> n)"

definition burst_calls :: "string \<Rightarrow> journal_op list \<Rightarrow> nat" where
  "burst_calls k ops = length (filter (\<lambda>op. case op of Op_burst now kind e \<Rightarrow> kind = k | _ \<Rightarrow> False) ops)"

lemma told_write [simp]: "told k (journal_write e j) = told k j + stands_for k e"
  by (simp add: told_def journal_write_def)

lemma told_bursts [simp]: "told k (j\<lparr>jn_bursts := b\<rparr>) = told k j"
  by (simp add: told_def)

lemma told_repeated [simp]: "told k (repeated (kind, n) j) = told k j + (if kind = k then n else 0)"
  by (simp add: repeated_def)

lemma bursts_frame [simp]:
  "jn_bursts (journal_write e j) = jn_bursts j" "jn_bursts (repeated x j) = jn_bursts j"
  by (auto simp: journal_write_def repeated_def split: prod.split)

lemma waiting_frame [simp]:
  "waiting k (journal_write e j) = waiting k j" "waiting k (repeated x j) = waiting k j"
  by (simp_all add: waiting_def)

lemma burst_counts:
  "told k (burst now kind e j) + waiting k (burst now kind e j) =
    told k j + waiting k j + (if kind = k then 1 else 0)"
  by (cases "hm_get (jn_bursts j) kind")
    (auto simp: burst_def waiting_def dict_simps split: option.splits if_splits)

lemma told_repeated_all:
  "told k (foldl (\<lambda>j e. repeated e j) j over) =
    told k j + sum_list (map snd (filter (\<lambda>(kind, n). kind = k) over))"
  by (induction over arbitrary: j) auto

lemma bursts_repeated_all [simp]: "jn_bursts (foldl (\<lambda>j e. repeated e j) j over) = jn_bursts j"
  by (induction over arbitrary: j) auto

lemma flush_over:
  "hm_ok m \<Longrightarrow>
    sum_list (map snd (filter (\<lambda>(kind, n). kind = k)
      (List.map_filter (\<lambda>(kind, until, n). if until \<le> (now :: nat) then Some (kind, n) else None) m))) =
    (case map_of m k of None \<Rightarrow> 0 | Some (until, n) \<Rightarrow> if until \<le> now then n else 0)"
proof (induction m)
  case Nil
  then show ?case by (simp add: List.map_filter_simps)
next
  case (Cons e m)
  obtain kind until n where e: "e = (kind, until, n)" by (cases e) auto
  have "kind = k \<Longrightarrow> map_of m k = None" using Cons.prems by (auto simp: e map_of_eq_None_iff)
  with Cons show ?case by (auto simp: e List.map_filter_simps)
qed

lemma flush_counts:
  assumes "hm_ok (jn_bursts j)"
  shows "told k (flush now j) + waiting k (flush now j) = told k j + waiting k j"
  by (simp add: flush_def Let_def told_repeated_all flush_over [OF assms] waiting_def
      map_of_filter_ok [OF assms] split: option.splits)

lemma journal_ok_step: "hm_ok (jn_bursts j) \<Longrightarrow> hm_ok (jn_bursts (journal_step op j))"
  by (cases op)
    (auto simp: burst_def flush_def Let_def hm.inv_ins hm_filter_ok split: option.splits)

lemma journal_ok_run: "hm_ok (jn_bursts j) \<Longrightarrow> hm_ok (jn_bursts (journal_run ops j))"
  unfolding journal_run_def by (induction ops arbitrary: j) (simp_all add: journal_ok_step)

lemma journal_counts:
  assumes "hm_ok (jn_bursts j)"
  shows "told k (journal_run ops j) + waiting k (journal_run ops j) = told k j + waiting k j + burst_calls k ops"
  using assms
proof (induction ops arbitrary: j)
  case Nil
  then show ?case by (simp add: journal_run_def burst_calls_def)
next
  case (Cons op ops)
  have "told k (journal_run ops (journal_step op j)) + waiting k (journal_run ops (journal_step op j)) =
      told k (journal_step op j) + waiting k (journal_step op j) + burst_calls k ops"
    by (rule Cons.IH [OF journal_ok_step [OF Cons.prems]])
  then show ?case
    by (cases op) (simp_all add: journal_run_def burst_calls_def burst_counts flush_counts [OF Cons.prems])
qed

text \<open>Once every burst is over, a flush leaves nothing waiting.\<close>

lemma flush_all:
  assumes "hm_ok (jn_bursts j)" "\<And>until n. hm_get (jn_bursts j) k = Some (until, n) \<Longrightarrow> until \<le> now"
  shows "waiting k (flush now j) = 0"
  using assms(2) by (auto simp: flush_def Let_def waiting_def map_of_filter_ok [OF assms(1)] split: option.splits)

end
