(* ===== verification/Demo_Tasks.thy ===== *)
theory Demo_Tasks
  imports Demo Daemon_Facts Link_Run Link_Facts Journal
begin

text \<open>
  The small setting once more, for the tasks: processes that start at once and end when told, a
  tunnel through which nothing answers while the network past it does, a watch.
\<close>

definition demo_procs :: "world procs" where
  "demo_procs =
     \<lparr>pc_now = wd_clock, pc_sleep = \<lambda>d w. w\<lparr>wd_clock := wd_clock w + d\<rparr>,
      pc_spawn = \<lambda>p args vars w. (Inr (wd_started w),
        w\<lparr>wd_children := wd_started w # wd_children w, wd_started := wd_started w + 1,
          wd_files := hm_insert (snd (hd vars)) ''utun4'' (wd_files w)\<rparr>),
      pc_try_wait = \<lambda>c w. (Inr (if c \<in> set (wd_children w) then None else Some ''exit status: 0''), w),
      pc_id = \<lambda>c w. if c \<in> set (wd_children w) then Some (100 + c) else None,
      pc_wait = \<lambda>c d w. (True, w\<lparr>wd_children := filter (\<lambda>x. x \<noteq> c) (wd_children w)\<rparr>),
      pc_kill = \<lambda>c w. w\<lparr>wd_children := filter (\<lambda>x. x \<noteq> c) (wd_children w)\<rparr>,
      pc_mkdir = \<lambda>p w. (Inr (), w),
      pc_exists = \<lambda>p w. p = ''/run/utun4.sock'',
      pc_if_index = \<lambda>n w. if n = ''utun4'' then Inr 17 else Inl (Errno 6)\<rparr>"

definition demo_children :: "world \<Rightarrow> nat set" where
  "demo_children w = set (wd_children w)"

lemma demo_procs_ok: "procs_ok (demo_os f) demo_procs demo_children"
  by (auto simp: procs_ok_def demo_procs_def demo_os_def demo_children_def split: option.split)

text \<open>curl succeeds past the tunnel only.\<close>

definition past_only :: "call \<Rightarrow> child" where
  "past_only c = (case c of (p, args, inp) \<Rightarrow>
     Exited (p \<noteq> ''/usr/bin/curl'' \<or> ''utun4'' \<notin> set args) ''exit status: 28'' [] [])"

definition demo_tools :: tools where
  "demo_tools = \<lparr>tl_go = ''/opt/amneziawg-go'', tl_awg = ''/opt/awg'', tl_run_dir = ''/run''\<rparr>"

definition demo_conf :: conf where
  "demo_conf = \<lparr>cf_address = ip4 10 8 0 2, cf_mtu = 1420, cf_host = ''192.0.3.7'', cf_port = 51820,
     cf_ignored = [], cf_lines = [Text ''[Interface]'', Text ''[Peer]'', Endpoint_line]\<rparr>"

definition demo_network :: network where
  "demo_network = \<lparr>nw_iface = ''en0'', nw_index = 4, nw_addr = ip4 192 168 1 5,
     nw_gateway = ip4 192 168 1 1, nw_dns = ip4 192 168 1 1\<rparr>"

definition demo_le :: "(demo_table, world) link_env" where
  "demo_le =
     \<lparr>le_env = demo_env\<lparr>en_os := demo_os past_only\<rparr>, le_procs = demo_procs, le_tools = demo_tools,
      le_icmp = \<lambda>bound targets b limit w. (None, w), le_pid = 77, le_nanos = \<lambda>w. 0,
      le_tenths = \<lambda>d. ''1.0'', le_wall = wd_clock,
      le_ctl = \<lambda>w. \<lparr>ct_wanted = True, ct_wakes = 0, ct_stop = False\<rparr>,
      le_net = \<lambda>w. Some demo_network, le_disturbed = \<lambda>n w. None,
      le_seq = wd_count, le_set_seq = \<lambda>n w. w\<lparr>wd_count := n\<rparr>\<rparr>"

definition demo_tunnel :: tunnel where
  "demo_tunnel = \<lparr>tn_name = ''utun4'', tn_index = 17, tn_up_at = 0, tn_child = 0, tn_name_file = ''/run/mac-gate-1.name''\<rparr>"

text \<open>A link before its first connect, and one whose tunnel is up.\<close>

definition demo_link_new :: link where
  "demo_link_new = with_grace (from_mins 1) (Link_new demo_le 0 demo_conf demo_world)"

definition demo_link_up :: link where
  "demo_link_up = demo_link_new
     \<lparr>lk_tunnel := Some demo_tunnel, lk_generation := 1, lk_connect_at := None, lk_health := Health_Up,
      lk_since := Some 0, lk_confirmed := Some 0, lk_pending := None, lk_published := demo_link\<rparr>"

lemma demo_le_env: "env_ok (le_env demo_le)" "le_env demo_le = demo_env\<lparr>en_os := demo_os past_only\<rparr>"
  by (simp_all add: demo_le_def env_ok_def demo_env_def)

lemma demo_le_others: "le_others demo_le rw = rw"
  by (simp add: le_others_def demo_le_env demo_env_def)

lemma demo_le_keep: "others_keep demo_le i"
  by (simp add: others_keep_def demo_le_others)

lemma demo_ready_link: "has_state demo_ready 0 demo_link"
  by (simp add: has_state_def demo_core_def get_def)

lemma demo_new_link: "has_state demo_dark 0 LinkState_default"
  by (simp add: has_state_def get_def demo_dark_def demo_new_def Resolver_new_def set_country_core
      set_upstream_def Let_def)

lemma demo_sound_new: "sound 0 (demo_link_new, demo_dark, w)"
  unfolding demo_link_new_def by (rule sound_new [OF demo_new_link])

lemma demo_sound_up: "sound 0 (demo_link_up, demo_ready, w)"
  using demo_sound_new [of w] demo_ready_link by (auto simp: demo_link_up_def link_ok_def)

text \<open>A check of the tunnel that is up: nothing answers through it, the network past it does.\<close>

lemma demo_le_fields:
  "le_now demo_le = wd_clock" "le_wall demo_le = wd_clock" "le_disturbed demo_le n w = None"
  "le_tenths demo_le d = ''1.0''" "le_net demo_le w = Some demo_network" "le_tools demo_le = demo_tools"
  by (simp_all add: demo_le_def le_now_def demo_procs_def fun_eq_iff)

lemma demo_undisturbed:
  assumes "probe w = (v, w')" "wd_clock w' = wd_clock w"
  shows "undisturbed demo_le l probe r w = (Some v, r, w')"
  using assms by (simp add: undisturbed_def demo_le_fields demo_le_others Clock_slept_def)

lemma demo_exec: "os_exec (le_os demo_le) p a i d w =
    (past_only (p, a, i), w\<lparr>wd_log := (p, a, i) # wd_log w\<rparr>)"
  by (simp add: le_os_def demo_le_env demo_os_def)

lemma demo_ping: "link_ping demo_le b ts d w = (None, w)"
  by (simp add: link_ping_def ping_def demo_le_def ids_def)

lemma demo_tls: "\<exists>w'. link_tls demo_le n d w = (n \<noteq> ''utun4'', w') \<and> wd_clock w' = wd_clock w"
  by (cases "n = ''utun4''") (simp_all add: link_tls_def tls_def run_def run_both_def demo_exec past_only_def demo_le_fields)

lemma demo_counters: "\<exists>w'. link_counters demo_le n r w = (None, r, w') \<and> wd_clock w' = wd_clock w"
  by (simp add: link_counters_def counters_of_def run_def run_both_def demo_exec past_only_def demo_le_others
      parse_counters_def)

lemma demo_not_carrying:
  "\<exists>w'. link_carrying demo_le g l r w = (False, r, w') \<and> wd_clock w' = wd_clock w"
  by (simp add: link_carrying_def handshake_age_def run_def run_both_def demo_exec past_only_def demo_le_others
      carrying_def get_def demo_tools_def demo_le_fields Let_def split: option.split)

lemma demo_direct: "lk_network l = Some demo_network \<Longrightarrow> \<exists>w'. direct demo_le l r w = (True, w') \<and> wd_clock w' = wd_clock w"
  using demo_tls [of "''en0''" DIRECT_TLS w] by (auto simp: direct_def demo_ping demo_network_def)

lemma demo_direct_undisturbed:
  "lk_network l = Some demo_network \<Longrightarrow>
    \<exists>w'. undisturbed demo_le l (direct demo_le l r) r w = (Some True, r, w') \<and> wd_clock w' = wd_clock w"
  using demo_direct [of l r w] demo_undisturbed [of "direct demo_le l r" w] by metis

lemma demo_probes:
  assumes "\<not> lk_pinged l"
  shows "\<exists>w'. probes demo_le demo_tunnel plim (Some tlim) False (l, r, w) = (Some None, l, r, w')"
proof -
  obtain w' where w': "link_tls demo_le ''utun4'' tlim w = (False, w')" "wd_clock w' = wd_clock w"
    using demo_tls [of "''utun4''" tlim w] by auto
  note p = demo_undisturbed [of "link_ping demo_le b TARGETS plim" w None w l r for b, OF demo_ping refl]
    and t = demo_undisturbed [of "link_tls demo_le ''utun4'' tlim", OF w']
  show ?thesis
    using assms by (simp add: probes_def p suspect_def t demo_tunnel_def Let_def)
qed

lemma demo_check_failed:
  assumes "lk_network l = Some demo_network"
  shows "lk_connect_at (fst (check_failed demo_le False (l, r, w))) \<noteq> None"
proof -
  obtain w1 where 1: "link_carrying demo_le False l r w = (False, r, w1)" using demo_not_carrying by blast
  let ?l = "unhealthy (l\<lparr>lk_degradation := (lk_degradation l)\<lparr>deg_since := None\<rparr>\<rparr>)"
  obtain l2 r2 w2 where 2: "link_sync demo_le (?l, r, w1) = (l2, r2, w2)" by (metis prod.collapse)
  have l2: "l2 = ?l\<lparr>lk_published := link_state_of ?l\<rparr>" using link_sync_fst [of demo_le ?l r w1] 2 by simp
  have "lk_network l2 = Some demo_network" using assms by (simp add: l2 unhealthy_def)
  then obtain w3 where 3: "undisturbed demo_le l2 (direct demo_le l2 r2) r2 w2 = (Some True, r2, w3)"
    using demo_direct_undisturbed by blast
  show ?thesis using 2 3 by (simp add: check_failed_def link_degraded_def deg_failed_def 1 Let_def lost_def)
qed

lemma demo_check: "lk_connect_at (fst (check demo_le (demo_link_up, demo_ready, demo_world))) \<noteq> None"
proof -
  let ?l = "demo_link_up\<lparr>lk_check_at := SLOW\<rparr>"
  obtain w1 where 1: "link_counters demo_le ''utun4'' demo_ready demo_world = (None, demo_ready, w1)"
    using demo_counters by blast
  have l: "lk_tunnel demo_link_up = Some demo_tunnel" "\<not> lk_pinged demo_link_up" "lk_next demo_link_up = Next_Usual"
    "lk_fresh_until demo_link_up = 0" "lk_network demo_link_up = Some demo_network"
    by (simp_all add: demo_link_up_def demo_link_new_def with_grace_def Link_new_def Let_def demo_le_fields demo_world_def)
  let ?l1 = "?l\<lparr>lk_next := Next_Usual, lk_samples := []\<rparr>"
  have np: "\<not> lk_pinged ?l1" by (simp add: l)
  obtain w2 where 2: "probes demo_le demo_tunnel PING (Some TLS) False (?l1, demo_ready, w1) = (Some None, ?l1, demo_ready, w2)"
    using demo_probes [of ?l1 PING TLS demo_ready w1] np by blast
  have "check demo_le (demo_link_up, demo_ready, demo_world) =
      check_failed demo_le False (?l1\<lparr>lk_works := None\<rparr>, demo_ready, w2)"
    using 1 2 by (simp add: check_def l demo_le_fields demo_world_def rx_grew_def demo_tunnel_def check_limits_def
        link_report_def Let_def)
  then show ?thesis using demo_check_failed [of "?l1\<lparr>lk_works := None\<rparr>"] l(5) by simp
qed

text \<open>A file of a tunnel, parsed.\<close>

definition demo_conf_lines :: "string list" where
  "demo_conf_lines = [''[Interface]'', ''PrivateKey = k='', ''Address = 10.8.0.2/32'', ''[Peer]'', ''Endpoint = vpn.org:53'']"

definition demo_conf_text :: string where
  "demo_conf_text = concat (map (\<lambda>l. l @ [NL]) demo_conf_lines)"

lemma demo_conf_pieces:
  "conf_strip ''[Interface]'' = ''[Interface]''" "to_lower ''[Interface]'' = ''[interface]''"
  "conf_strip ''[Peer]'' = ''[Peer]''" "to_lower ''[Peer]'' = ''[peer]''"
  "conf_strip ''PrivateKey = k='' = ''PrivateKey = k=''"
  "split_once (CHR ''='') ''PrivateKey = k='' = Some (''PrivateKey '', '' k='')"
  "to_lower (trim ''PrivateKey '') = ''privatekey''"
  "conf_strip ''Address = 10.8.0.2/32'' = ''Address = 10.8.0.2/32''"
  "split_once (CHR ''='') ''Address = 10.8.0.2/32'' = Some (''Address '', '' 10.8.0.2/32'')"
  "to_lower (trim ''Address '') = ''address''"
  "trim '' 10.8.0.2/32'' = ''10.8.0.2/32''"
  "split_on (CHR '','') ''10.8.0.2/32'' = [''10.8.0.2/32'']" "trim ''10.8.0.2/32'' = ''10.8.0.2/32''"
  "hd (split_on (CHR ''/'') ''10.8.0.2/32'') = ''10.8.0.2''"
  "conf_strip ''Endpoint = vpn.org:53'' = ''Endpoint = vpn.org:53''"
  "split_once (CHR ''='') ''Endpoint = vpn.org:53'' = Some (''Endpoint '', '' vpn.org:53'')"
  "to_lower (trim ''Endpoint '') = ''endpoint''" "trim '' vpn.org:53'' = ''vpn.org:53''"
  "rsplit_once (CHR '':'') ''vpn.org:53'' = Some (''vpn.org'', ''53'')"
  "trim_matches (\<lambda>c. c = CHR ''['' \<or> c = CHR '']'') ''vpn.org'' = ''vpn.org''"
  by code_simp+

lemma show_nat_two: "n < 10 \<Longrightarrow> show_nat n = [digit_char n]" "10 \<le> n \<Longrightarrow> n < 100 \<Longrightarrow> show_nat n = [digit_char (n div 10), digit_char (n mod 10)]"
  by (simp_all add: show_nat.simps [of n] show_nat.simps [of "n div 10"])

lemma demo_lower: "lower_char (CHR '' '') = CHR '' ''" "lower_char (CHR ''A'') = CHR ''a''" "lower_char (CHR
  ''E'') = CHR ''e''" "lower_char (CHR ''I'') = CHR ''i''" "lower_char (CHR ''K'') = CHR ''k''" "lower_char (CHR
  ''P'') = CHR ''p''" "lower_char (CHR ''['') = CHR ''[''" "lower_char (CHR '']'') = CHR '']''" "lower_char (CHR
  ''a'') = CHR ''a''" "lower_char (CHR ''c'') = CHR ''c''" "lower_char (CHR ''d'') = CHR ''d''" "lower_char (CHR
  ''e'') = CHR ''e''" "lower_char (CHR ''f'') = CHR ''f''" "lower_char (CHR ''i'') = CHR ''i''" "lower_char (CHR
  ''n'') = CHR ''n''" "lower_char (CHR ''o'') = CHR ''o''" "lower_char (CHR ''p'') = CHR ''p''" "lower_char (CHR
  ''r'') = CHR ''r''" "lower_char (CHR ''s'') = CHR ''s''" "lower_char (CHR ''t'') = CHR ''t''" "lower_char (CHR
  ''v'') = CHR ''v''" "lower_char (CHR ''y'') = CHR ''y''"
  by code_simp+

lemma demo_starts: "starts_with ''[Interface]'' ''[''" "starts_with ''[Peer]'' ''[''"
  "\<not> starts_with ''PrivateKey = k='' ''[''" "\<not> starts_with ''Address = 10.8.0.2/32'' ''[''"
  "\<not> starts_with ''Endpoint = vpn.org:53'' ''[''"
  by code_simp+

lemma digit_chars: "digit_char 0 = CHR ''0''" "digit_char (Suc 0) = CHR ''1''" "digit_char 2 = CHR ''2''"
  "digit_char 3 = CHR ''3''" "digit_char 5 = CHR ''5''" "digit_char 8 = CHR ''8''"
  by code_simp+

lemma demo_port: "parse_u16 ''53'' = Some 53"
proof -
  have "show_nat 53 = ''53''" by (simp add: show_nat_two digit_chars)
  then show ?thesis using parse_show_uint [of 53 "2 ^ 16 - 1"] by simp
qed

lemma demo_addr: "parse_ip ''10.8.0.2'' = Some (ip4 10 8 0 2)"
proof -
  have "show_ip (ip4 10 8 0 2) = ''10.8.0.2''"
    by (simp add: show_ip_def octet_def ip_eval show_nat_two digit_chars)
  then show ?thesis using parse_show_ip [of "ip4 10 8 0 2"] by simp
qed

lemma demo_lines: "lines demo_conf_text = demo_conf_lines"
  by code_simp

lemma demo_conf_parsed: "\<exists>c. Conf_parse demo_conf_text = Inr c"
  by (simp add: Conf_parse_def demo_lines demo_conf_lines_def conf_start_def conf_raw_def demo_starts demo_lower demo_conf_pieces quick_key_def
      endpoint_key_def first_ipv4_def demo_addr demo_port QUICK_KEYS_def Let_def)

text \<open>The tunnel comes up.\<close>

lemma demo_steps: "\<exists>w'. run_steps (demo_os past_only) (configure_steps demo_tools ''utun4'' c ip) w = (Inr (), w')"
  by (simp add: configure_steps_def demo_tools_def run_def run_both_def demo_os_def past_only_def IFCONFIG_def ROUTE_def Let_def)

lemma demo_tunnel_up:
  "\<exists>t w. tunnel_up (demo_os past_only) demo_procs demo_tools demo_conf (ip4 192 0 3 7) 1 demo_world = (Inr t, w) \<and>
    tn_index t = 17"
proof -
  let ?file = "name_file demo_tools 1"
  let ?w1 = "snd (os_remove (demo_os past_only) ?file demo_world)"
  let ?w2 = "?w1\<lparr>wd_children := [0], wd_started := 1, wd_files := hm_insert ?file ''utun4'' (wd_files ?w1)\<rparr>"
  have w1: "wd_started ?w1 = 0" "wd_children ?w1 = []"
    by (simp_all add: demo_os_def demo_world_def)
  obtain w2 where w2: "w2 = ?w2" by blast
  have s: "pc_spawn demo_procs p a [(''WG_TUN_NAME_FILE'', ?file), (''LOG_LEVEL'', ''error'')] ?w1 = (Inr 0, w2)" for p a
    by (simp add: demo_procs_def w1 w2)
  have n: "name_seen (demo_os past_only) ?file None w2 = Some ''utun4''"
  proof -
    have "os_read (demo_os past_only) ?file w2 = Inr ''utun4''" by (simp add: demo_os_def dict_simps w2)
    moreover have "trim ''utun4'' = ''utun4''" by code_simp
    ultimately show ?thesis by (simp add: name_seen_def)
  qed
  have e: "pc_exists demo_procs (path_join (tl_run_dir demo_tools) (''utun4'' @ ''.sock'')) w2"
    by (simp add: demo_procs_def demo_tools_def path_join_def)
  have r: "wait_ready (demo_os past_only) demo_procs 0 ?file (tl_run_dir demo_tools) TRIES None w2 = (Inr ''utun4'', w2)"
    using n e by (simp add: TRIES_def numeral_eq_Suc)
  obtain w3 where c: "run_steps (demo_os past_only) (configure_steps demo_tools ''utun4'' demo_conf (ip4 192 0 3 7)) w2 = (Inr (), w3)"
    using demo_steps by blast
  have i: "pc_if_index demo_procs ''utun4'' w2 = Inr 17" "pc_mkdir demo_procs d v = (Inr (), v)" for d v
    by (simp_all add: demo_procs_def)
  show ?thesis
    by (simp add: tunnel_up_def i s r configure_def c Let_def)
qed

section \<open>The watch\<close>

definition demo_settings :: settings where
  "demo_settings =
     \<lparr>s_lists = [\<lparr>l_name = ''news'', l_sources = [File ''news.lst'']\<rparr>],
      s_tunnels = [\<lparr>t_name = ''wg'', t_conf = ''wg.conf''\<rparr>], s_rules = demo_rules,
      s_degraded_grace = from_mins 1\<rparr>"

definition demo_stat :: "world stat" where
  "demo_stat = \<lparr>st_modified = \<lambda>p w. None, st_exists = \<lambda>p w. hm_get (wd_files w) p \<noteq> None,
     st_now = wd_clock, st_wall = wd_clock\<rparr>"

definition demo_we :: "(demo_table, world) watch_env" where
  "demo_we =
     \<lparr>we_env = demo_env, we_stat = demo_stat, we_tools = demo_tools, we_nanos = \<lambda>w. 0,
      we_net = \<lambda>w. Some demo_network, we_net_new = \<lambda>w. True, we_nudge = \<lambda>w. w,
      we_asked = \<lambda>w. None, we_fetched = \<lambda>w. None, we_join = \<lambda>d w. w\<lparr>wd_clock := wd_clock w + d\<rparr>\<rparr>"

definition demo_country :: country where
  "demo_country = \<lparr>cn_owner = None, cn_seen = Some (''US'', 900), cn_seen_on = None\<rparr>"

definition demo_watch :: watch where
  "demo_watch = Watch_new demo_we ''/run/hosts.state'' 3600 True True
     (Updater_new demo_stat demo_settings ''/etc'' ''/run/sources'' ''/run/update'' demo_world)
     [\<lparr>ct_wanted = True, ct_wakes = 0, ct_stop = False\<rparr>] demo_country demo_world"

lemma demo_we_env: "env_ok (we_env demo_we)" "we_env demo_we = demo_env"
  by (simp_all add: demo_we_def demo_env_ok)

lemma demo_rules_follow: "rules_follow demo_country demo_ready"
  by (simp add: rules_follow_def demo_core_def demo_country_def Country_now_def)

lemma demo_settings_wf: "settings_wf demo_settings"
proof -
  have "name_ok ''news''" "name_ok ''wg''" "name_ok ''abroad''" "when_wf (Out ''NL'')"
    "source_wf (File ''news.lst'')" "\<forall>c\<in>set (components ''wg.conf''). is_normal c" by code_simp+
  then show ?thesis
    by (simp add: settings_wf_def rule_wf_def demo_settings_def demo_rules_def)
qed

definition demo_held :: "demo_table resolver" where
  "demo_held = load_hosts [(ip4 203 0 115 9, 0, 1000)] demo_ready"

lemma demo_held_hosts: "cr_hosts (rv_core demo_held) = [(ip4 203 0 115 9, \<lparr>h_rule = 0, h_last = 1000, h_placed = None\<rparr>)]"
  by (simp add: demo_held_def load_hosts_def load_host_def hm_or_insert_def) (simp add: demo_core_def)

lemma demo_saved_here: "saved_here demo_settings demo_held"
proof -
  have "resolver_ok demo_held" unfolding demo_held_def by (rule ok_load_hosts [OF demo_ready_ok])
  moreover have "map rn_name (cr_rules (rv_core demo_held)) = map r_name (s_rules demo_settings)"
    by (simp add: demo_held_def load_hosts_def demo_core_def demo_settings_def demo_rules_def)
  ultimately show ?thesis using demo_settings_wf by (simp add: saved_here_def demo_held_hosts)
qed

lemma demo_no_held: "Pf_held_hosts (demo_os all_well) 1 w = ([], w\<lparr>wd_log :=
    (PFCTL, [''-q'', ''-a'', ANCHOR, ''-t'', HOSTS @ show_nat 0, ''-T'', ''show''], None) # wd_log w\<rparr>)"
  by (simp add: Pf_held_hosts_def run_def run_both_def demo_os_def all_well_def parse_table_def)

definition demo_updater :: updater where
  "demo_updater = Updater_new demo_stat demo_settings ''/etc'' ''/run/sources'' ''/run/update'' demo_world"

section \<open>Sources\<close>

text \<open>A world with the file of a list, read once, and then gone.\<close>

definition demo_world_there :: world where
  "demo_world_there = demo_world\<lparr>wd_files := [(''/etc/news.lst'', ''example.org'')]\<rparr>"

definition demo_world_read :: world where
  "demo_world_read = snd (read_file (demo_os all_well) ''news.lst'' ''/etc'' ''/run/sources'' demo_world_there)"

definition demo_world_gone :: world where
  "demo_world_gone = snd (os_remove (demo_os all_well) ''/etc/news.lst'' demo_world_read)"

lemma demo_read_there: "os_read (demo_os all_well) (path_join ''/etc'' ''news.lst'') demo_world_there = Inr ''example.org''"
  by (simp add: demo_world_there_def demo_os_def path_join_def)

lemma demo_list_good: "good_list ''example.org''"
proof -
  have "check_list ''example.org'' = Inr 1" by code_simp
  then show ?thesis by (auto simp: good_list_def)
qed

lemma demo_write_copy: "fst (write_cache (demo_os all_well) (cache_file d u) body w) = Inr ()"
  by (simp add: write_cache_def write_private_def demo_os_def Let_def dict_simps)

lemma demo_read_copied:
  "read_file (demo_os all_well) ''news.lst'' ''/etc'' ''/run/sources'' demo_world_there = (Inr (''example.org'', False), demo_world_read)"
  "fst (write_cache (demo_os all_well) (cache_file ''/run/sources'' (file_key ''news.lst'')) ''example.org'' demo_world_there) = Inr ()"
proof -
  have "fst (read_file (demo_os all_well) ''news.lst'' ''/etc'' ''/run/sources'' demo_world_there) = Inr (''example.org'', False)"
    by (simp add: read_file_def demo_read_there Let_def)
  then show "read_file (demo_os all_well) ''news.lst'' ''/etc'' ''/run/sources'' demo_world_there =
      (Inr (''example.org'', False), demo_world_read)"
    by (simp add: demo_world_read_def prod_eq_iff)
qed (rule demo_write_copy)

lemma demo_gone:
  "copy_kept (demo_os all_well) (cache_file ''/run/sources'' (file_key ''news.lst'')) demo_world_read demo_world_gone"
  "os_read (demo_os all_well) (path_join ''/etc'' ''news.lst'') demo_world_gone = Inl NotFound"
proof -
  let ?os = "demo_os all_well" and ?copy = "cache_file ''/run/sources'' (file_key ''news.lst'')"
  have "?copy \<noteq> ''/etc/news.lst''" by (simp add: cache_file_def path_join_def)
  then have "os_read ?os ?copy (snd (os_remove ?os ''/etc/news.lst'' demo_world_read)) = os_read ?os ?copy demo_world_read"
    by (rule disk_remove_other [OF demo_os_ok])
  then show "copy_kept ?os ?copy demo_world_read demo_world_gone"
    by (simp add: copy_kept_def demo_world_gone_def)
  show "os_read ?os (path_join ''/etc'' ''news.lst'') demo_world_gone = Inl NotFound"
    by (simp add: demo_world_gone_def demo_os_def path_join_def map_of_filter_neq split: option.split)
qed

end
