(* ===== verification/Sock_Addr.thy ===== *)
theory Sock_Addr
  imports Sysdns Tunnel_Conf
begin

text \<open>
  \<open>SocketAddr\<close> of the standard library, as the command line reads it: an address and a port. Of an
  IPv6 address the text stands, as only the operating system looks into it.
\<close>

datatype sock_addr = Sock_V4 ipv4 nat | Sock_V6 string nat

text \<open>\<open>read_number\<close> in base ten, zeros in front allowed, to the end of the text.\<close>

definition read_dec :: "nat \<Rightarrow> string \<Rightarrow> nat option" where
  "read_dec m s = (if s \<noteq> [] \<and> list_all is_digit s \<and> dec_value s \<le> m then Some (dec_value s) else None)"

definition read_port :: "string \<Rightarrow> nat option" where
  "read_port s = (case s of c # ds \<Rightarrow> if c = CHR '':'' then read_dec 65535 ds else None | [] \<Rightarrow> None)"

definition parse_sock_v4 :: "string \<Rightarrow> sock_addr option" where
  "parse_sock_v4 s =
     (case split_once (CHR '':'') s of
        None \<Rightarrow> None
      | Some (a, p) \<Rightarrow>
          (case (parse_ip a, read_dec 65535 p) of (Some ip, Some n) \<Rightarrow> Some (Sock_V4 ip n) | _ \<Rightarrow> None))"

text \<open>In brackets: the address, and a scope after a percent sign.\<close>

definition scoped_ip6 :: "string \<Rightarrow> bool" where
  "scoped_ip6 s =
     (case split_once (CHR ''%'') s of
        None \<Rightarrow> is_ip6 s
      | Some (a, scope) \<Rightarrow> is_ip6 a \<and> read_dec (2 ^ 32 - 1) scope \<noteq> None)"

definition parse_sock_v6 :: "string \<Rightarrow> sock_addr option" where
  "parse_sock_v6 s =
     (case s of
        [] \<Rightarrow> None
      | c # cs \<Rightarrow>
          if c \<noteq> CHR ''['' then None
          else (case split_once (CHR '']'') cs of
                  None \<Rightarrow> None
                | Some (a, p) \<Rightarrow>
                    if scoped_ip6 a then map_option (Sock_V6 a) (read_port p) else None))"

definition parse_sock :: "string \<Rightarrow> sock_addr option" where
  "parse_sock s = (case parse_sock_v4 s of Some a \<Rightarrow> Some a | None \<Rightarrow> parse_sock_v6 s)"

definition show_sock_v4 :: "ipv4 \<Rightarrow> nat \<Rightarrow> string" where
  "show_sock_v4 ip port = show_ip ip @ '':'' @ show_nat port"

lemma read_dec_bound: "read_dec m s = Some n \<Longrightarrow> n \<le> m"
  by (simp add: read_dec_def split: if_splits)

lemma read_dec_show: "n \<le> m \<Longrightarrow> read_dec m (show_nat n) = Some n"
  by (simp add: read_dec_def list_all_iff show_nat_nonempty show_nat_digits dec_value_show)

text \<open>What is shown is read back, and a port that is read fits its sixteen bits.\<close>

lemma parse_show_sock:
  assumes "port \<le> 65535"
  shows "parse_sock (show_sock_v4 ip port) = Some (Sock_V4 ip port)"
proof -
  have "CHR '':'' \<notin> set (show_ip ip)"
    using show_ip_special [of ip] by auto
  then have "split_once (CHR '':'') (show_ip ip @ CHR '':'' # show_nat port) = Some (show_ip ip, show_nat port)"
    by (simp add: split_once_append)
  then show ?thesis
    by (simp add: parse_sock_def parse_sock_v4_def show_sock_v4_def parse_show_ip read_dec_show assms)
qed

fun sock_port :: "sock_addr \<Rightarrow> nat" where
  "sock_port (Sock_V4 _ p) = p"
| "sock_port (Sock_V6 _ p) = p"

lemma parse_sock_port: "parse_sock s = Some a \<Longrightarrow> sock_port a \<le> 65535"
  by (auto simp: parse_sock_def parse_sock_v4_def parse_sock_v6_def read_port_def
      split: option.splits list.splits prod.splits if_splits dest: read_dec_bound)

end
