(* ===== verification/Life.thy ===== *)
theory Life
  imports Daemon_Facts Sock_Addr
begin

text \<open>
  The whole life of the daemon (\<open>run\<close> of \<open>src/daemon.rs\<close>): the start with its errors, the steps, the
  stop. Shown: nothing answers before the packet filter was given the kill switch with every saved
  host, and when the life is over the kernel has only the routes it had before.
\<close>

section \<open>What a start uses\<close>

record daemon_config =
  dc_settings :: path
  dc_state :: path
  dc_journal :: "path option"
  dc_listen :: sock_addr
  dc_tunnel_dns :: ipv4
  dc_libexec :: path
  dc_window :: nat
  dc_use_fakeip :: bool
  dc_system_dns :: bool

definition LIMIT :: duration where "LIMIT = from_secs 4"
definition RUN_DIR :: path where "RUN_DIR = ''/var/run/amneziawg''"

datatype start_error =
    Settings_unread io_error
  | Settings_syntax string
  | Settings_refused config_error
  | Confs_refused conf_file_error
  | Start_io io_error

text \<open>
  \<open>se_toml\<close> is the TOML library; \<open>se_sockets\<close> the listening sockets, the socket of the events and the
  handlers of the signals; nobody else runs before they serve, so a start waits alone.
\<close>

record ('k, 'w) start_env =
  se_we :: "('k, 'w) watch_env"
  se_le :: "('k, 'w) link_env"
  se_toml :: "string \<Rightarrow> string + raw_settings"
  se_mkdir :: "path \<Rightarrow> 'w \<Rightarrow> unit io_result \<times> 'w"
  se_journal :: "path option \<Rightarrow> 'w \<Rightarrow> unit io_result \<times> 'w"
  se_sockets :: "sock_addr \<Rightarrow> 'w \<Rightarrow> unit io_result \<times> 'w"
  se_routes :: "'w \<Rightarrow> 'k route_socket io_result \<times> 'w"

definition se_os :: "('k, 'w) start_env \<Rightarrow> 'w os" where "se_os se = we_os (se_we se)"

definition alone :: "('k, 'w) env \<Rightarrow> ('k, 'w) env" where
  "alone env = env\<lparr>en_others := \<lambda>s. s\<rparr>"

definition daemon_tools :: "daemon_config \<Rightarrow> tools" where
  "daemon_tools cfg =
     \<lparr>tl_go = path_join (dc_libexec cfg) ''amneziawg-go'', tl_awg = path_join (dc_libexec cfg) ''awg'',
      tl_run_dir = RUN_DIR\<rparr>"

section \<open>The start\<close>

definition config_load ::
    "(string \<Rightarrow> string + raw_settings) \<Rightarrow> 'w os \<Rightarrow> path \<Rightarrow> 'w \<Rightarrow> start_error + settings" where
  "config_load toml os p w =
     (case os_read os p w of
        Inl e \<Rightarrow> Inl (Settings_unread e)
      | Inr txt \<Rightarrow>
          (case toml txt of
             Inl e \<Rightarrow> Inl (Settings_syntax e)
           | Inr raw \<Rightarrow>
               (case parse raw of Inl e \<Rightarrow> Inl (Settings_refused e) | Inr s \<Rightarrow> Inr s)))"

text \<open>The files: the settings, the tunnels, the updater, the saved hosts, the lists.\<close>

record loaded_files =
  lf_settings :: settings
  lf_confs :: "conf list"
  lf_updater :: updater
  lf_saved :: hosts
  lf_built :: built

definition load_files ::
    "('k, 'w) start_env \<Rightarrow> daemon_config \<Rightarrow> 'w \<Rightarrow> (start_error + loaded_files) \<times> 'w" where
  "load_files se cfg w =
     (case config_load (se_toml se) (se_os se) (dc_settings cfg) w of
        Inl e \<Rightarrow> (Inl e, w)
      | Inr st \<Rightarrow>
     (case load_confs (se_os se) st (dir_of (dc_settings cfg)) w of
        Inl e \<Rightarrow> (Inl (Confs_refused e), w)
      | Inr confs \<Rightarrow>
     (case open_sources (se_we se) (se_mkdir se) (dc_settings cfg) (dc_state cfg) st w of
        (Inl e, w) \<Rightarrow> (Inl (Start_io e), w)
      | (Inr u, w) \<Rightarrow>
     (case hosts_load (se_os se) (dc_state cfg) w of
        Inl e \<Rightarrow> (Inl (Start_io e), w)
      | Inr saved \<Rightarrow>
     (case se_journal se (dc_journal cfg) w of
        (Inl e, w) \<Rightarrow> (Inl (Start_io e), w)
      | (Inr _, w) \<Rightarrow>
          (let (built, w) = Updater_build (se_os se) u w
           in (Inr \<lparr>lf_settings = st, lf_confs = confs, lf_updater = u, lf_saved = saved, lf_built = built\<rparr>, w)))))))"

text \<open>The resolver, with the kill switch in the packet filter.\<close>

definition switch_on ::
    "('k, 'w) start_env \<Rightarrow> daemon_config \<Rightarrow> loaded_files \<Rightarrow> 'w \<Rightarrow> (start_error + country \<times> 'k resolver) \<times> 'w" where
  "switch_on se cfg lf w =
     (let dir = dir_of (dc_state cfg); st = lf_settings lf in
      case se_sockets se (dc_listen cfg) w of
        (Inl e, w) \<Rightarrow> (Inl (Start_io e), w)
      | (Inr _, w) \<Rightarrow>
     (case Pf_enable (se_os se) dir w of
        (Inl e, w) \<Rightarrow> (Inl (Start_io e), w)
      | (Inr _, w) \<Rightarrow>
          (let (hosts, w) = hosts_to_restore (se_os se) st (lf_saved lf) (we_unix (se_we se) w) w in
     (case se_routes se w of
        (Inl e, w) \<Rightarrow> (Inl (Start_io e), w)
      | (Inr routes, w) \<Rightarrow>
          (let c = Country_load (se_os se) dir w;
               r = start_resolver (lf_built lf) st (lf_confs lf) (dc_tunnel_dns cfg) routes dir LIMIT c hosts
           in case sync_pf (alone (we_env (se_we se))) r w of
                (Inl e, r, w) \<Rightarrow> (Inl (Start_io e), w)
              | (Inr _, r, w) \<Rightarrow> (Inr (c, r), w))))))"

text \<open>The tasks: from here on the others run too.\<close>

definition spawn_watch ::
    "('k, 'w) start_env \<Rightarrow> daemon_config \<Rightarrow> loaded_files \<Rightarrow> country \<Rightarrow> 'k resolver \<Rightarrow> 'w \<Rightarrow>
      (ctl \<times> link) list \<times> ('k, 'w) wk" where
  "spawn_watch se cfg lf c r w =
     (let we = se_we se;
          (strays, w) = stray_pids (se_os se) (daemon_tools cfg) w;
          (r, w) = we_others we (r, w);
          links = spawn_links (se_le se) (lf_settings lf) (lf_confs lf) r w;
          k = Watch_new we (dc_state cfg) (dc_window cfg) (dc_use_fakeip cfg) (dc_system_dns cfg) (lf_updater lf)
                (map fst links) c w;
          k = k\<lparr>wt_missing := bl_missing (lf_built lf), wt_stale := bl_stale (lf_built lf),
                wt_strays := (if strays = [] then None else Some (strays, we_now we w))\<rparr>
      in (links, take_dns we (k, r, w)))"

definition daemon_start ::
    "('k, 'w) start_env \<Rightarrow> daemon_config \<Rightarrow> 'w \<Rightarrow> (start_error + (ctl \<times> link) list \<times> watch \<times> 'k resolver) \<times> 'w" where
  "daemon_start se cfg w =
     (case load_files se cfg w of
        (Inl e, w) \<Rightarrow> (Inl e, w)
      | (Inr lf, w) \<Rightarrow>
     (case switch_on se cfg lf w of
        (Inl e, w) \<Rightarrow> (Inl e, w)
      | (Inr (c, r), w) \<Rightarrow>
          (let (links, k, r, w) = spawn_watch se cfg lf c r w in (Inr (links, k, r), w))))"

section \<open>The life\<close>

text \<open>Between two steps the watch waits, and the others run; the last wait ends with a signal.\<close>

fun daemon_steps :: "('k, 'w) watch_env \<Rightarrow> ('w \<Rightarrow> 'w) list \<Rightarrow> ('k, 'w) wk \<Rightarrow> ('k, 'w) wk" where
  "daemon_steps we [] s = s"
| "daemon_steps we (wait # waits) (k, r, w) =
     (let (r, w) = we_others we (r, wait w) in daemon_steps we waits (watch_step we (k, r, w)))"

definition daemon_run ::
    "('k, 'w) start_env \<Rightarrow> daemon_config \<Rightarrow> ('w \<Rightarrow> 'w) list \<Rightarrow> ('w \<Rightarrow> 'w) \<Rightarrow> 'w \<Rightarrow>
      (start_error + watch \<times> 'k resolver) \<times> 'w" where
  "daemon_run se cfg waits stop w =
     (case daemon_start se cfg w of
        (Inl e, w) \<Rightarrow> (Inl e, w)
      | (Inr (links, k, r), w) \<Rightarrow>
          (let (k, r, w) = daemon_steps (se_we se) waits (k, r, w);
               (r, w) = we_others (se_we se) (r, stop w);
               (k, r, w) = watch_stop (se_we se) (k, r, w)
           in (Inr (k, r), w)))"

section \<open>The kill switch before the first answer\<close>

lemma env_ok_alone: "env_ok (alone env)"
  by (simp add: env_ok_def alone_def)

lemma alone_fields: "en_kernel (alone env) = en_kernel env" "en_os (alone env) = en_os env"
  by (simp_all add: alone_def)

lemma start_resolver_pf:
  "rv_pf (start_resolver b st confs dns routes dir limit c hosts) = Some dir \<and>
    rv_pf_stale (start_resolver b st confs dns routes dir limit c hosts)"
proof -
  have "rv_pf (tell_endpoints i cs r) = rv_pf r" for i cs and r :: "'a resolver"
    by (induction cs arbitrary: i r) (auto simp: set_link_def Let_def split: option.split)
  then show ?thesis
    by (simp add: start_resolver_def Let_def load_hosts_def set_country_def Resolver_new_def)
qed

lemma pf_given_cong:
  "pf_given (alone env) dir s (r\<lparr>rv_pf_stale := b, rv_pf_shape := x\<rparr>) w = pf_given env dir s r w"
  "pf_given (alone env) dir s (r\<lparr>rv_pf_stale := b\<rparr>) w = pf_given env dir s r w"
  by (simp_all add: pf_given_def resolver_tables_def Let_def alone_fields)

lemma sync_alone:
  assumes "disk_ok (en_os env)" "rv_pf r = Some dir" "rv_pf_stale r" "sync_pf (alone env) r w = (Inr u, r', w')"
  shows "pf_given env dir (resolver_shape r) r w' \<and> r' = r\<lparr>rv_pf_stale := False, rv_pf_shape := Some (resolver_shape r)\<rparr>"
proof -
  have o: "en_others (alone env) s = s" for s by (simp add: alone_def)
  have d: "disk_ok (en_os (alone env))" by (simp add: alone_fields assms(1))
  from sync_loaded [OF d assms(2,4) o o] assms(3) show ?thesis
    by (auto simp: o pf_given_cong)
qed

lemma switch_on_Inr:
  assumes "switch_on se cfg lf w = (Inr (c, r), w')"
  obtains w1 hosts w2 routes w3 r0 where
    "hosts_to_restore (se_os se) (lf_settings lf) (lf_saved lf) (we_unix (se_we se) w1) w1 = (hosts, w2)"
    "se_routes se w2 = (Inr routes, w3)" "c = Country_load (se_os se) (dir_of (dc_state cfg)) w3"
    "r0 = start_resolver (lf_built lf) (lf_settings lf) (lf_confs lf) (dc_tunnel_dns cfg) routes
      (dir_of (dc_state cfg)) LIMIT c hosts"
    "sync_pf (alone (we_env (se_we se))) r0 w3 = (Inr (), r, w')"
proof -
  obtain w0 where 0: "se_sockets se (dc_listen cfg) w = (Inr (), w0)"
    using assms by (cases "se_sockets se (dc_listen cfg) w"; cases "fst (se_sockets se (dc_listen cfg) w)") (auto simp: switch_on_def)
  obtain w1 where 1: "Pf_enable (se_os se) (dir_of (dc_state cfg)) w0 = (Inr (), w1)"
    using assms 0 by (cases "Pf_enable (se_os se) (dir_of (dc_state cfg)) w0";
        cases "fst (Pf_enable (se_os se) (dir_of (dc_state cfg)) w0)") (auto simp: switch_on_def)
  obtain hosts w2 where 2: "hosts_to_restore (se_os se) (lf_settings lf) (lf_saved lf) (we_unix (se_we se) w1) w1 = (hosts, w2)"
    by fastforce
  obtain routes w3 where 3: "se_routes se w2 = (Inr routes, w3)"
    using assms 0 1 2 by (cases "se_routes se w2"; cases "fst (se_routes se w2)") (auto simp: switch_on_def)
  let ?c = "Country_load (se_os se) (dir_of (dc_state cfg)) w3"
  let ?r = "start_resolver (lf_built lf) (lf_settings lf) (lf_confs lf) (dc_tunnel_dns cfg) routes
      (dir_of (dc_state cfg)) LIMIT ?c hosts"
  obtain x r1 w4 where 4: "sync_pf (alone (we_env (se_we se))) ?r w3 = (x, r1, w4)" by (metis prod.collapse)
  have "c = ?c" "x = Inr ()" "r1 = r" "w4 = w'"
    using assms 0 1 2 3 4 by (cases x; simp add: switch_on_def Let_def)+
  with that 2 3 4 show thesis by blast
qed

theorem switch_before_answers:
  assumes "disk_ok (se_os se)" "switch_on se cfg lf w = (Inr (c, r), w')"
  shows "pf_given (we_env (se_we se)) (dir_of (dc_state cfg)) (resolver_shape r) r w' \<and> rules_follow c r"
  using assms(2)
proof (rule switch_on_Inr)
  fix w1 hosts w2 routes w3 r0
  assume r0: "r0 = start_resolver (lf_built lf) (lf_settings lf) (lf_confs lf) (dc_tunnel_dns cfg) routes
      (dir_of (dc_state cfg)) LIMIT c hosts"
    and s: "sync_pf (alone (we_env (se_we se))) r0 w3 = (Inr (), r, w')"
  let ?env = "we_env (se_we se)"
  have d: "disk_ok (en_os ?env)" using assms(1) by (simp add: se_os_def we_os_def)
  have pf: "rv_pf r0 = Some (dir_of (dc_state cfg))" "rv_pf_stale r0" using start_resolver_pf unfolding r0 by blast+
  note g = sync_alone [OF d pf s]
  have sh: "resolver_shape r = resolver_shape r0" using g by (simp add: resolver_shape_def Let_def)
  have "pf_given ?env (dir_of (dc_state cfg)) (resolver_shape r) r w'"
    using g unfolding sh by (simp add: pf_given_def resolver_tables_def Let_def)
  moreover have "rules_follow c r"
    using g start_rules_follow [of c] unfolding r0 by (simp add: rules_follow_def)
  ultimately show ?thesis ..
qed

section \<open>The end of a life\<close>

lemma start_resolver_run:
  "rv_run krn (Resolver_new (bl_lists b) (s_rules st) (map t_name (s_tunnels st)) dns routes (Some dir) limit)
    (start_resolver b st confs dns routes dir limit c hosts)"
proof -
  have "rv_run krn r (tell_endpoints i cs r)" for i cs and r :: "'a resolver"
  proof (induction cs arbitrary: i r)
    case (Cons c cs)
    show ?case
    proof (cases "endpoint_ip c")
      case None
      with Cons show ?thesis by simp
    next
      case (Some ip)
      from converse_rtranclp_into_rtranclp [of "rv_step krn", OF step_link Cons] Some show ?thesis by simp
    qed
  qed simp
  then show ?thesis
    unfolding start_resolver_def Let_def
    by (meson rtranclp.rtrancl_into_rtrancl step_country step_load)
qed

lemma daemon_steps_run:
  assumes "env_ok (we_env we)"
  shows "daemon_steps we waits (k, r, w) = (k', r', w') \<Longrightarrow> rv_run (en_kernel (we_env we)) r r'"
proof (induction waits arbitrary: k r w)
  case (Cons wait waits)
  obtain r1 w1 where 1: "we_others we (r, wait w) = (r1, w1)" by fastforce
  obtain k2 r2 w2 where 2: "watch_step we (k, r1, w1) = (k2, r2, w2)" by (metis prod.collapse)
  have "daemon_steps we waits (k2, r2, w2) = (k', r', w')" using Cons.prems 1 2 by simp
  from Cons.IH [OF this] we_others_run [OF assms 1] watch_step_run [OF assms 2]
  show ?case by (meson rtranclp_trans)
qed simp

lemma load_files_lists:
  assumes "load_files se cfg w = (Inr lf, w')"
  shows "lists_ok (bl_lists (lf_built lf))"
proof -
  obtain u v v' where "Updater_build (se_os se) u v = (lf_built lf, v')"
    using assms by (fastforce simp: load_files_def Let_def split: sum.splits prod.splits)
  then show ?thesis by (rule build_ok)
qed

lemma spawn_watch_run:
  assumes "env_ok (we_env (se_we se))" "spawn_watch se cfg lf c r w = (links, k, r', w')"
  shows "rv_run (en_kernel (we_env (se_we se))) r r'"
proof -
  obtain strays w1 where 1: "stray_pids (se_os se) (daemon_tools cfg) w = (strays, w1)" by fastforce
  obtain r2 w2 where 2: "we_others (se_we se) (r, w1) = (r2, w2)" by fastforce
  have "\<exists>k2. take_dns (se_we se) (k2, r2, w2) = (k, r', w')"
    using assms(2) 1 2 by (auto simp: spawn_watch_def Let_def)
  then show ?thesis
    using we_others_run [OF assms(1) 2] take_dns_run [OF assms(1)] by (meson rtranclp_trans)
qed

lemma daemon_start_run:
  assumes "env_ok (we_env (se_we se))" "daemon_start se cfg w = (Inr (links, k, r), w')"
  obtains l rules names dns routes dir limit v v' where "lists_ok l" "se_routes se v = (Inr routes, v')"
    "rv_run (en_kernel (we_env (se_we se))) (Resolver_new l rules names dns routes dir limit) r"
proof -
  let ?krn = "en_kernel (we_env (se_we se))"
  obtain lf w1 where 1: "load_files se cfg w = (Inr lf, w1)"
    using assms(2) by (cases "load_files se cfg w"; cases "fst (load_files se cfg w)") (auto simp: daemon_start_def)
  obtain c r2 w2 where 2: "switch_on se cfg lf w1 = (Inr (c, r2), w2)"
    using assms(2) 1 by (cases "switch_on se cfg lf w1"; cases "fst (switch_on se cfg lf w1)") (auto simp: daemon_start_def)
  have 3: "spawn_watch se cfg lf c r2 w2 = (links, k, r, w')"
    using assms(2) 1 2 by (cases "spawn_watch se cfg lf c r2 w2") (auto simp: daemon_start_def Let_def split: prod.splits)
  from 2 show thesis
  proof (rule switch_on_Inr)
    fix wa hosts wb routes wc r0
    assume routes: "se_routes se wb = (Inr routes, wc)"
      and r0: "r0 = start_resolver (lf_built lf) (lf_settings lf) (lf_confs lf) (dc_tunnel_dns cfg) routes
        (dir_of (dc_state cfg)) LIMIT c hosts"
      and s: "sync_pf (alone (we_env (se_we se))) r0 wc = (Inr (), r2, w2)"
    have "rv_run ?krn r0 r2" using sync_pf_run [OF env_ok_alone s] by (simp add: alone_fields)
    then have "rv_run ?krn (Resolver_new (bl_lists (lf_built lf)) (s_rules (lf_settings lf))
        (map t_name (s_tunnels (lf_settings lf))) (dc_tunnel_dns cfg) routes (Some (dir_of (dc_state cfg))) LIMIT) r"
      using start_resolver_run spawn_watch_run [OF assms(1) 3] unfolding r0 by (meson rtranclp_trans)
    with that load_files_lists [OF 1] routes show thesis by blast
  qed
qed

theorem life_leaves_no_route:
  assumes "env_ok (we_env (se_we se))" "kernel_obeys (en_kernel (we_env (se_we se))) tbl"
    and "\<And>v routes v' key. se_routes se v = (Inr routes, v') \<Longrightarrow> tbl (sock routes) key \<noteq> None \<Longrightarrow> key \<in> T"
    and "daemon_run se cfg waits stop w = (Inr (k, r), w')"
  shows "cr_stopped (rv_core r) \<and> (\<forall>key. tbl (sock (rv_routes r)) key \<noteq> None \<longrightarrow> key \<in> T)"
proof -
  let ?we = "se_we se" and ?krn = "en_kernel (we_env (se_we se))"
  obtain links k1 r1 w1 where 1: "daemon_start se cfg w = (Inr (links, k1, r1), w1)"
    using assms(4) by (cases "daemon_start se cfg w"; cases "fst (daemon_start se cfg w)") (auto simp: daemon_run_def)
  obtain k2 r2 w2 where 2: "daemon_steps ?we waits (k1, r1, w1) = (k2, r2, w2)" by (metis prod.collapse)
  obtain r3 w3 where 3: "we_others ?we (r2, stop w2) = (r3, w3)" by fastforce
  have 4: "watch_stop ?we (k2, r3, w3) = (k, r, w')"
    using assms(4) 1 2 3 by (cases "watch_stop ?we (k2, r3, w3)") (auto simp: daemon_run_def Let_def)
  obtain l rules names dns routes dir limit v v' where l: "lists_ok l" and routes: "se_routes se v = (Inr routes, v')"
    and run: "rv_run ?krn (Resolver_new l rules names dns routes dir limit) r1"
    using daemon_start_run [OF assms(1) 1] .
  let ?new = "Resolver_new l rules names dns routes dir limit"
  have run3: "rv_run ?krn ?new r3"
    using run daemon_steps_run [OF assms(1) 2] we_others_run [OF assms(1) 3] by (meson rtranclp_trans)
  have new: "accounted tbl T ?new"
    by (rule accountedI) (use assms(3) [OF routes] in \<open>simp add: Resolver_new_def\<close>)
  note leaves = stop_leaves [OF assms(1,2) ok_run [OF run3 ok_new [OF l]]
      accounted_run [OF assms(2) run3 ok_new [OF l] new] 4]
  then show ?thesis by blast
qed

end
