(* ===== verification/Demo_Life.thy ===== *)
theory Demo_Life
  imports Demo_Tasks Life
begin

text \<open>
  The small setting, for a whole life: a disk with the file of the tunnel, a packet filter that
  gives a token, settings of one list, one tunnel and one rule.
\<close>

definition with_token :: "call \<Rightarrow> child" where
  "with_token c = Exited True ''exit status: 0'' ''Token : 5'' []"

definition demo_life_env :: "(demo_table, world) env" where
  "demo_life_env = demo_env\<lparr>en_os := demo_os with_token\<rparr>"

definition demo_raw :: raw_settings where
  "demo_raw = \<lparr>raw_watch = None, raw_lists = [\<lparr>rl_name = ''news'', rl_sources = [''news.lst'']\<rparr>],
     raw_tunnels = [\<lparr>rt_name = ''wg'', rt_conf = ''wg.conf''\<rparr>],
     raw_rules = [\<lparr>rr_name = ''abroad'', rr_when = ''!NL'', rr_lists = [''news''], rr_tunnels = [''wg'']\<rparr>]\<rparr>"

definition demo_se :: "(demo_table, world) start_env" where
  "demo_se =
     \<lparr>se_we = demo_we\<lparr>we_env := demo_life_env\<rparr>, se_le = demo_le, se_toml = \<lambda>t. Inr demo_raw,
      se_mkdir = \<lambda>p w. (Inr (), w), se_journal = \<lambda>_ w. (Inr (), w), se_sockets = \<lambda>_ w. (Inr (), w),
      se_routes = \<lambda>w. (Inr \<lparr>sock = [(route_key (Subnet (ip4 10 0 0 0) 8), 4)], seq = 0\<rparr>, w)\<rparr>"

definition demo_cfg :: daemon_config where
  "demo_cfg = \<lparr>dc_settings = ''/etc/gate.toml'', dc_state = ''/run/hosts.state'', dc_journal = None,
     dc_listen = Sock_V4 (ip4 127 0 0 1) 53, dc_tunnel_dns = ip4 1 1 1 1,
     dc_libexec = ''/opt'', dc_window = 3600, dc_use_fakeip = True, dc_system_dns = True\<rparr>"

definition demo_start_world :: world where
  "demo_start_world = demo_world\<lparr>wd_files := [(''/etc/gate.toml'', ''x''), (''/etc/wg.conf'', demo_conf_text)]\<rparr>"

lemma demo_raw_parsed: "\<exists>st. parse demo_raw = Inr st \<and> s_tunnels st = [\<lparr>t_name = ''wg'', t_conf = ''wg.conf''\<rparr>]"
proof -
  have pieces: "name_ok ''news''" "name_ok ''wg''" "name_ok ''abroad''" "When_parse ''!NL'' = Some (Out ''NL'')"
    "source_of ''news.lst'' = Some (File ''news.lst'')" "file_of ''wg.conf'' = Some ''wg.conf''"
    by code_simp+
  show ?thesis
    by (simp add: demo_raw_def parse_def check_name_def refs_def pieces List.map_filter_simps)
qed

lemma demo_se_os: "se_os demo_se = demo_os with_token" "we_os (se_we demo_se) = demo_os with_token"
  by (simp_all add: se_os_def we_os_def demo_se_def demo_life_env_def)

lemma demo_dirs: "dir_of ''/run/hosts.state'' = ''/run''" "dir_of ''/etc/gate.toml'' = ''/etc''"
  by code_simp+

lemma demo_files: "\<exists>lf w. load_files demo_se demo_cfg demo_start_world = (Inr lf, w)"
proof -
  obtain st where st: "parse demo_raw = Inr st" "s_tunnels st = [\<lparr>t_name = ''wg'', t_conf = ''wg.conf''\<rparr>]"
    using demo_raw_parsed by blast
  obtain c where c: "Conf_parse demo_conf_text = Inr c" using demo_conf_parsed by blast
  have l: "config_load (se_toml demo_se) (demo_os with_token) ''/etc/gate.toml'' demo_start_world = Inr st"
    by (simp add: config_load_def demo_os_def demo_start_world_def demo_se_def st)
  have cs: "load_confs (demo_os with_token) st ''/etc'' demo_start_world = Inr [c]"
    by (simp add: load_confs_def st demo_os_def path_join_def c demo_start_world_def)
  have m: "se_mkdir demo_se p w = (Inr (), w)" "se_journal demo_se j w = (Inr (), w)" for p j w
    by (simp_all add: demo_se_def)
  have h: "hosts_load (demo_os with_token) ''/run/hosts.state'' demo_start_world = Inr []"
    by (simp add: hosts_load_def demo_os_def demo_start_world_def)
  show ?thesis
    by (simp add: load_files_def demo_cfg_def demo_se_os demo_dirs l cs open_sources_def m h Let_def split: prod.split)
qed

lemma demo_token_load: "\<exists>w'. Pf_load (demo_os with_token) dir s t w = (Inr (), w')"
  using demo_writes [where f = with_token and dir = dir and t = t and js = "[0..<length (sh_rules s)]" and w = w]
  by (auto simp: Pf_load_def run_def run_both_def) (simp add: demo_os_def with_token_def)

lemma demo_enable: "\<exists>w'. Pf_enable (demo_os with_token) dir w = (Inr (), w')"
proof -
  have "parse_token ''Token : 5'' = Some ''5''" by code_simp
  then show ?thesis
    by (simp add: Pf_enable_def run_def run_both_def write_private_def demo_os_def with_token_def opt_or_def Let_def
        split: option.split)
qed

lemma demo_token_sync:
  assumes "rv_pf r = Some dir"
  shows "\<exists>r' w'. sync_pf (alone demo_life_env) r w = (Inr (), r', w')"
proof -
  have o: "en_others (alone demo_life_env) s = s" "en_os (alone demo_life_env) = demo_os with_token" for s
    by (simp_all add: alone_def demo_life_env_def)
  obtain w' where "Pf_load (demo_os with_token) dir (resolver_shape r) (resolver_tables (r\<lparr>rv_pf_stale := False\<rparr>)) w = (Inr (), w')"
    using demo_token_load by blast
  moreover have "resolver_shape (r\<lparr>rv_pf_stale := False\<rparr>) = resolver_shape r" by (simp add: resolver_shape_def Let_def)
  ultimately show ?thesis by (auto simp: sync_pf_def assms o Let_def)
qed

lemma demo_switch: "\<exists>c r w'. switch_on demo_se demo_cfg lf w = (Inr (c, r), w')"
proof -
  let ?st = "lf_settings lf" and ?dir = "''/run''"
  obtain w1 where 1: "Pf_enable (demo_os with_token) ?dir w = (Inr (), w1)" using demo_enable by blast
  obtain hosts w2 where 2: "hosts_to_restore (demo_os with_token) ?st (lf_saved lf) (we_unix (se_we demo_se) w1) w1 = (hosts, w2)"
    by fastforce
  have f: "se_sockets demo_se a w = (Inr (), w)" "se_routes demo_se w = (Inr \<lparr>sock = [(route_key (Subnet (ip4 10 0 0 0) 8), 4)], seq = 0\<rparr>, w)"
    "we_env (se_we demo_se) = demo_life_env" for a w
    by (simp_all add: demo_se_def)
  let ?c = "Country_load (demo_os with_token) ?dir w2"
  let ?r = "start_resolver (lf_built lf) ?st (lf_confs lf) (ip4 1 1 1 1) \<lparr>sock = [(route_key (Subnet (ip4 10 0 0 0) 8), 4)], seq = 0\<rparr> ?dir
      LIMIT ?c hosts"
  obtain r' w' where 3: "sync_pf (alone demo_life_env) ?r w2 = (Inr (), r', w')"
    using demo_token_sync start_resolver_pf by blast
  have "dc_tunnel_dns demo_cfg = ip4 1 1 1 1" "dir_of (dc_state demo_cfg) = ?dir" by (simp_all add: demo_cfg_def demo_dirs)
  with 1 2 3 show ?thesis by (simp add: switch_on_def demo_se_os f)
qed

lemma demo_daemon_starts: "\<exists>links k r w'. daemon_start demo_se demo_cfg demo_start_world = (Inr (links, k, r), w')"
proof -
  obtain lf w where 1: "load_files demo_se demo_cfg demo_start_world = (Inr lf, w)" using demo_files by blast
  obtain c r w1 where 2: "switch_on demo_se demo_cfg lf w = (Inr (c, r), w1)" using demo_switch by blast
  show ?thesis by (simp add: daemon_start_def 1 2 split: prod.split)
qed

lemma demo_lives: "\<exists>k r w'. daemon_run demo_se demo_cfg [id, id] id demo_start_world = (Inr (k, r), w')"
  using demo_daemon_starts by (auto simp: daemon_run_def Let_def split: prod.split)

lemma demo_life_ok: "env_ok (we_env (se_we demo_se))" "kernel_obeys (en_kernel (we_env (se_we demo_se))) map_of"
  by (simp_all add: demo_se_def demo_life_env_def env_ok_def demo_env_def demo_kernel_obeys)

definition demo_loaded :: loaded_files where
  "demo_loaded = \<lparr>lf_settings = demo_settings, lf_confs = [demo_conf], lf_updater = demo_updater,
     lf_saved = [(ip4 203 0 115 9, \<lparr>ho_rule = ''abroad'', ho_last = 1000\<rparr>)], lf_built = Built_default\<rparr>"

end
