(* ===== verification/Install.thy ===== *)
theory Install
  imports Life
begin

text \<open>
  Model of \<open>src/install.rs\<close>: the daemon as a launchd service, put in place, started, stopped and
  swept away. The operations on the file system that no other component uses are a record \<open>fs\<close>;
  the loops that wait by the clock are partial functions, none when they do not end. Lines printed
  are left out, but for what an error says of the journal.
\<close>

section \<open>Steps\<close>

text \<open>
  A step gives an error or a value, and the world after it, or does not return; \<open>then_do\<close> is the
  question mark of the code.
\<close>

datatype install_error =
    Install_io io_error
  | Not_root
  | Cannot_load start_error
  | Confs_bad conf_file_error
  | Inside_etc path
  | Not_a_file path
  | Source_unread path io_error
  | Source_bad path check_error
  | Url_unfetched string io_error
  | Url_bad string check_error
  | Not_installed
  | Something_answers
  | Not_started string string
  | Does_not_exit

type_synonym ('a, 'w) step = "((install_error + 'a) \<times> 'w) option"

definition then_do :: "('a, 'w) step \<Rightarrow> ('a \<Rightarrow> 'w \<Rightarrow> ('b, 'w) step) \<Rightarrow> ('b, 'w) step" where
  "then_do m f = (case m of
      None \<Rightarrow> None
    | Some (Inl e, w) \<Rightarrow> Some (Inl e, w)
    | Some (Inr x, w) \<Rightarrow> f x w)"

definition done_io :: "'a io_result \<times> 'w \<Rightarrow> ('a, 'w) step" where
  "done_io m = (case m of (Inl e, w) \<Rightarrow> Some (Inl (Install_io e), w) | (Inr x, w) \<Rightarrow> Some (Inr x, w))"

definition step_ok :: "'a \<Rightarrow> 'w \<Rightarrow> ('a, 'w) step" where "step_ok x w = Some (Inr x, w)"
definition step_fail :: "install_error \<Rightarrow> 'w \<Rightarrow> ('a, 'w) step" where "step_fail e w = Some (Inl e, w)"

text \<open>\<open>?\<close> inside a function that gives an \<open>io::Result\<close>.\<close>

definition io_then :: "'a io_result \<times> 'w \<Rightarrow> ('a \<Rightarrow> 'w \<Rightarrow> 'b io_result \<times> 'w) \<Rightarrow> 'b io_result \<times> 'w" where
  "io_then m f = (case m of (Inl e, w) \<Rightarrow> (Inl e, w) | (Inr x, w) \<Rightarrow> f x w)"

text \<open>
  The file system past reading and writing: modes are numbers, \<open>fs_link\<close> is the target of a symbolic
  link, \<open>fs_there\<close> whether a name is there at all.
\<close>

record 'w fs =
  fs_create :: "path \<Rightarrow> nat \<Rightarrow> 'w \<Rightarrow> unit io_result \<times> 'w"
  fs_mode :: "path \<Rightarrow> nat \<Rightarrow> 'w \<Rightarrow> unit io_result \<times> 'w"
  fs_copy :: "path \<Rightarrow> path \<Rightarrow> 'w \<Rightarrow> unit io_result \<times> 'w"
  fs_chown :: "path \<Rightarrow> nat \<Rightarrow> nat \<Rightarrow> 'w \<Rightarrow> unit io_result \<times> 'w"
  fs_remove_all :: "path \<Rightarrow> 'w \<Rightarrow> unit io_result \<times> 'w"
  fs_symlink :: "path \<Rightarrow> path \<Rightarrow> 'w \<Rightarrow> unit io_result \<times> 'w"
  fs_is_file :: "path \<Rightarrow> 'w \<Rightarrow> bool"
  fs_canonical :: "path \<Rightarrow> 'w \<Rightarrow> path option"
  fs_link :: "path \<Rightarrow> 'w \<Rightarrow> path option"
  fs_there :: "path \<Rightarrow> 'w \<Rightarrow> bool"
  fs_length :: "path \<Rightarrow> 'w \<Rightarrow> nat option"
  fs_exe :: "'w \<Rightarrow> path io_result"

record 'w inst =
  in_os :: "'w os"
  in_procs :: "'w procs"
  in_fs :: "'w fs"
  in_net :: "'w net"
  in_lib :: dns_lib
  in_nanos :: "'w \<Rightarrow> u32"
  in_toml :: "string \<Rightarrow> string + raw_settings"

definition ends_with :: "string \<Rightarrow> string \<Rightarrow> bool" where
  "ends_with s p = starts_with (rev s) (rev p)"

fun is_substring :: "string \<Rightarrow> string \<Rightarrow> bool" where
  "is_substring p [] = (p = [])"
| "is_substring p (x # xs) = (starts_with (x # xs) p \<or> is_substring p xs)"

section \<open>Names and modes\<close>

definition SERVICE :: string where "SERVICE = ''system/mac-gate''"
definition LABEL :: string where "LABEL = ''mac-gate''"
definition LIBEXEC :: path where "LIBEXEC = ''/usr/local/libexec/mac-gate''"
definition ETC :: path where "ETC = ''/usr/local/etc/mac-gate''"
definition STATE_DIR :: path where "STATE_DIR = ''/var/db/mac-gate''"
definition STATE :: path where "STATE = ''/var/db/mac-gate/routes''"
definition JOURNAL :: path where "JOURNAL = ''/var/log/mac-gate.log''"
definition ERRLOG :: path where "ERRLOG = ''/var/log/mac-gate.err''"
definition PLIST :: path where "PLIST = ''/Library/LaunchDaemons/mac-gate.plist''"
definition LINK :: path where "LINK = ''/usr/local/bin/mac-gate''"
definition LAUNCHCTL :: path where "LAUNCHCTL = ''/bin/launchctl''"
definition INSTALL_STEP :: duration where "INSTALL_STEP = from_secs 10"
definition EXIT_WAIT :: duration where "EXIT_WAIT = from_secs 70"
definition READY_WAIT :: duration where "READY_WAIT = from_secs 30"
definition CONFIRM_WAIT :: duration where "CONFIRM_WAIT = from_secs 30"

abbreviation from_millis :: "nat \<Rightarrow> duration" where "from_millis n \<equiv> n * 1000000"

definition octal :: "nat \<Rightarrow> nat \<Rightarrow> nat \<Rightarrow> nat" where "octal u g o' = (u * 8 + g) * 8 + o'"

record install_sources =
  is_config :: path
  is_awg_go :: path
  is_awg :: path

definition bin_path :: "string \<Rightarrow> path" where "bin_path name = path_join LIBEXEC name"
definition settings_path :: path where "settings_path = path_join ETC ''mac-gate.toml''"
definition cache_path :: path where "cache_path = path_join STATE_DIR CACHE"

section \<open>The service\<close>

definition plist_args :: "string list" where
  "plist_args = [bin_path ''mac-gate'', ''run'', ''--config'', settings_path, ''--state'', STATE,
     ''--journal'', JOURNAL, ''--libexec'', LIBEXEC, ''--system-dns'']"

definition quoted :: "string \<Rightarrow> string" where "quoted s = [CHR 0x22] @ s @ [CHR 0x22]"

definition plist :: string where
  "plist =
     writeln (''<?xml version='' @ quoted ''1.0'' @ '' encoding='' @ quoted ''UTF-8'' @ ''?>'') @
     writeln (''<!DOCTYPE plist PUBLIC '' @ quoted ''-//Apple//DTD PLIST 1.0//EN'' @ '' '' @
       quoted ''http://www.apple.com/DTDs/PropertyList-1.0.dtd'' @ ''>'') @
     writeln (''<plist version='' @ quoted ''1.0'' @ ''>'') @
     writeln ''<dict>'' @
     writeln (''    <key>Label</key><string>'' @ LABEL @ ''</string>'') @
     writeln ''    <key>ProgramArguments</key>'' @
     writeln ''    <array>'' @
     foldl (\<lambda>s a. s @ writeln (''        <string>'' @ a @ ''</string>'')) [] plist_args @ writeln ''    </array>'' @
     writeln ''    <key>RunAtLoad</key><true/>'' @
     writeln ''    <key>KeepAlive</key><true/>'' @
     writeln ''    <key>ThrottleInterval</key><integer>1</integer>'' @
     writeln ''    <key>ExitTimeOut</key><integer>60</integer>'' @
     writeln (''    <key>StandardErrorPath</key><string>'' @ ERRLOG @ ''</string>'') @
     writeln ''</dict>'' @
     writeln ''</plist>''"

section \<open>Files put in place\<close>

definition require_root :: "'w os \<Rightarrow> 'w \<Rightarrow> (unit, 'w) step" where
  "require_root os w =
     then_do (done_io (run os ''/usr/bin/id'' [''-u''] None INSTALL_STEP w))
       (\<lambda>out w. if trim out = ''0'' then step_ok () w else step_fail Not_root w)"

definition ignore_missing :: "unit io_result \<times> 'w \<Rightarrow> unit io_result \<times> 'w" where
  "ignore_missing m = (case m of (Inl e, w) \<Rightarrow> (if e = NotFound then Inr () else Inl e, w) | (Inr u, w) \<Rightarrow> (Inr u, w))"

definition make_dir :: "'w fs \<Rightarrow> path \<Rightarrow> nat \<Rightarrow> 'w \<Rightarrow> unit io_result \<times> 'w" where
  "make_dir fs p mode w = io_then (fs_create fs p mode w) (\<lambda>_. fs_mode fs p mode)"

definition new_name :: "path \<Rightarrow> path" where "new_name to = to @ ''.new''"

definition put :: "'w os \<Rightarrow> 'w fs \<Rightarrow> path \<Rightarrow> path \<Rightarrow> nat \<Rightarrow> 'w \<Rightarrow> unit io_result \<times> 'w" where
  "put os fs from to mode w =
     (let tmp = new_name to in
      io_then (ignore_missing (os_remove os tmp w)) (\<lambda>_ w.
      io_then (fs_copy fs from tmp w) (\<lambda>_ w.
      io_then (fs_chown fs tmp 0 0 w) (\<lambda>_ w.
      io_then (fs_mode fs tmp mode w) (\<lambda>_. os_rename os tmp to)))))"

definition put_text :: "'w os \<Rightarrow> 'w fs \<Rightarrow> string \<Rightarrow> path \<Rightarrow> nat \<Rightarrow> 'w \<Rightarrow> unit io_result \<times> 'w" where
  "put_text os fs txt to mode w =
     (let tmp = new_name to in
      io_then (os_write os tmp txt w) (\<lambda>_ w. io_then (fs_mode fs tmp mode w) (\<lambda>_. os_rename os tmp to)))"

definition base_of :: "path \<Rightarrow> path" where
  "base_of p = (let d = path_parent p in if d = [] then ''.'' else d)"

fun put_each :: "'w os \<Rightarrow> 'w fs \<Rightarrow> path \<Rightarrow> (path \<times> nat) list \<Rightarrow> nat \<Rightarrow> 'w \<Rightarrow> nat io_result \<times> 'w" where
  "put_each os fs base [] n w = (Inr n, w)"
| "put_each os fs base ((rel, mode) # rest) n w =
     (let to = path_join ETC rel in
      io_then (make_dir fs (path_parent to) (octal 7 0 0) w) (\<lambda>_ w.
      io_then (put os fs (path_join base rel) to mode w) (\<lambda>_. put_each os fs base rest (n + 1))))"

definition put_files :: "'w os \<Rightarrow> 'w fs \<Rightarrow> settings \<Rightarrow> path \<Rightarrow> 'w \<Rightarrow> nat io_result \<times> 'w" where
  "put_files os fs st base w =
     io_then (ignore_missing (fs_remove_all fs ETC w)) (\<lambda>_ w.
     io_then (make_dir fs ETC (octal 7 0 0) w) (\<lambda>_.
       put_each os fs base (map (\<lambda>rel. (rel, octal 6 4 4)) (files st) @
         map (\<lambda>t. (t_conf t, octal 6 0 0)) (s_tunnels st)) 0))"

section \<open>The sources\<close>

fun check_files :: "'w os \<Rightarrow> path \<Rightarrow> path list \<Rightarrow> 'w \<Rightarrow> (unit, 'w) step" where
  "check_files os base [] w = step_ok () w"
| "check_files os base (rel # rest) w =
     (let p = path_join base rel in
      case os_read os p w of
        Inl e \<Rightarrow> step_fail (Source_unread p e) w
      | Inr txt \<Rightarrow> (case check_list txt of Inl e \<Rightarrow> step_fail (Source_bad p e) w | Inr n \<Rightarrow> check_files os base rest w))"

fun check_urls :: "'w os \<Rightarrow> 'w fs \<Rightarrow> string list \<Rightarrow> (string \<times> string) list \<Rightarrow> 'w \<Rightarrow> ((string \<times> string) list, 'w) step" where
  "check_urls os fs [] got w = step_ok got w"
| "check_urls os fs (url # rest) got w =
     (let (res, w) = fetch os url None w;
          kept = fs_is_file fs (cache_file cache_path url) w
      in case res of
           Inl e \<Rightarrow> if kept then check_urls os fs rest got w else step_fail (Url_unfetched url e) w
         | Inr txt \<Rightarrow>
             (case check_list txt of
                Inr n \<Rightarrow> check_urls os fs rest (got @ [(url, txt)]) w
              | Inl e \<Rightarrow> if kept then check_urls os fs rest got w else step_fail (Url_bad url e) w))"

definition check_sources :: "'w os \<Rightarrow> 'w fs \<Rightarrow> settings \<Rightarrow> path \<Rightarrow> 'w \<Rightarrow> ((string \<times> string) list, 'w) step" where
  "check_sources os fs st base w =
     then_do (check_files os base (files st) w) (\<lambda>_. check_urls os fs (urls st) [])"

section \<open>Stopping\<close>

definition service_loaded :: "'w os \<Rightarrow> 'w \<Rightarrow> bool \<times> 'w" where
  "service_loaded os w =
     (case run os LAUNCHCTL [''print'', SERVICE] None INSTALL_STEP w of (Inl _, w) \<Rightarrow> (False, w) | (Inr _, w) \<Rightarrow> (True, w))"

fun sweep_names :: "'w os \<Rightarrow> string list \<Rightarrow> 'w \<Rightarrow> 'w" where
  "sweep_names os [] w = w"
| "sweep_names os (n # ns) w =
     sweep_names os ns
       (if starts_with n ''mac-gate-'' \<and> ends_with n ''.name'' then snd (os_remove os (path_join RUN_DIR n) w) else w)"

definition installed_tools :: tools where
  "installed_tools = \<lparr>tl_go = bin_path ''amneziawg-go'', tl_awg = bin_path ''awg'', tl_run_dir = RUN_DIR\<rparr>"

definition owner_flag :: path where "owner_flag = path_join STATE_DIR OWNER_FLAG"

definition sweep :: "'w os \<Rightarrow> 'w \<Rightarrow> (unit, 'w) step" where
  "sweep os w =
     (let (strays, w) = kill_strays os installed_tools w;
          w = (case os_list os RUN_DIR w of Inr ns \<Rightarrow> sweep_names os ns w | Inl _ \<Rightarrow> w)
      in then_do (if path_exists os STATE_DIR TOKEN_FILE w then done_io (Pf_release os STATE_DIR w) else step_ok () w) (\<lambda>_ w.
         then_do (if dns_saved os STATE_DIR w then done_io (give_back os STATE_DIR w) else step_ok 0 w) (\<lambda>_ w.
           done_io (ignore_missing (os_remove os owner_flag w)))))"

text \<open>The wait for the daemon to exit: whether it did within \<open>EXIT_WAIT\<close>.\<close>

definition daemon_pattern :: string where "daemon_pattern = bin_path ''mac-gate'' @ '' run .*''"

partial_function (option) wait_exit :: "'w os \<Rightarrow> 'w procs \<Rightarrow> instant \<Rightarrow> 'w \<Rightarrow> (bool \<times> 'w) option" where
  "wait_exit os pc start w =
     (case run os ''/usr/bin/pgrep'' [''-f'', ''-x'', daemon_pattern] None INSTALL_STEP w of
        (Inl _, w) \<Rightarrow> Some (True, w)
      | (Inr _, w) \<Rightarrow>
          if EXIT_WAIT \<le> pc_now pc w - start then Some (False, w)
          else wait_exit os pc start (pc_sleep pc (from_millis 200) w))"

definition bootout :: "'w os \<Rightarrow> 'w \<Rightarrow> (unit, 'w) step" where
  "bootout os w =
     (case service_loaded os w of
        (True, w) \<Rightarrow> then_do (done_io (run os LAUNCHCTL [''bootout'', SERVICE] None EXIT_WAIT w)) (\<lambda>_. step_ok ())
      | (False, w) \<Rightarrow> step_ok () w)"

definition stop_service :: "'w os \<Rightarrow> 'w procs \<Rightarrow> 'w \<Rightarrow> (unit, 'w) step" where
  "stop_service os pc w =
     then_do (bootout os w) (\<lambda>_ w.
     then_do (done_io (ignore_missing (os_remove os PLIST w))) (\<lambda>_ w.
       case wait_exit os pc (pc_now pc w) w of
         None \<Rightarrow> None
       | Some (gone, w) \<Rightarrow> if gone then sweep os w else step_fail Does_not_exit w))"

section \<open>Starting\<close>

definition LOCAL_DNS :: upstream where
  "LOCAL_DNS = \<lparr>up_server = (ip_of_octets 127 0 0 1, 53), up_bound_if = None\<rparr>"

definition local_answers :: "'w inst \<Rightarrow> duration \<Rightarrow> 'w \<Rightarrow> bool \<times> 'w" where
  "local_answers i limit w =
     (case query_a (in_net i) (in_lib i) (in_nanos i w) LOCAL_DNS ''example.com.'' limit w of
        (Inl _, w) \<Rightarrow> (False, w) | (Inr _, w) \<Rightarrow> (True, w))"

definition journal_len :: "'w fs \<Rightarrow> 'w \<Rightarrow> nat" where
  "journal_len fs w = (case fs_length fs JOURNAL w of None \<Rightarrow> 0 | Some n \<Rightarrow> n)"

definition read_or_empty :: "'w os \<Rightarrow> path \<Rightarrow> 'w \<Rightarrow> string" where
  "read_or_empty os p w = (case os_read os p w of Inl _ \<Rightarrow> [] | Inr txt \<Rightarrow> txt)"

definition journal_since :: "'w os \<Rightarrow> nat \<Rightarrow> 'w \<Rightarrow> string" where
  "journal_since os from w = drop from (read_or_empty os JOURNAL w)"

definition tail_lines :: "string \<Rightarrow> nat \<Rightarrow> string" where
  "tail_lines txt n = (let ls = lines txt in join [NL] (drop (length ls - n) ls))"

text \<open>Whether an answer came within \<open>READY_WAIT\<close>.\<close>

partial_function (option) wait_ready_dns :: "'w inst \<Rightarrow> instant \<Rightarrow> 'w \<Rightarrow> (bool \<times> 'w) option" where
  "wait_ready_dns i start w =
     (if pc_now (in_procs i) w - start < READY_WAIT
      then (let (came, w) = local_answers i (from_secs 2) w in
            if came then Some (True, w)
            else wait_ready_dns i start (pc_sleep (in_procs i) (from_millis 500) w))
      else Some (False, w))"

text \<open>The line of the journal that says a tunnel was confirmed, and the one of the DNS, if they came.\<close>

definition line_with :: "string \<Rightarrow> string \<Rightarrow> string option" where
  "line_with part txt = List.find (\<lambda>l. is_substring part l) (lines txt)"

partial_function (option) wait_confirm ::
    "'w os \<Rightarrow> 'w procs \<Rightarrow> nat \<Rightarrow> instant \<Rightarrow> 'w \<Rightarrow> ((string \<times> string option) option \<times> 'w) option" where
  "wait_confirm os pc from start w =
     (if pc_now pc w - start < CONFIRM_WAIT
      then (let seen = journal_since os from w in
            case line_with '' confirm '' seen of
              Some line \<Rightarrow> Some (Some (line, line_with '' dns '' seen), w)
            | None \<Rightarrow> wait_confirm os pc from start (pc_sleep pc (from_millis 500) w))
      else Some (None, w))"

text \<open>
  The wait for the answers of a service that launchd took; without one it is taken back. \<open>from\<close> is the
  length of the journal before.
\<close>

definition await_service :: "'w inst \<Rightarrow> nat \<Rightarrow> 'w \<Rightarrow> ((string \<times> string option) option, 'w) step" where
  "await_service i from w =
     (let os = in_os i; pc = in_procs i; start = pc_now pc w in
      case wait_ready_dns i start w of
        None \<Rightarrow> None
      | Some (came, w) \<Rightarrow>
          if \<not> came
          then (let seen = tail_lines (journal_since os from w) 10;
                    err = tail_lines (read_or_empty os ERRLOG w) 10
                in then_do (stop_service os pc w) (\<lambda>_. step_fail (Not_started seen err)))
          else map_option (\<lambda>(line, w). (Inr line, w)) (wait_confirm os pc from start w))"

definition start_service :: "'w inst \<Rightarrow> 'w \<Rightarrow> ((string \<times> string option) option, 'w) step" where
  "start_service i w =
     (let os = in_os i; (other, w) = local_answers i (from_secs 1) w in
      if other then step_fail Something_answers w
      else then_do (done_io (put_text os (in_fs i) plist PLIST (octal 6 4 4) w)) (\<lambda>_ w.
        let from = journal_len (in_fs i) w in
        case run os LAUNCHCTL [''bootstrap'', ''system'', PLIST] None INSTALL_STEP w of
          (Inl e, w) \<Rightarrow> then_do (done_io (ignore_missing (os_remove os PLIST w))) (\<lambda>_. step_fail (Install_io e))
        | (Inr _, w) \<Rightarrow> await_service i from w))"

section \<open>The commands\<close>

definition link_command :: "'w fs \<Rightarrow> 'w \<Rightarrow> 'w" where
  "link_command fs w =
     (let target = bin_path ''mac-gate'' in
      if fs_link fs LINK w = Some target then w
      else if fs_there fs LINK w then w
      else snd (fs_symlink fs target LINK w))"

definition unlink_command :: "'w os \<Rightarrow> 'w fs \<Rightarrow> 'w \<Rightarrow> unit io_result \<times> 'w" where
  "unlink_command os fs w =
     (if fs_link fs LINK w = Some (bin_path ''mac-gate'') then os_remove os LINK w else (Inr (), w))"

fun write_caches :: "'w os \<Rightarrow> (string \<times> string) list \<Rightarrow> 'w \<Rightarrow> unit io_result \<times> 'w" where
  "write_caches os [] w = (Inr (), w)"
| "write_caches os ((url, txt) # rest) w =
     io_then (write_cache os (cache_file cache_path url) txt w) (\<lambda>_. write_caches os rest)"

text \<open>What is checked before anything changes.\<close>

definition inspect_install ::
    "'w inst \<Rightarrow> install_sources \<Rightarrow> settings \<Rightarrow> 'w \<Rightarrow> (settings \<times> (string \<times> string) list \<times> path, 'w) step" where
  "inspect_install i src st w =
     (let os = in_os i; fs = in_fs i; base = base_of (is_config src) in
      if fs_canonical fs base w = fs_canonical fs ETC w then step_fail (Inside_etc (is_config src)) w
      else (case load_confs os st base w of
              Inl e \<Rightarrow> step_fail (Confs_bad e) w
            | Inr confs \<Rightarrow>
                (case List.find (\<lambda>f. \<not> fs_is_file fs f w) [is_awg_go src, is_awg src] of
                   Some f \<Rightarrow> step_fail (Not_a_file f) w
                 | None \<Rightarrow>
                     then_do (check_sources os fs st base w) (\<lambda>fetched w.
                       case fs_exe fs w of
                         Inl e \<Rightarrow> step_fail (Install_io e) w
                       | Inr me \<Rightarrow> step_ok (st, fetched, me) w))))"

definition check_install :: "'w inst \<Rightarrow> install_sources \<Rightarrow> 'w \<Rightarrow> (settings \<times> (string \<times> string) list \<times> path, 'w) step" where
  "check_install i src w =
     then_do (require_root (in_os i) w) (\<lambda>_ w.
       case config_load (in_toml i) (in_os i) (is_config src) w of
         Inl e \<Rightarrow> step_fail (Cannot_load e) w
       | Inr st \<Rightarrow> inspect_install i src st w)"

definition place_install ::
    "'w inst \<Rightarrow> install_sources \<Rightarrow> settings \<Rightarrow> (string \<times> string) list \<Rightarrow> path \<Rightarrow> 'w \<Rightarrow> unit io_result \<times> 'w" where
  "place_install i src st fetched me w =
     (let os = in_os i; fs = in_fs i; base = base_of (is_config src) in
      io_then (make_dir fs LIBEXEC (octal 7 5 5) w) (\<lambda>_ w.
      io_then (put os fs me (bin_path ''mac-gate'') (octal 7 5 5) w) (\<lambda>_ w.
      io_then (put os fs (is_awg_go src) (bin_path ''amneziawg-go'') (octal 7 5 5) w) (\<lambda>_ w.
      io_then (put os fs (is_awg src) (bin_path ''awg'') (octal 7 5 5) w) (\<lambda>_ w.
      io_then (put_files os fs st base w) (\<lambda>_ w.
      io_then (put os fs (is_config src) settings_path (octal 6 4 4) w) (\<lambda>_ w.
      io_then (make_dir fs STATE_DIR (octal 7 0 0) w) (\<lambda>_ w.
      io_then (make_dir fs cache_path (octal 7 0 0) w) (\<lambda>_. write_caches os fetched)))))))))"

definition install :: "'w inst \<Rightarrow> install_sources \<Rightarrow> 'w \<Rightarrow> ((string \<times> string option) option, 'w) step" where
  "install i src w =
     then_do (check_install i src w) (\<lambda>(st, fetched, me) w.
     then_do (stop_service (in_os i) (in_procs i) w) (\<lambda>_ w.
     then_do (done_io (place_install i src st fetched me w)) (\<lambda>_ w.
       start_service i (link_command (in_fs i) w))))"

fun remove_dirs :: "'w fs \<Rightarrow> path list \<Rightarrow> 'w \<Rightarrow> unit io_result \<times> 'w" where
  "remove_dirs fs [] w = (Inr (), w)"
| "remove_dirs fs (d # ds) w = io_then (ignore_missing (fs_remove_all fs d w)) (\<lambda>_. remove_dirs fs ds)"

fun remove_files :: "'w os \<Rightarrow> path list \<Rightarrow> 'w \<Rightarrow> unit io_result \<times> 'w" where
  "remove_files os [] w = (Inr (), w)"
| "remove_files os (f # fs) w = io_then (ignore_missing (os_remove os f w)) (\<lambda>_. remove_files os fs)"

definition uninstall :: "'w inst \<Rightarrow> 'w \<Rightarrow> (unit, 'w) step" where
  "uninstall i w =
     (let os = in_os i; fs = in_fs i in
      then_do (require_root os w) (\<lambda>_ w.
      then_do (stop_service os (in_procs i) w) (\<lambda>_ w.
      then_do (done_io (unlink_command os fs w)) (\<lambda>_ w.
      then_do (done_io (remove_dirs fs [LIBEXEC, ETC, STATE_DIR] w)) (\<lambda>_ w.
        done_io (remove_files os [JOURNAL, ERRLOG] w))))))"

definition turn_on :: "'w inst \<Rightarrow> 'w \<Rightarrow> ((string \<times> string option) option, 'w) step" where
  "turn_on i w =
     (let os = in_os i in
      then_do (require_root os w) (\<lambda>_ w.
        if \<not> fs_is_file (in_fs i) (bin_path ''mac-gate'') w then step_fail Not_installed w
        else (case service_loaded os w of
                (True, w) \<Rightarrow> step_ok None w
              | (False, w) \<Rightarrow> start_service i w)))"

definition turn_off :: "'w inst \<Rightarrow> 'w \<Rightarrow> (unit, 'w) step" where
  "turn_off i w = then_do (require_root (in_os i) w) (\<lambda>_. stop_service (in_os i) (in_procs i))"

end
