(* ===== verification/Cli.thy ===== *)
theory Cli
  imports Install
begin

text \<open>
  Model of the command line of \<open>src/main.rs\<close>: the arguments of every command, their defaults and the
  errors. Shown: the service that an installation puts in place is a command line the program takes,
  and what it takes of it is what the installation wrote.
\<close>

section \<open>Commands and errors\<close>

definition TUNNEL_DNS :: ipv4 where "TUNNEL_DNS = ip_of_octets 1 1 1 1"
definition LOCALHOST :: ipv4 where "LOCALHOST = ip_of_octets 127 0 0 1"

record resolve_args =
  ra_lists :: path
  ra_tunnel :: string
  ra_network_dns :: ipv4
  ra_tunnel_dns :: ipv4
  ra_listen :: sock_addr
  ra_use_fakeip :: bool
  ra_journal :: "path option"

datatype cmd =
    Cmd_Resolve resolve_args
  | Cmd_Run daemon_config
  | Cmd_Killswitch bool path
  | Cmd_Country "string option" path
  | Cmd_Update path
  | Cmd_Install install_sources
  | Cmd_Uninstall
  | Cmd_On
  | Cmd_Off

datatype cli_error =
    Usage
  | Bad_value string string
  | Required string
  | Needs_value string
  | Unknown_argument string
  | No_country string
  | Conf_moved

definition USAGE :: string where
  "USAGE = join [NL]
     [''usage:'',
      ''  mac-gate install --config FILE --awg-go FILE --awg FILE'',
      ''  mac-gate uninstall | on | off'',
      ''  mac-gate killswitch on|off [--state FILE]'',
      ''  mac-gate country CODE|auto [--state FILE]'',
      ''  mac-gate update [--state FILE]'',
      ''  mac-gate run --config FILE --state FILE [--journal FILE]'',
      ''      [--listen ADDR:PORT] [--tunnel-dns ADDR] [--libexec DIR] [--window-min N]'',
      ''      [--use-fakeip auto|off] [--system-dns]'',
      ''  mac-gate resolve --lists DIR --tunnel IF --network-dns ADDR'',
      ''      [--tunnel-dns ADDR] [--listen ADDR:PORT] [--use-fakeip] [--journal FILE]'']"

fun show_cli_error :: "cli_error \<Rightarrow> string" where
  "show_cli_error Usage = USAGE"
| "show_cli_error (Bad_value flag v) = flag @ '': bad value '' @ v"
| "show_cli_error (Required flag) = flag @ '' is required'' @ [NL] @ USAGE"
| "show_cli_error (Needs_value flag) = flag @ '' needs a value'' @ [NL] @ USAGE"
| "show_cli_error (Unknown_argument flag) = ''unknown argument '' @ flag @ [NL] @ USAGE"
| "show_cli_error (No_country c) = ''country: '' @ c @ '' is not a code of two letters'' @ [NL] @ USAGE"
| "show_cli_error Conf_moved = ''--conf: the tunnels are in the settings now, [[tunnel]] with conf = FILE''"

definition required :: "'a option \<Rightarrow> string \<Rightarrow> cli_error + 'a" where
  "required v flag = (case v of None \<Rightarrow> Inl (Required flag) | Some x \<Rightarrow> Inr x)"

definition parsed :: "(string \<Rightarrow> 'a option) \<Rightarrow> string \<Rightarrow> string \<Rightarrow> cli_error + 'a" where
  "parsed p flag v = (case p v of None \<Rightarrow> Inl (Bad_value flag v) | Some x \<Rightarrow> Inr x)"

text \<open>The question mark of the code, and \<open>map\<close> on a result.\<close>

definition res_then :: "'e + 'a \<Rightarrow> ('a \<Rightarrow> 'e + 'b) \<Rightarrow> 'e + 'b" where
  "res_then r f = (case r of Inl e \<Rightarrow> Inl e | Inr x \<Rightarrow> f x)"

abbreviation res_map :: "('a \<Rightarrow> 'b) \<Rightarrow> 'e + 'a \<Rightarrow> 'e + 'b" where
  "res_map f r \<equiv> res_then r (\<lambda>x. Inr (f x))"

section \<open>Commands without flags\<close>

definition bare :: "string list \<Rightarrow> cmd \<Rightarrow> cli_error + cmd" where
  "bare args c = (case args of [] \<Rightarrow> Inr c | _ \<Rightarrow> Inl Usage)"

definition state_arg :: "string list \<Rightarrow> cli_error + path" where
  "state_arg args =
     (case args of
        [] \<Rightarrow> Inr STATE
      | [flag, state] \<Rightarrow> if flag = ''--state'' then Inr state else Inl Usage
      | _ \<Rightarrow> Inl Usage)"

definition parse_killswitch :: "string list \<Rightarrow> cli_error + cmd" where
  "parse_killswitch args =
     (case args of
        [] \<Rightarrow> Inl Usage
      | word # rest \<Rightarrow>
          if word = ''on'' then res_map (Cmd_Killswitch True) (state_arg rest)
          else if word = ''off'' then res_map (Cmd_Killswitch False) (state_arg rest)
          else Inl Usage)"

definition parse_country :: "string list \<Rightarrow> cli_error + cmd" where
  "parse_country args =
     (case args of
        [] \<Rightarrow> Inl Usage
      | c # rest \<Rightarrow>
          res_then (if c = ''auto'' then Inr None
                    else let upper = to_upper c in
                      if country_code upper = None then Inl (No_country c) else Inr (Some upper))
            (\<lambda>code. res_map (Cmd_Country code) (state_arg rest)))"

section \<open>Commands with flags\<close>

record install_flags =
  if_config :: "path option"
  if_awg_go :: "path option"
  if_awg :: "path option"

fun install_loop :: "string list \<Rightarrow> install_flags \<Rightarrow> cli_error + install_flags" where
  "install_loop [] a = Inr a"
| "install_loop (flag # rest) a =
     (if flag = ''--conf'' then Inl Conf_moved
      else (case rest of
              [] \<Rightarrow> Inl (Needs_value flag)
            | v # rest \<Rightarrow>
                if flag = ''--config'' then install_loop rest (a\<lparr>if_config := Some v\<rparr>)
                else if flag = ''--awg-go'' then install_loop rest (a\<lparr>if_awg_go := Some v\<rparr>)
                else if flag = ''--awg'' then install_loop rest (a\<lparr>if_awg := Some v\<rparr>)
                else Inl (Unknown_argument flag)))"

definition parse_install :: "string list \<Rightarrow> cli_error + install_sources" where
  "parse_install args =
     res_then (install_loop args \<lparr>if_config = None, if_awg_go = None, if_awg = None\<rparr>) (\<lambda>a.
     res_then (required (if_config a) ''--config'') (\<lambda>config.
     res_then (required (if_awg_go a) ''--awg-go'') (\<lambda>awg_go.
     res_map (\<lambda>awg. \<lparr>is_config = config, is_awg_go = awg_go, is_awg = awg\<rparr>) (required (if_awg a) ''--awg''))))"

record resolve_flags =
  rf_lists :: "path option"
  rf_tunnel :: "string option"
  rf_network_dns :: "ipv4 option"
  rf_tunnel_dns :: ipv4
  rf_listen :: sock_addr
  rf_use_fakeip :: bool
  rf_journal :: "path option"

definition resolve_default :: resolve_flags where
  "resolve_default =
     \<lparr>rf_lists = None, rf_tunnel = None, rf_network_dns = None, rf_tunnel_dns = TUNNEL_DNS,
      rf_listen = Sock_V4 LOCALHOST 5300, rf_use_fakeip = False, rf_journal = None\<rparr>"

definition resolve_flag :: "string \<Rightarrow> string \<Rightarrow> resolve_flags \<Rightarrow> cli_error + resolve_flags" where
  "resolve_flag flag v a =
     (if flag = ''--lists'' then Inr (a\<lparr>rf_lists := Some v\<rparr>)
      else if flag = ''--tunnel'' then Inr (a\<lparr>rf_tunnel := Some v\<rparr>)
      else if flag = ''--network-dns'' then res_map (\<lambda>ip. a\<lparr>rf_network_dns := Some ip\<rparr>) (parsed parse_ip flag v)
      else if flag = ''--tunnel-dns'' then res_map (\<lambda>ip. a\<lparr>rf_tunnel_dns := ip\<rparr>) (parsed parse_ip flag v)
      else if flag = ''--listen'' then res_map (\<lambda>l. a\<lparr>rf_listen := l\<rparr>) (parsed parse_sock flag v)
      else if flag = ''--journal'' then Inr (a\<lparr>rf_journal := Some v\<rparr>)
      else Inl (Unknown_argument flag))"

fun resolve_loop :: "string list \<Rightarrow> resolve_flags \<Rightarrow> cli_error + resolve_flags" where
  "resolve_loop [] a = Inr a"
| "resolve_loop (flag # rest) a =
     (if flag = ''--use-fakeip'' then resolve_loop rest (a\<lparr>rf_use_fakeip := True\<rparr>)
      else (case rest of
              [] \<Rightarrow> Inl (Needs_value flag)
            | v # rest \<Rightarrow> (case resolve_flag flag v a of Inl e \<Rightarrow> Inl e | Inr a \<Rightarrow> resolve_loop rest a)))"

definition parse_resolve :: "string list \<Rightarrow> cli_error + resolve_args" where
  "parse_resolve args =
     res_then (resolve_loop args resolve_default) (\<lambda>a.
     res_then (required (rf_lists a) ''--lists'') (\<lambda>lists_dir.
     res_then (required (rf_tunnel a) ''--tunnel'') (\<lambda>tun.
     res_map (\<lambda>dns. \<lparr>ra_lists = lists_dir, ra_tunnel = tun, ra_network_dns = dns, ra_tunnel_dns = rf_tunnel_dns a,
         ra_listen = rf_listen a, ra_use_fakeip = rf_use_fakeip a, ra_journal = rf_journal a\<rparr>)
       (required (rf_network_dns a) ''--network-dns''))))"

record run_flags =
  fl_config :: "path option"
  fl_state :: "path option"
  fl_journal :: "path option"
  fl_listen :: sock_addr
  fl_tunnel_dns :: ipv4
  fl_libexec :: path
  fl_window :: nat
  fl_use_fakeip :: bool
  fl_system_dns :: bool

definition run_default :: run_flags where
  "run_default =
     \<lparr>fl_config = None, fl_state = None, fl_journal = None, fl_listen = Sock_V4 LOCALHOST 53,
      fl_tunnel_dns = TUNNEL_DNS, fl_libexec = LIBEXEC, fl_window = 24 * 3600, fl_use_fakeip = True,
      fl_system_dns = False\<rparr>"

definition auto_off :: "string \<Rightarrow> bool option" where
  "auto_off v = (if v = ''auto'' then Some True else if v = ''off'' then Some False else None)"

text \<open>\<open>saturating_mul\<close> of sixty on a \<open>u64\<close>.\<close>

definition minutes :: "nat \<Rightarrow> nat" where "minutes n = min (n * 60) (2 ^ 64 - 1)"

definition run_flag :: "string \<Rightarrow> string \<Rightarrow> run_flags \<Rightarrow> cli_error + run_flags" where
  "run_flag flag v a =
     (if flag = ''--config'' then Inr (a\<lparr>fl_config := Some v\<rparr>)
      else if flag = ''--state'' then Inr (a\<lparr>fl_state := Some v\<rparr>)
      else if flag = ''--journal'' then Inr (a\<lparr>fl_journal := Some v\<rparr>)
      else if flag = ''--listen'' then res_map (\<lambda>l. a\<lparr>fl_listen := l\<rparr>) (parsed parse_sock flag v)
      else if flag = ''--tunnel-dns'' then res_map (\<lambda>ip. a\<lparr>fl_tunnel_dns := ip\<rparr>) (parsed parse_ip flag v)
      else if flag = ''--libexec'' then Inr (a\<lparr>fl_libexec := v\<rparr>)
      else if flag = ''--window-min''
        then res_map (\<lambda>n. a\<lparr>fl_window := minutes n\<rparr>) (parsed (parse_uint (2 ^ 64 - 1)) flag v)
      else if flag = ''--use-fakeip'' then res_map (\<lambda>b. a\<lparr>fl_use_fakeip := b\<rparr>) (parsed auto_off flag v)
      else Inl (Unknown_argument flag))"

fun run_loop :: "string list \<Rightarrow> run_flags \<Rightarrow> cli_error + run_flags" where
  "run_loop [] a = Inr a"
| "run_loop (flag # rest) a =
     (if flag = ''--system-dns'' then run_loop rest (a\<lparr>fl_system_dns := True\<rparr>)
      else (case rest of
              [] \<Rightarrow> Inl (Needs_value flag)
            | v # rest \<Rightarrow> (case run_flag flag v a of Inl e \<Rightarrow> Inl e | Inr a \<Rightarrow> run_loop rest a)))"

definition parse_run :: "string list \<Rightarrow> cli_error + daemon_config" where
  "parse_run args =
     res_then (run_loop args run_default) (\<lambda>a.
     res_then (required (fl_config a) ''--config'') (\<lambda>config.
     res_map (\<lambda>state. \<lparr>dc_settings = config, dc_state = state, dc_journal = fl_journal a, dc_listen = fl_listen a,
         dc_tunnel_dns = fl_tunnel_dns a, dc_libexec = fl_libexec a, dc_window = fl_window a,
         dc_use_fakeip = fl_use_fakeip a, dc_system_dns = fl_system_dns a\<rparr>)
       (required (fl_state a) ''--state'')))"

section \<open>The command line\<close>

definition parse_args :: "string list \<Rightarrow> cli_error + cmd" where
  "parse_args args =
     (case args of
        [] \<Rightarrow> Inl Usage
      | word # rest \<Rightarrow>
          if word = ''resolve'' then res_map Cmd_Resolve (parse_resolve rest)
          else if word = ''run'' then res_map Cmd_Run (parse_run rest)
          else if word = ''killswitch'' then parse_killswitch rest
          else if word = ''country'' then parse_country rest
          else if word = ''update'' then res_map Cmd_Update (state_arg rest)
          else if word = ''install'' then res_map Cmd_Install (parse_install rest)
          else if word = ''uninstall'' then bare rest Cmd_Uninstall
          else if word = ''on'' then bare rest Cmd_On
          else if word = ''off'' then bare rest Cmd_Off
          else Inl Usage)"

section \<open>What is taken\<close>

lemma res_then_Inr: "res_then r f = Inr y \<longleftrightarrow> (\<exists>x. r = Inr x \<and> f x = Inr y)"
  by (auto simp: res_then_def split: sum.splits)

lemma required_Inr: "required v flag = Inr x \<longleftrightarrow> v = Some x"
  by (auto simp: required_def split: option.splits)

text \<open>The window of a run, in seconds, fits a \<open>u64\<close>.\<close>

lemma run_loop_window:
  "run_loop args a = Inr b \<Longrightarrow> fl_window a < 2 ^ 64 \<Longrightarrow> fl_window b < 2 ^ 64"
proof (induction args a rule: run_loop.induct)
  case (2 flag rest a)
  have "fl_window x < 2 ^ 64" if "run_flag flag v a = Inr x" for v x
    using that "2.prems"(2) by (auto simp: run_flag_def res_then_Inr minutes_def split: if_splits)
  then show ?case using 2 by (auto split: if_splits list.splits sum.splits)
qed simp

lemma run_window: "parse_args args = Inr (Cmd_Run c) \<Longrightarrow> dc_window c < 2 ^ 64"
proof -
  assume p: "parse_args args = Inr (Cmd_Run c)"
  obtain rest where r: "parse_run rest = Inr c"
  proof (cases args)
    case (Cons a as)
    with p that show thesis
      by (auto simp: parse_args_def res_then_Inr parse_killswitch_def parse_country_def bare_def
          split: if_splits list.splits)
  qed (use p in \<open>simp add: parse_args_def\<close>)
  then obtain a where a: "run_loop rest run_default = Inr a" "dc_window c = fl_window a"
    by (auto simp: parse_run_def res_then_Inr)
  from run_loop_window [OF a(1)] a(2) show ?thesis by (simp add: run_default_def)
qed

text \<open>A country that is taken reads as a code, also from a line of a file.\<close>

lemma country_taken:
  assumes "parse_args args = Inr (Cmd_Country (Some code) state)"
  shows "country_code code \<noteq> None"
  using assms by (cases args)
    (auto simp: parse_args_def res_then_Inr parse_killswitch_def parse_country_def bare_def Let_def
      split: if_splits list.splits)

lemma trim_snoc: "is_ws c \<Longrightarrow> trim (s @ [c]) = trim s"
proof -
  assume c: "is_ws c"
  show ?thesis
  proof (cases "\<forall>x\<in>set s. is_ws x")
    case True
    then have d: "dropWhile is_ws s = []" "dropWhile is_ws (s @ [c]) = []" using c by (auto simp: dropWhile_append dropWhile_eq_Nil_conv)
    show ?thesis unfolding trim_def trim_start_def d ..
  next
    case False
    then have "dropWhile is_ws (s @ [c]) = dropWhile is_ws s @ [c]" by (auto simp: dropWhile_append)
    then show ?thesis by (simp add: trim_def trim_start_def trim_end_def c)
  qed
qed

lemma country_code_snoc: "is_ws c \<Longrightarrow> country_code (s @ [c]) = country_code s"
  by (simp add: country_code_def trim_snoc)

section \<open>The service that is installed\<close>

text \<open>The elements \<open>string\<close> that stand on lines of their own.\<close>

definition array_line :: "string \<Rightarrow> string option" where
  "array_line l = Option.bind (strip_prefix ''        <string>'' l)
     (\<lambda>r. map_option rev (strip_prefix (rev ''</string>'') (rev r)))"

definition array_strings :: "string \<Rightarrow> string list" where
  "array_strings txt = List.map_filter array_line (lines txt)"

lemma plist_strings: "array_strings plist = plist_args"
  by code_simp

lemma service_parsed:
  "parse_args (tl plist_args) = Inr (Cmd_Run
    \<lparr>dc_settings = settings_path, dc_state = STATE, dc_journal = Some JOURNAL, dc_listen = Sock_V4 LOCALHOST 53,
     dc_tunnel_dns = TUNNEL_DNS, dc_libexec = LIBEXEC, dc_window = 24 * 3600, dc_use_fakeip = True, dc_system_dns = True\<rparr>)"
  by (simp add: plist_args_def parse_args_def parse_run_def run_flag_def run_default_def res_then_def required_def)

end
