(* ===== verification/Install_Facts.thy ===== *)
theory Install_Facts
  imports Install
begin

text \<open>
  What holds of the installation: a refusal comes before anything changes; a service that was
  stopped, or that did not start, leaves no service file, no flag of the owner and no saved DNS;
  a file that is put in place is whole or the old one; and every command ends, given a clock that
  goes on.
\<close>

section \<open>Steps\<close>

lemma then_do_Inr:
  "then_do m f = Some (Inr y, w') \<longleftrightarrow> (\<exists>x w. m = Some (Inr x, w) \<and> f x w = Some (Inr y, w'))"
  by (auto simp: then_do_def split: option.splits prod.splits sum.splits)

lemma then_do_Inl:
  "then_do m f = Some (Inl e, w') \<longleftrightarrow> m = Some (Inl e, w') \<or> (\<exists>x w. m = Some (Inr x, w) \<and> f x w = Some (Inl e, w'))"
  by (auto simp: then_do_def split: option.splits prod.splits sum.splits)

text \<open>A step that ends, with a value or an error.\<close>

definition ends :: "'a option \<Rightarrow> bool" where "ends m = (m \<noteq> None)"

lemma ends_simps [simp]: "ends (Some x)" "\<not> ends None" "ends (map_option f m) = ends m"
  by (simp_all add: ends_def)

lemma ends_case: "ends m \<Longrightarrow> (\<And>x w. ends (f x w)) \<Longrightarrow> ends (case m of None \<Rightarrow> None | Some (x, w) \<Rightarrow> f x w)"
  by (auto simp: ends_def split: option.split)

lemma ends_then_do [intro]: "ends m \<Longrightarrow> (\<And>x w. ends (f x w)) \<Longrightarrow> ends (then_do m f)"
  by (auto simp: ends_def then_do_def split: option.splits prod.splits sum.splits)

lemma done_io_cases [simp]:
  "done_io m = Some (Inr x, w) \<longleftrightarrow> m = (Inr x, w)"
  "done_io m = Some (Inl e, w) \<longleftrightarrow> (\<exists>x. e = Install_io x \<and> m = (Inl x, w))"
  "ends (done_io m)"
  by (auto simp: done_io_def split: prod.splits sum.splits)

lemma step_simps [simp]:
  "step_ok x w = Some (Inr y, w') \<longleftrightarrow> x = y \<and> w = w'" "step_ok x w \<noteq> Some (Inl e, w')"
  "step_fail e w = Some (Inl e', w') \<longleftrightarrow> e = e' \<and> w = w'" "step_fail e w \<noteq> Some (Inr x, w')"
  "ends (step_ok x w)" "ends (step_fail e w)"
  by (auto simp: step_ok_def step_fail_def)

lemma io_then_Inr:
  "io_then m f = (Inr y, w') \<longleftrightarrow> (\<exists>x w. m = (Inr x, w) \<and> f x w = (Inr y, w'))"
  by (auto simp: io_then_def split: prod.splits sum.splits)

lemma ignore_missing_Inr:
  "ignore_missing m = (Inr u, w) \<longleftrightarrow> m = (Inr (), w) \<or> m = (Inl NotFound, w)"
  by (auto simp: ignore_missing_def split: prod.splits sum.splits if_splits)

section \<open>What programs do to the world\<close>

text \<open>
  A relation of worlds that programs and the removal of certain files respect, and so does
  everything made of them.
\<close>

locale effects =
  fixes os :: "'w os" and R :: "'w \<Rightarrow> 'w \<Rightarrow> bool" and may :: "path \<Rightarrow> bool"
  assumes same: "R w w"
    and next_one: "R v w \<Longrightarrow> R w x \<Longrightarrow> R v x"
    and exec: "R w (snd (os_exec os c a s l w))"
    and remove: "may p \<Longrightarrow> R w (snd (os_remove os p w))"
begin

lemma runs: "R w (snd (run os c a s l w))"
  using exec [of w c a s l] by (auto simp: run_def run_both_def split: prod.splits sum.splits child.splits bool.splits)

lemma runs': "run os c a s l w = (x, w') \<Longrightarrow> R w w'"
  using runs [of w c a s l] by simp

lemma removes': "os_remove os p w = (x, w') \<Longrightarrow> may p \<Longrightarrow> R w w'"
  using remove [of p w] by simp

lemma strays: "kill_strays os t w = (x, w') \<Longrightarrow> R w w'"
proof -
  have "R v (stop_pids os ps v)" for ps v
    by (induction ps arbitrary: v) (auto intro: same next_one runs)
  then show "kill_strays os t w = (x, w') \<Longrightarrow> R w w'"
    by (auto simp: kill_strays_def stray_pids_def Let_def split: prod.splits sum.splits
        dest!: runs' intro: next_one)
qed

lemma names: "\<forall>n\<in>set ns. may (path_join RUN_DIR n) \<Longrightarrow> R w (sweep_names os ns w)"
  by (induction ns arbitrary: w) (auto intro: same next_one remove)

lemma tables:
  "\<forall>n. starts_with n HOSTS_FILE \<or> starts_with n NETS_FILE \<longrightarrow> may (path_join dir n) \<Longrightarrow> R w (remove_tables os dir ns w)"
  by (induction ns arbitrary: w) (auto intro: same next_one [OF remove])

lemma releases:
  assumes "may (path_join dir TOKEN_FILE)"
    "\<forall>n. starts_with n HOSTS_FILE \<or> starts_with n NETS_FILE \<longrightarrow> may (path_join dir n)"
    "Pf_release os dir w = (x, w')"
  shows "R w w'"
proof -
  obtain r1 w1 where 1: "run os PFCTL [''-q'', ''-a'', ANCHOR, ''-F'', ''rules''] None STEP w = (r1, w1)" by fastforce
  obtain r2 w2 where 2: "run os PFCTL [''-q'', ''-a'', ANCHOR, ''-F'', ''Tables''] None STEP w1 = (r2, w2)" by fastforce
  obtain r3 w3 where 3: "(case os_read os (path_join dir TOKEN_FILE) w2 of
      Inr t \<Rightarrow> run os PFCTL [''-X'', trim t] None STEP w2 | Inl e \<Rightarrow> (Inl e, w2)) = (r3, w3)" by fastforce
  obtain r4 w4 where 4: "os_remove os (path_join dir TOKEN_FILE) w3 = (r4, w4)" by fastforce
  have "R w2 w3" using 3 by (auto split: sum.splits intro: same dest: runs')
  then have "R w w4"
    using next_one [OF next_one [OF next_one [OF runs' [OF 1] runs' [OF 2]]] removes' [OF 4]] assms(1) by blast
  moreover have "w' = (case os_list os dir w4 of Inr entries \<Rightarrow> remove_tables os dir entries w4 | Inl _ \<Rightarrow> w4)"
    using assms(3) by (simp add: Pf_release_def 1 2 3 4 Let_def)
  ultimately show ?thesis
    by (auto split: sum.splits intro: next_one tables [OF assms(2)])
qed

lemma sets: "set_all os es n f w = (x, w') \<Longrightarrow> R w w'"
proof (induction es arbitrary: n f w)
  case (Cons e es)
  obtain svc ss where e: "e = (svc, ss)" by fastforce
  obtain y w1 where 1: "set_servers os svc ss w = (y, w1)" by fastforce
  then have "R w w1" by (auto simp: set_servers_def split: prod.splits sum.splits dest: runs')
  moreover have "R w1 w'" using Cons.prems Cons.IH by (auto simp: e 1 split: sum.splits)
  ultimately show ?case by (rule next_one)
qed (simp add: same)

lemma gives_back:
  assumes "may (path_join dir SAVED)" "give_back os dir w = (x, w')"
  shows "R w w'"
proof -
  obtain y w1 where 1: "services os w = (y, w1)" by fastforce
  have s: "R w w1" using 1 by (auto simp: services_def split: prod.splits sum.splits dest: runs')
  have f: "R v (dns_flush os v)" for v unfolding dns_flush_def by (blast intro: next_one runs)
  show ?thesis
  proof (cases "saved_load os (path_join dir SAVED) w")
    case (Inr sv)
    show ?thesis
    proof (cases sv)
      case (Some es)
      show ?thesis
      proof (cases y)
        case y: (Inr present)
        obtain nf w2 where 2: "set_all os (filter (\<lambda>(s, _). s \<in> set present) es) 0 None w1 = (nf, w2)" by fastforce
        have "R w (dns_flush os w2)" by (rule next_one [OF next_one [OF s sets [OF 2]] f])
        then show ?thesis
          using assms(2) by (auto simp: give_back_def 1 2 Inr Some y Let_def split: option.splits prod.splits sum.splits
              dest!: removes' [OF _ assms(1)] intro: next_one)
      qed (use assms(2) s in \<open>simp add: give_back_def 1 Inr Some\<close>)
    qed (use assms(2) same in \<open>simp add: give_back_def Inr\<close>)
  qed (use assms(2) same in \<open>simp add: give_back_def\<close>)
qed

lemma sweeps:
  assumes "\<And>n. may (path_join RUN_DIR n)" "\<And>n. may (path_join STATE_DIR n)" "sweep os w = Some (x, w')"
  shows "R w w'"
proof -
  obtain k w1 where 1: "kill_strays os installed_tools w = (k, w1)" by fastforce
  define w2 where "w2 = (case os_list os RUN_DIR w1 of Inr ns \<Rightarrow> sweep_names os ns w1 | Inl _ \<Rightarrow> w1)"
  have 2: "R w w2"
    unfolding w2_def using strays [OF 1] names assms(1) by (auto split: sum.splits intro: next_one)
  obtain m where m: "(if path_exists os STATE_DIR TOKEN_FILE w2 then done_io (Pf_release os STATE_DIR w2) else step_ok () w2) = m"
    by simp
  have 3: "\<exists>y w3. m = Some (y, w3) \<and> R w w3"
    using m releases [of STATE_DIR w2] assms(2) 2
    by (auto simp: done_io_def step_ok_def split: if_splits prod.splits sum.splits intro: next_one)
  have 4: "\<exists>y v'. (if dns_saved os STATE_DIR v then done_io (give_back os STATE_DIR v) else step_ok 0 v) = Some (y, v') \<and> R v v'" for v
    using gives_back [of STATE_DIR v] assms(2)
    by (auto simp: done_io_def step_ok_def split: prod.splits sum.splits intro: same)
  have 5: "done_io (ignore_missing (os_remove os owner_flag v)) = Some (y, v') \<Longrightarrow> R v v'" for v y v'
    using assms(2) by (auto simp: done_io_def ignore_missing_def owner_flag_def split: prod.splits sum.splits if_splits
        dest!: removes')
  obtain y w3 where y: "m = Some (y, w3)" "R w w3" using 3 by blast
  show ?thesis
  proof (cases y)
    case (Inl e)
    then show ?thesis using assms(3) y by (simp add: sweep_def 1 w2_def [symmetric] m then_do_def)
  next
    case (Inr u)
    obtain z w4 where z: "(if dns_saved os STATE_DIR w3 then done_io (give_back os STATE_DIR w3) else step_ok 0 w3) = Some (z, w4)"
      "R w3 w4" using 4 by blast
    have "sweep os w = (case z of Inl e \<Rightarrow> Some (Inl e, w4) | Inr _ \<Rightarrow> done_io (ignore_missing (os_remove os owner_flag w4)))"
      by (simp add: sweep_def 1 w2_def [symmetric] m y Inr z then_do_def)
    then show ?thesis
      using assms(3) next_one [OF y(2) z(2)] by (auto split: sum.splits dest: 5 [OF sym] intro: next_one)
  qed
qed

end

section \<open>Files nobody else touches\<close>

text \<open>
  No program that is run writes the file \<open>p\<close>; and a removal that says there is no such file tells the
  truth.
\<close>

definition programs_keep :: "'w os \<Rightarrow> path \<Rightarrow> bool" where
  "programs_keep os p \<longleftrightarrow> (\<forall>c a s l w. os_read os p (snd (os_exec os c a s l w)) = os_read os p w)"

definition missing_ok :: "'w os \<Rightarrow> bool" where
  "missing_ok os \<longleftrightarrow>
     (\<forall>p w. fst (os_remove os p w) = Inl NotFound \<longrightarrow> os_read os p (snd (os_remove os p w)) = Inl NotFound)"

definition file_kept :: "'w os \<Rightarrow> path \<Rightarrow> 'w \<Rightarrow> 'w \<Rightarrow> bool" where
  "file_kept os p w w' \<longleftrightarrow> (disk_ok os \<longrightarrow> programs_keep os p \<longrightarrow> os_read os p w' = os_read os p w)"

interpretation kept: effects os "file_kept os p" "\<lambda>q. p \<noteq> q" for os p
  by unfold_locales (auto simp: file_kept_def programs_keep_def disk_remove_other)

lemma kept_read: "file_kept os p w w' \<Longrightarrow> disk_ok os \<Longrightarrow> programs_keep os p \<Longrightarrow> os_read os p w' = os_read os p w"
  by (simp add: file_kept_def)

lemma removed:
  assumes "disk_ok os" "missing_ok os" "ignore_missing (os_remove os p w) = (Inr u, w')"
  shows "os_read os p w' = Inl NotFound"
  using assms disk_remove [OF assms(1), of p w] unfolding missing_ok_def ignore_missing_Inr
  by (metis fst_conv snd_conv)

lemma paths:
  "PLIST \<noteq> path_join RUN_DIR n" "PLIST \<noteq> path_join STATE_DIR n" "path_join STATE_DIR SAVED \<noteq> owner_flag"
  by (simp_all add: PLIST_def path_join_def RUN_DIR_def STATE_DIR_def owner_flag_def SAVED_def OWNER_FLAG_def)

section \<open>What a stop leaves\<close>

text \<open>\<open>Path::exists\<close> of a file in the directory of the state misses none.\<close>

definition state_seen :: "'w os \<Rightarrow> bool" where
  "state_seen os \<longleftrightarrow>
     (\<forall>n w. \<not> path_exists os STATE_DIR n w \<longrightarrow> os_read os (path_join STATE_DIR n) w = Inl NotFound)"

definition swept :: "'w os \<Rightarrow> 'w \<Rightarrow> bool" where
  "swept os w \<longleftrightarrow> os_read os PLIST w = Inl NotFound \<and> os_read os owner_flag w = Inl NotFound \<and>
     os_read os (path_join STATE_DIR SAVED) w = Inl NotFound"

lemma given_back:
  assumes "disk_ok os" "missing_ok os" "give_back os dir w = (Inr n, w')"
  shows "os_read os (path_join dir SAVED) w' = Inl NotFound"
proof (cases "os_read os (path_join dir SAVED) w")
  case (Inl e)
  then show ?thesis using assms(3) by (auto simp: give_back_def saved_load_def split: if_splits)
next
  case (Inr t)
  obtain y w1 where 1: "services os w = (y, w1)" by fastforce
  obtain present where y: "y = Inr present"
    using assms(3) by (cases y) (auto simp: give_back_def saved_load_def Inr 1)
  obtain m first w2 where 2: "set_all os (filter (\<lambda>(s, _). s \<in> set present) (parse_saved t)) 0 None w1 = ((m, first), w2)"
    by (metis prod.collapse)
  have "fst (os_remove os (path_join dir SAVED) (dns_flush os w2)) = Inr ()"
    "w' = snd (os_remove os (path_join dir SAVED) (dns_flush os w2))"
    using assms(3) by (auto simp: give_back_def saved_load_def Inr 1 y 2 Let_def split: option.splits prod.splits sum.splits)
  then show ?thesis using disk_remove [OF assms(1)] by simp
qed

definition sleep_keeps :: "'w os \<Rightarrow> 'w procs \<Rightarrow> path \<Rightarrow> bool" where
  "sleep_keeps os pc p \<longleftrightarrow> (\<forall>d w. os_read os p (pc_sleep pc d w) = os_read os p w)"

lemma wait_exit_keeps:
  assumes "sleep_keeps os pc p" "disk_ok os" "programs_keep os p" "wait_exit os pc start w = Some r"
  shows "os_read os p (snd r) = os_read os p w"
proof -
  let ?P = "\<lambda>os pc s v r. sleep_keeps os pc p \<longrightarrow> disk_ok os \<longrightarrow> programs_keep os p \<longrightarrow> os_read os p (snd r) = os_read os p v"
  have "?P os pc start w r"
  proof (rule wait_exit.raw_induct [where P = ?P, OF _ assms(4)], intro impI)
    fix f and os :: "'a os" and pc s v r
    assume IH: "\<And>os pc s v r. f os pc s v = Some r \<Longrightarrow> ?P os pc s v r"
      and eq: "(case run os ''/usr/bin/pgrep'' [''-f'', ''-x'', daemon_pattern] None INSTALL_STEP v of
          (Inl _, w) \<Rightarrow> Some (True, w)
        | (Inr _, w) \<Rightarrow> if EXIT_WAIT \<le> pc_now pc w - s then Some (False, w)
            else f os pc s (pc_sleep pc (from_millis 200) w)) = Some r"
      and k: "sleep_keeps os pc p" "disk_ok os" "programs_keep os p"
    obtain x v1 where x: "run os ''/usr/bin/pgrep'' [''-f'', ''-x'', daemon_pattern] None INSTALL_STEP v = (x, v1)" by fastforce
    have v1: "os_read os p v1 = os_read os p v" by (rule kept_read [OF kept.runs' [OF x] k(2,3)])
    have sl: "os_read os p (pc_sleep pc d u) = os_read os p u" for d u using k(1) by (simp add: sleep_keeps_def)
    show "os_read os p (snd r) = os_read os p v"
      using eq IH [of os pc s "pc_sleep pc (from_millis 200) v1" r] k
      by (auto simp: x v1 sl split: sum.splits if_splits)
  qed
  then show ?thesis using assms by blast
qed

lemma sweep_flag:
  assumes "disk_ok os" "missing_ok os" "state_seen os" "sweep os w = Some (Inr u, w')"
  shows "os_read os owner_flag w' = Inl NotFound \<and> os_read os (path_join STATE_DIR SAVED) w' = Inl NotFound"
proof -
  obtain n v v' where v: "(if dns_saved os STATE_DIR v then done_io (give_back os STATE_DIR v) else step_ok 0 v) = Some (Inr n, v')"
    and r: "ignore_missing (os_remove os owner_flag v') = (Inr u, w')"
    using assms(4) by (auto simp: sweep_def then_do_Inr Let_def split: prod.splits)
  have "os_read os (path_join STATE_DIR SAVED) v' = Inl NotFound"
    using v given_back [OF assms(1,2)] assms(3) by (auto simp: dns_saved_def state_seen_def split: if_splits)
  moreover have "snd (os_remove os owner_flag v') = w'" using r by (auto simp: ignore_missing_Inr)
  ultimately show ?thesis
    using removed [OF assms(1,2) r] disk_remove_other [OF assms(1) paths(3), of v'] by simp
qed

theorem stop_sweeps:
  assumes "disk_ok os" "missing_ok os" "state_seen os" "programs_keep os PLIST"
    "sleep_keeps os pc PLIST"
    "stop_service os pc w = Some (Inr u, w')"
  shows "swept os w'"
proof -
  obtain v v1 gone v2 where r: "ignore_missing (os_remove os PLIST v) = (Inr (), v1)"
    and e: "wait_exit os pc (pc_now pc v1) v1 = Some (gone, v2)"
    and s: "(if gone then sweep os v2 else step_fail Does_not_exit v2) = Some (Inr u, w')"
    using assms(6) by (auto simp: stop_service_def then_do_Inr split: option.splits prod.splits)
  have "os_read os PLIST v2 = Inl NotFound"
    using removed [OF assms(1,2) r] wait_exit_keeps [OF assms(5,1,4) e] by simp
  moreover from s have w: "sweep os v2 = Some (Inr u, w')" by (simp split: if_splits)
  moreover have "os_read os PLIST w' = os_read os PLIST v2"
    by (rule kept_read [OF kept.sweeps [OF paths(1,2) w] assms(1,4)])
  ultimately show ?thesis using sweep_flag [OF assms(1-3) w] by (simp add: swept_def)
qed

section \<open>A service that does not start\<close>

lemma stop_errors:
  assumes "stop_service os pc w = Some (Inl e, w')"
  shows "e = Does_not_exit \<or> (\<exists>x. e = Install_io x)"
proof -
  have s: "sweep os v = Some (Inl e, v') \<Longrightarrow> \<exists>x. e = Install_io x" for v v'
    by (auto simp: sweep_def then_do_Inl Let_def split: prod.splits if_splits)
  have b: "bootout os v = Some (Inl e, v') \<Longrightarrow> \<exists>x. e = Install_io x" for v v'
    by (auto simp: bootout_def then_do_Inl split: prod.splits bool.splits)
  show ?thesis
    using assms by (auto simp: stop_service_def then_do_Inl split: option.splits prod.splits if_splits dest!: s b)
qed

lemma await_errors:
  assumes "await_service i from w = Some (Inl e, w')"
  shows "e = Does_not_exit \<or> (\<exists>x. e = Install_io x) \<or>
    (\<exists>seen err v. e = Not_started seen err \<and> stop_service (in_os i) (in_procs i) v = Some (Inr (), w'))"
proof -
  obtain came v where v: "wait_ready_dns i (pc_now (in_procs i) w) w = Some (came, v)"
    using assms by (cases "wait_ready_dns i (pc_now (in_procs i) w) w") (auto simp: await_service_def)
  have "\<not> came" using assms by (auto simp: await_service_def v Let_def)
  then have "stop_service (in_os i) (in_procs i) v = Some (Inl e, w') \<or>
      (\<exists>seen err. e = Not_started seen err \<and> stop_service (in_os i) (in_procs i) v = Some (Inr (), w'))"
    using assms unfolding await_service_def v Let_def by (simp add: then_do_Inl) blast
  then show ?thesis using stop_errors [of "in_os i" "in_procs i" v e w'] by metis
qed

lemma start_errors:
  assumes "start_service i w = Some (Inl e, w')"
  shows "e = Something_answers \<or> e = Does_not_exit \<or> (\<exists>x. e = Install_io x) \<or>
    (\<exists>seen err v. e = Not_started seen err \<and> stop_service (in_os i) (in_procs i) v = Some (Inr (), w'))"
proof -
  obtain other w1 where 1: "local_answers i (from_secs 1) w = (other, w1)" by fastforce
  obtain p w2 where 2: "put_text (in_os i) (in_fs i) plist PLIST (octal 6 4 4) w1 = (p, w2)" by fastforce
  obtain x w3 where 3: "run (in_os i) LAUNCHCTL [''bootstrap'', ''system'', PLIST] None INSTALL_STEP w2 = (x, w3)" by fastforce
  show ?thesis
  proof (cases "other \<or> p \<noteq> Inr ()")
    case True
    then show ?thesis
      using assms unfolding start_service_def Let_def 1 2
      by (cases other; cases p) (auto simp: 2 then_do_def done_io_def step_fail_def)
  next
    case False
    then have s: "start_service i w = (case x of
        Inl e \<Rightarrow> then_do (done_io (ignore_missing (os_remove (in_os i) PLIST w3))) (\<lambda>_. step_fail (Install_io e))
      | Inr _ \<Rightarrow> await_service i (journal_len (in_fs i) w2) w3)"
      unfolding start_service_def Let_def 1 by (simp add: 2 3 then_do_def done_io_def)
    show ?thesis
    proof (cases x)
      case (Inl y)
      then show ?thesis using assms s by (auto simp: then_do_Inl)
    next
      case (Inr y)
      with assms s have "await_service i (journal_len (in_fs i) w2) w3 = Some (Inl e, w')" by simp
      from await_errors [OF this] show ?thesis by blast
    qed
  qed
qed

text \<open>What is refused is refused before anything changes.\<close>

fun refusal :: "install_error \<Rightarrow> bool" where
  "refusal Not_root = True"
| "refusal (Cannot_load _) = True"
| "refusal (Confs_bad _) = True"
| "refusal (Inside_etc _) = True"
| "refusal (Not_a_file _) = True"
| "refusal (Source_unread _ _) = True"
| "refusal (Source_bad _ _) = True"
| "refusal (Url_unfetched _ _) = True"
| "refusal (Url_bad _ _) = True"
| "refusal _ = False"

lemma check_files_same: "check_files os base rels w = Some (x, w') \<Longrightarrow> w' = w"
  by (induction rels) (auto simp: step_ok_def step_fail_def Let_def split: sum.splits)

lemma check_urls_kept: "check_urls os fs us got w = Some (x, w') \<Longrightarrow> file_kept os p w w'"
proof (induction us arbitrary: got w)
  case (Cons u us)
  obtain y w1 where 1: "fetch os u None w = (y, w1)" by fastforce
  then have "file_kept os p w w1" unfolding fetch_def by (rule kept.runs')
  moreover have "file_kept os p w1 w'"
    using Cons.prems Cons.IH by (auto simp: 1 step_fail_def Let_def kept.same split: sum.splits if_splits)
  ultimately show ?case by (rule kept.next_one)
qed (simp add: step_ok_def kept.same)

lemma require_root_kept: "require_root os w = Some (x, w') \<Longrightarrow> file_kept os p w w'"
  by (auto simp: require_root_def then_do_def done_io_def step_ok_def step_fail_def split: prod.splits sum.splits if_splits
      dest!: kept.runs' [where p = p])

lemma check_sources_kept: "check_sources os fs st base w = Some (x, w') \<Longrightarrow> file_kept os p w w'"
  by (auto simp: check_sources_def then_do_def split: option.splits prod.splits sum.splits
      dest!: check_files_same check_urls_kept [where p = p] simp: kept.same)

lemma inspect_kept:
  assumes "inspect_install i src st w = Some (Inl e, w')"
  shows "file_kept (in_os i) p w w'"
proof -
  have c: "check_sources (in_os i) (in_fs i) st b w = Some (x, v) \<Longrightarrow> file_kept (in_os i) p w v" for b x v
    by (rule check_sources_kept)
  have me: "(case fs_exe (in_fs i) v of Inl e \<Rightarrow> step_fail (Install_io e) v | Inr me \<Rightarrow> step_ok (st, x, me) v) = Some (Inl e, w') \<Longrightarrow> w' = v"
    for v and x :: "(string \<times> string) list" by (cases "fs_exe (in_fs i) v") auto
  show ?thesis
    using assms unfolding inspect_install_def Let_def
    by (auto simp: then_do_Inl kept.same dest!: c me split: if_split_asm sum.split_asm [where sum = "load_confs o' s b u" for o' s b u]
        option.split_asm)
qed

lemma check_install_kept:
  assumes "check_install i src w = Some (Inl e, w')"
  shows "file_kept (in_os i) p w w'"
proof (cases "require_root (in_os i) w")
  case None
  with assms show ?thesis by (simp add: check_install_def then_do_def)
next
  case (Some xv)
  obtain x v where xv: "xv = (x, v)" by fastforce
  have r: "file_kept (in_os i) p w v" by (rule require_root_kept [OF Some [unfolded xv]])
  show ?thesis
  proof (cases x)
    case (Inl y)
    with assms Some xv r show ?thesis by (simp add: check_install_def then_do_def)
  next
    case (Inr y)
    then have "w' = v \<or> (\<exists>st. inspect_install i src st v = Some (Inl e, w'))"
      using assms Some xv by (auto simp: check_install_def then_do_def split: sum.split_asm)
    then show ?thesis using r inspect_kept [of i src _ v] by (auto intro: kept.next_one)
  qed
qed

theorem refused_unchanged:
  assumes "install i src w = Some (Inl e, w')" "refusal e" "disk_ok (in_os i)" "programs_keep (in_os i) p"
  shows "os_read (in_os i) p w' = os_read (in_os i) p w"
proof -
  have "check_install i src w = Some (Inl e, w')"
    using assms(1,2) by (auto simp: install_def then_do_Inl split: prod.splits dest!: stop_errors start_errors)
  from kept_read [OF check_install_kept [OF this] assms(3,4)] show ?thesis .
qed

lemma start_not_started:
  "start_service i w = Some (Inl (Not_started seen err), w') \<Longrightarrow>
    \<exists>v. stop_service (in_os i) (in_procs i) v = Some (Inr (), w')"
  by (drule start_errors) auto

lemma install_not_started:
  assumes "install i src w = Some (Inl (Not_started seen err), w')"
  shows "\<exists>v. start_service i v = Some (Inl (Not_started seen err), w')"
proof -
  have c: "check_install i src w \<noteq> Some (Inl (Not_started seen err), w')"
  proof -
    have f: "check_files os base rels v \<noteq> Some (Inl (Not_started seen err), v')" for os base rels and v v' :: 'a
      by (induction rels) (auto simp: Let_def split: sum.splits)
    have u: "check_urls os fs us got v \<noteq> Some (Inl (Not_started seen err), v')" for os fs us got and v v' :: 'a
      by (induction us arbitrary: got v) (auto simp: Let_def split: sum.splits prod.splits if_splits)
    have n: "inspect_install i src st v \<noteq> Some (Inl (Not_started seen err), v')" for st v v'
      unfolding inspect_install_def Let_def
      by (auto simp: then_do_Inl check_sources_def f u step_fail_def step_ok_def
          split: if_split_asm sum.split_asm option.split_asm) (metis sum.exhaust)
    show ?thesis
      by (auto simp: check_install_def require_root_def then_do_Inl n split: sum.splits if_splits)
  qed
  show ?thesis
    using assms c by (auto simp: install_def then_do_Inl split: prod.splits dest!: stop_errors)
qed

section \<open>Every command ends\<close>

text \<open>The clock goes on while others work, and a sleep takes its time.\<close>

definition clock_ok :: "'w inst \<Rightarrow> bool" where
  "clock_ok i \<longleftrightarrow>
     (\<forall>d w. pc_now (in_procs i) w + d \<le> pc_now (in_procs i) (pc_sleep (in_procs i) d w)) \<and>
     (\<forall>c a s l w. pc_now (in_procs i) w \<le> pc_now (in_procs i) (snd (os_exec (in_os i) c a s l w))) \<and>
     (\<forall>u q l w. pc_now (in_procs i) w \<le> pc_now (in_procs i) (snd (net_udp (in_net i) u q l w))) \<and>
     (\<forall>u l w. pc_now (in_procs i) w \<le> pc_now (in_procs i) (snd (net_connect (in_net i) u l w))) \<and>
     (\<forall>u q l w. pc_now (in_procs i) w \<le> pc_now (in_procs i) (snd (net_stream (in_net i) u q l w)))"

lemma clock_sleep: "clock_ok i \<Longrightarrow> pc_now (in_procs i) w + d \<le> pc_now (in_procs i) (pc_sleep (in_procs i) d w)"
  by (simp add: clock_ok_def)

lemma clock_run:
  assumes "clock_ok i" "run (in_os i) c a s l w = (x, w')"
  shows "pc_now (in_procs i) w \<le> pc_now (in_procs i) w'"
proof -
  have "w' = snd (os_exec (in_os i) c a s l w)"
    using assms(2) by (auto simp: run_def run_both_def split: prod.splits sum.splits child.splits bool.splits)
  then show ?thesis using assms(1) by (simp add: clock_ok_def)
qed

lemma clock_exchange:
  assumes "clock_ok i" "exchange (in_net i) up q l w = (x, w')"
  shows "pc_now (in_procs i) w \<le> pc_now (in_procs i) w'"
proof -
  let ?now = "pc_now (in_procs i)"
  have u: "net_udp (in_net i) up q l v = (y, v') \<Longrightarrow> ?now v \<le> ?now v'"
    "net_connect (in_net i) up l v = (z, v') \<Longrightarrow> ?now v \<le> ?now v'"
    "net_stream (in_net i) up b l v = (s, v') \<Longrightarrow> ?now v \<le> ?now v'" for v v' y z s b
    using assms(1) unfolding clock_ok_def by (metis snd_conv)+
  have udp: "udp (in_net i) up q l v = (y, v') \<Longrightarrow> ?now v \<le> ?now v'" for v v' y
    by (auto simp: udp_def split: prod.splits sum.splits dest: u)
  have tcp: "tcp (in_net i) up q l v = (y, v') \<Longrightarrow> ?now v \<le> ?now v'" for v v' y
    by (auto simp: tcp_def split: prod.splits connection.splits stream.splits if_splits dest!: u)
  show ?thesis
    using assms(2) by (auto simp: exchange_def split: prod.splits option.splits sum.splits if_splits dest!: udp tcp)
qed

lemma clock_answers:
  assumes "clock_ok i" "local_answers i l w = (x, w')"
  shows "pc_now (in_procs i) w \<le> pc_now (in_procs i) w'"
  using assms(2) by (auto simp: local_answers_def query_a_def split: prod.splits sum.splits option.splits
      dest!: clock_exchange [OF assms(1)])

text \<open>Each round of a wait takes from what is left of its time.\<close>

lemma wait_exit_ends:
  assumes c: "clock_ok i"
  shows "ends (wait_exit (in_os i) (in_procs i) start w)"
proof (induction "start + EXIT_WAIT - pc_now (in_procs i) w" arbitrary: w rule: less_induct)
  case less
  let ?now = "pc_now (in_procs i)"
  obtain x w1 where 1: "run (in_os i) ''/usr/bin/pgrep'' [''-f'', ''-x'', daemon_pattern] None INSTALL_STEP w = (x, w1)"
    by fastforce
  let ?w2 = "pc_sleep (in_procs i) (from_millis 200) w1"
  have "?now w \<le> ?now w1" "?now w1 + from_millis 200 \<le> ?now ?w2"
    by (rule clock_run [OF c 1]) (rule clock_sleep [OF c])
  then have "?now w1 - start < EXIT_WAIT \<Longrightarrow> start + EXIT_WAIT - ?now ?w2 < start + EXIT_WAIT - ?now w" by linarith
  then have "?now w1 - start < EXIT_WAIT \<Longrightarrow> ends (wait_exit (in_os i) (in_procs i) start ?w2)" by (rule less)
  with 1 show ?case by (subst wait_exit.simps) (auto split: sum.split)
qed

lemma wait_ready_ends:
  assumes c: "clock_ok i"
  shows "ends (wait_ready_dns i start w)"
proof (induction "start + READY_WAIT - pc_now (in_procs i) w" arbitrary: w rule: less_induct)
  case less
  let ?now = "pc_now (in_procs i)"
  obtain x w1 where 1: "local_answers i (from_secs 2) w = (x, w1)" by fastforce
  let ?w2 = "pc_sleep (in_procs i) (from_millis 500) w1"
  have "?now w \<le> ?now w1" "?now w1 + from_millis 500 \<le> ?now ?w2"
    by (rule clock_answers [OF c 1]) (rule clock_sleep [OF c])
  then have "?now w - start < READY_WAIT \<Longrightarrow> start + READY_WAIT - ?now ?w2 < start + READY_WAIT - ?now w" by linarith
  then have "?now w - start < READY_WAIT \<Longrightarrow> ends (wait_ready_dns i start ?w2)" by (rule less)
  with 1 show ?case by (subst wait_ready_dns.simps) auto
qed

lemma wait_confirm_ends:
  assumes c: "clock_ok i"
  shows "ends (wait_confirm (in_os i) (in_procs i) from start w)"
proof (induction "start + CONFIRM_WAIT - pc_now (in_procs i) w" arbitrary: w rule: less_induct)
  case less
  let ?now = "pc_now (in_procs i)"
  let ?w2 = "pc_sleep (in_procs i) (from_millis 500) w"
  have "?now w + from_millis 500 \<le> ?now ?w2" by (rule clock_sleep [OF c])
  then have "?now w - start < CONFIRM_WAIT \<Longrightarrow> start + CONFIRM_WAIT - ?now ?w2 < start + CONFIRM_WAIT - ?now w" by linarith
  then have "?now w - start < CONFIRM_WAIT \<Longrightarrow> ends (wait_confirm (in_os i) (in_procs i) from start ?w2)" by (rule less)
  then show ?case by (subst wait_confirm.simps) (auto simp: Let_def split: option.split)
qed

lemma sweep_ends: "ends (sweep os w)"
  by (auto simp: sweep_def Let_def split: prod.split intro!: ends_then_do)

lemma stop_ends:
  assumes "clock_ok i"
  shows "ends (stop_service (in_os i) (in_procs i) w)"
  unfolding stop_service_def
proof (rule ends_then_do)
  show "ends (bootout (in_os i) w)" by (auto simp: bootout_def split: prod.split bool.split intro!: ends_then_do)
next
  fix x :: unit and w
  show "ends (then_do (done_io (ignore_missing (os_remove (in_os i) PLIST w))) (\<lambda>_ w.
       case wait_exit (in_os i) (in_procs i) (pc_now (in_procs i) w) w of
         None \<Rightarrow> None
       | Some (gone, w) \<Rightarrow> if gone then sweep (in_os i) w else step_fail Does_not_exit w))"
    using wait_exit_ends [OF assms] sweep_ends by (intro ends_then_do ends_case) auto
qed

lemma start_ends:
  assumes "clock_ok i"
  shows "ends (start_service i w)"
proof -
  note e = wait_ready_ends [OF assms] wait_confirm_ends [OF assms] stop_ends [OF assms]
  have "ends (await_service i n w)" for n w
    using e by (auto simp: await_service_def Let_def intro!: ends_case ends_then_do)
  then show ?thesis
    by (auto simp: start_service_def Let_def split: prod.split sum.split intro!: ends_then_do)
qed

lemma check_ends: "ends (check_install i src w)"
proof -
  have f: "ends (check_files os base rels v)" for os base rels and v :: 'a
    by (induction rels) (auto simp: Let_def split: sum.splits)
  have u: "ends (check_urls os fs us got v)" for os fs us got and v :: 'a
    by (induction us arbitrary: got v) (auto simp: Let_def split: sum.splits prod.splits)
  have r: "ends (require_root os v)" for os and v :: 'a
    by (auto simp: require_root_def intro!: ends_then_do)
  have "ends (inspect_install i src st v)" for st v
    using f u by (auto simp: inspect_install_def check_sources_def Let_def split: sum.split option.split intro!: ends_then_do)
  then show ?thesis
    using r by (auto simp: check_install_def split: sum.split intro!: ends_then_do)
qed

theorem commands_end:
  assumes "clock_ok i"
  shows "ends (install i src w)" "ends (uninstall i w)" "ends (turn_on i w)" "ends (turn_off i w)"
proof -
  have r: "ends (require_root os v)" for os and v :: 'a
    by (auto simp: require_root_def intro!: ends_then_do)
  note e = check_ends stop_ends [OF assms] start_ends [OF assms] r
  show "ends (install i src w)" using e by (auto simp: install_def intro!: ends_then_do)
  show "ends (uninstall i w)" using e by (auto simp: uninstall_def Let_def intro!: ends_then_do)
  show "ends (turn_on i w)" using e by (auto simp: turn_on_def Let_def split: prod.split bool.split intro!: ends_then_do)
  show "ends (turn_off i w)" using e by (auto simp: turn_off_def intro!: ends_then_do)
qed

section \<open>Files put in place\<close>

text \<open>
  What is documented of copies, owners and modes: a copy that succeeds has the text, and none of
  them touches another file.
\<close>

definition copies_ok :: "'w os \<Rightarrow> 'w fs \<Rightarrow> bool" where
  "copies_ok os fs \<longleftrightarrow>
     (\<forall>p q w. fst (fs_copy fs p q w) = Inr () \<longrightarrow> os_read os q (snd (fs_copy fs p q w)) = os_read os p w) \<and>
     (\<forall>p q r w. r \<noteq> q \<longrightarrow> os_read os r (snd (fs_copy fs p q w)) = os_read os r w) \<and>
     (\<forall>p u g r w. os_read os r (snd (fs_chown fs p u g w)) = os_read os r w) \<and>
     (\<forall>p m r w. os_read os r (snd (fs_mode fs p m w)) = os_read os r w)"

theorem put_whole:
  assumes "disk_ok os" "copies_ok os fs" "from \<noteq> new_name to" "put os fs from to mode w = (res, w')"
  shows "case res of Inr _ \<Rightarrow> os_read os to w' = os_read os from w | Inl _ \<Rightarrow> os_read os to w' = os_read os to w"
proof -
  let ?tmp = "new_name to"
  have t: "to \<noteq> ?tmp" by (simp add: new_name_def)
  obtain x1 w1 where 1: "ignore_missing (os_remove os ?tmp w) = (x1, w1)" by fastforce
  then have "w1 = snd (os_remove os ?tmp w)" by (auto simp: ignore_missing_def split: prod.splits sum.splits if_splits)
  then have k1: "p \<noteq> ?tmp \<Longrightarrow> os_read os p w1 = os_read os p w" for p using disk_remove_other [OF assms(1)] by simp
  obtain x2 w2 where 2: "fs_copy fs from ?tmp w1 = (x2, w2)" by fastforce
  have k2: "p \<noteq> ?tmp \<Longrightarrow> os_read os p w2 = os_read os p w1" "x2 = Inr () \<Longrightarrow> os_read os ?tmp w2 = os_read os from w1" for p
    using assms(2) 2 unfolding copies_ok_def by (metis fst_conv snd_conv)+
  obtain x3 w3 where 3: "fs_chown fs ?tmp 0 0 w2 = (x3, w3)" by fastforce
  obtain x4 w4 where 4: "fs_mode fs ?tmp mode w3 = (x4, w4)" by fastforce
  have k3: "os_read os p w3 = os_read os p w2" "os_read os p w4 = os_read os p w3" for p
    using assms(2) 3 4 unfolding copies_ok_def by (metis snd_conv)+
  obtain x5 w5 where 5: "os_rename os ?tmp to w4 = (x5, w5)" by fastforce
  have k5: "x5 = Inr () \<Longrightarrow> os_read os to w5 = os_read os ?tmp w4" "x5 \<noteq> Inr () \<Longrightarrow> os_read os to w5 = os_read os to w4"
    using disk_rename [OF assms(1), of ?tmp to w4] disk_rename_err [OF assms(1), of ?tmp to w4] by (simp_all add: 5)
  show ?thesis
    using assms(4) k1 [OF t] k1 [OF assms(3)] k2(1) [OF t] k2(2) k3 k5
    by (auto simp: put_def io_then_def 1 2 3 4 5 Let_def split: sum.splits)
qed

end
