(* ===== verification/Serve_Facts.thy ===== *)
theory Serve_Facts
  imports Serve Install_Facts
begin

text \<open>
  What holds of the sockets and the commands: the frames of a TCP connection, the runs of the
  resolver that serving is, the end of a resolver alone, and the commands of the owner.
\<close>

section \<open>Frames\<close>

text \<open>The messages of the whole frames at the head of a stream.\<close>

fun frames_in :: "bytes \<Rightarrow> bytes list" where
  "frames_in (a # b # rest) =
     (let n = unat (from_be16 a b) in if length rest < n then [] else take n rest # frames_in (drop n rest))"
| "frames_in _ = []"

declare frames_in.simps(1) [simp del]

lemma frames_in_frame:
  assumes "length m \<le> 65535"
  shows "frames_in (frame m @ rest) = m # frames_in rest"
proof -
  have "unat (from_be16 (ucast (drop_bit 8 (of_nat (length m) :: u16))) (ucast (of_nat (length m) :: u16))) = length m"
    using assms by (simp add: from_be16_bytes unat_of_nat)
  then show ?thesis by (simp add: frame_def be_bytes16_def frames_in.simps Let_def)
qed

lemma frames_in_concat: "\<forall>m\<in>set ms. length m \<le> 65535 \<Longrightarrow> frames_in (concat (map frame ms)) = ms"
  by (induction ms) (simp_all add: frames_in_frame)

text \<open>\<open>m\<close> is an answer the resolver gave to \<open>q\<close>; nothing was the answer.\<close>

definition gives :: "('k, 'w) env \<Rightarrow> bytes \<Rightarrow> bytes \<Rightarrow> bool" where
  "gives env q m \<longleftrightarrow> (\<exists>r w r' w'. handle env q r w = (Some m, r', w'))"

definition gives_none :: "('k, 'w) env \<Rightarrow> bytes \<Rightarrow> bool" where
  "gives_none env q \<longleftrightarrow> (\<exists>r w r' w' x. handle env q r w = (x, r', w') \<and> (\<forall>m. x = Some m \<longrightarrow> 65535 < length m))"

text \<open>
  The frames written: of the answers to the first queries of the stream, in their order; and when the
  client takes them all, the first query without one has none to give.
\<close>

definition answers_in_order :: "('k, 'w) env \<Rightarrow> bytes \<Rightarrow> bytes list \<Rightarrow> bool \<Rightarrow> bool" where
  "answers_in_order env inp outs taken \<longleftrightarrow>
     (\<exists>ms. outs = map frame ms \<and> (\<forall>m\<in>set ms. length m \<le> 65535) \<and> length ms \<le> length (frames_in inp) \<and>
        (\<forall>k<length ms. gives env (frames_in inp ! k) (ms ! k)) \<and>
        (taken \<longrightarrow> length ms = length (frames_in inp) \<or> gives_none env (frames_in inp ! length ms)))"

lemma no_answer:
  "(taken \<longrightarrow> frames_in inp = [] \<or> gives_none env (hd (frames_in inp))) \<Longrightarrow> answers_in_order env inp [] taken"
  unfolding answers_in_order_def by (cases "frames_in inp") auto

lemma one_answer:
  assumes "frames_in inp = q # frames_in inp'" "gives env q m" "length m \<le> 65535" "answers_in_order env inp' outs taken"
  shows "answers_in_order env inp (frame m # outs) taken"
proof -
  obtain ms where ms: "outs = map frame ms" "\<forall>m\<in>set ms. length m \<le> 65535" "length ms \<le> length (frames_in inp')"
    "\<forall>k<length ms. gives env (frames_in inp' ! k) (ms ! k)"
    "taken \<longrightarrow> length ms = length (frames_in inp') \<or> gives_none env (frames_in inp' ! length ms)"
    using assms(4) unfolding answers_in_order_def by blast
  show ?thesis
    unfolding answers_in_order_def assms(1)
    by (rule exI [of _ "m # ms"]) (use ms assms(2,3) in \<open>auto simp: less_Suc_eq_0_disj\<close>)
qed

text \<open>A query that is answered, and its answer taken.\<close>

lemma serve_tcp_next:
  assumes "en_others env (r, w) = (r1, w1)" "\<not> length rest < unat (from_be16 a b)"
    "handle env (take (unat (from_be16 a b)) rest) r1 w1 = (Some m, r2, w2)" "\<not> 65535 < length m"
    "put_all (frame m) w2 = (sent, w3)" "en_others env (r2, w3) = (r4, w4)"
    "serve_tcp env put_all (drop (unat (from_be16 a b)) rest) r4 w4 = (outs, r5, w5)"
  shows "serve_tcp env put_all (a # b # rest) r w = (if sent then (frame m # outs, r5, w5) else ([], r4, w4))"
  using assms by (simp add: serve_tcp.simps(1) Let_def)

theorem tcp_in_order:
  assumes "taken \<longrightarrow> (\<forall>b w. fst (put_all b w))"
  shows "answers_in_order env inp (fst (serve_tcp env put_all inp r w)) taken"
  using assms
proof (induction env put_all inp r w rule: serve_tcp.induct)
  case (1 env put_all a b rest r w)
  let ?n = "unat (from_be16 a b)"
  obtain r1 w1 where o: "en_others env (r, w) = (r1, w1)" by fastforce
  show ?case
  proof (cases "length rest < ?n")
    case True
    then show ?thesis by (auto simp: serve_tcp.simps(1) frames_in.simps o Let_def intro!: no_answer)
  next
    case False
    then have f: "frames_in (a # b # rest) = take ?n rest # frames_in (drop ?n rest)"
      by (simp add: frames_in.simps Let_def)
    obtain x r2 w2 where h: "handle env (take ?n rest) r1 w1 = (x, r2, w2)" by (metis prod.collapse)
    show ?thesis
    proof (cases "\<exists>m. x = Some m \<and> length m \<le> 65535")
      case False
      then have "gives_none env (hd (frames_in (a # b # rest)))"
        unfolding gives_none_def f list.sel by (intro exI conjI) (rule h, auto simp: not_le)
      then have "answers_in_order env (a # b # rest) [] taken" by (blast intro: no_answer)
      moreover have "fst (serve_tcp env put_all (a # b # rest) r w) = []"
        using False h \<open>\<not> length rest < ?n\<close> by (cases x) (auto simp: serve_tcp.simps(1) o Let_def)
      ultimately show ?thesis by simp
    next
      case True
      then obtain m where m: "x = Some m" "length m \<le> 65535" by blast
      obtain sent w3 where p: "put_all (frame m) w2 = (sent, w3)" by fastforce
      obtain r4 w4 where o2: "en_others env (r2, w3) = (r4, w4)" by fastforce
      have g: "gives env (take ?n rest) m" unfolding gives_def using h m by blast
      have l: "\<not> 65535 < length m" using m(2) by simp
      obtain outs r5 w5 where t: "serve_tcp env put_all (drop ?n rest) r4 w4 = (outs, r5, w5)" by (metis prod.collapse)
      note n = serve_tcp_next [where put_all = put_all, OF o \<open>\<not> length rest < ?n\<close> h [unfolded m(1)] l p o2 t]
      show ?thesis
      proof (cases sent)
        case False
        then have "\<not> taken" using "1.prems" p by (metis fst_conv)
        then show ?thesis
          using False by (simp add: n no_answer)
      next
        case True
        have "answers_in_order env (drop ?n rest) (fst (serve_tcp env put_all (drop ?n rest) r4 w4)) taken"
          by (rule "1.IH" [OF refl refl o [symmetric] \<open>\<not> length rest < ?n\<close> h [symmetric] m(1) refl _ refl p [symmetric]
                refl o2 [symmetric] _ "1.prems"]) (use m True in auto)
        from one_answer [OF f g m(2) this] show ?thesis using True by (simp add: n t)
      qed
    qed
  qed
qed (auto intro!: no_answer)

section \<open>Serving is a run of the resolver\<close>

lemma others_run': "env_ok env \<Longrightarrow> rv_run (en_kernel env) r (fst (en_others env (r, w)))"
  by (simp add: env_ok_def)

lemma serve_tcp_run:
  "env_ok env \<Longrightarrow> rv_run (en_kernel env) r (fst (snd (serve_tcp env put_all inp r w)))"
proof (induction env put_all inp r w rule: serve_tcp.induct)
  case (1 env put_all a b rest r w)
  let ?n = "unat (from_be16 a b)" and ?run = "rv_run (en_kernel env)"
  obtain r1 w1 where o: "en_others env (r, w) = (r1, w1)" by fastforce
  obtain x r2 w2 where h: "handle env (take ?n rest) r1 w1 = (x, r2, w2)" by (metis prod.collapse)
  have r1: "?run r r1" by (rule others_run [OF "1.prems" o])
  have r2: "?run r r2" by (rule rtranclp_trans [OF r1 handle_run [OF "1.prems" h]])
  show ?case
  proof (cases "length rest < ?n \<or> x = None \<or> 65535 < length (the x)")
    case True
    then show ?thesis using r1 r2 by (cases x) (auto simp: serve_tcp.simps(1) o h Let_def)
  next
    case False
    then obtain m where m: "x = Some m" "\<not> 65535 < length m" "\<not> length rest < ?n" by auto
    obtain sent w3 where p: "put_all (frame m) w2 = (sent, w3)" by fastforce
    obtain r4 w4 where o2: "en_others env (r2, w3) = (r4, w4)" by fastforce
    have r4: "?run r r4" by (rule rtranclp_trans [OF r2 others_run [OF "1.prems" o2]])
    obtain outs r5 w5 where t: "serve_tcp env put_all (drop ?n rest) r4 w4 = (outs, r5, w5)" by (metis prod.collapse)
    note n = serve_tcp_next [where put_all = put_all, OF o m(3) h [unfolded m(1)] m(2) p o2 t]
    show ?thesis
    proof (cases sent)
      case False
      then show ?thesis using r4 by (simp add: n)
    next
      case True
      have "?run r4 (fst (snd (serve_tcp env put_all (drop ?n rest) r4 w4)))"
        by (rule "1.IH" [OF refl refl o [symmetric] m(3) h [symmetric] m(1) refl m(2) refl p [symmetric] refl
              o2 [symmetric] _ "1.prems"]) (use True in auto)
      then show ?thesis using rtranclp_trans [OF r4] True by (simp add: n t)
    qed
  qed
qed (auto intro: others_run')

lemma serve_udp_run: "env_ok env \<Longrightarrow> rv_run (en_kernel env) r (fst (serve_udp env send_to q peer r w))"
  by (auto simp: serve_udp_def split: prod.split option.split dest: handle_run intro: rtranclp_trans [OF _ others_run'])

lemma serve_run:
  assumes "env_ok env"
  shows "rv_run (en_kernel env) r (fst (serve env send_to put_all arrivals (r, w)))"
proof (induction arrivals arbitrary: r w)
  case (Cons got rest)
  obtain r1 w1 where o: "en_others env (r, w) = (r1, w1)" by fastforce
  define s where "s = (case got of
      Datagram query peer \<Rightarrow> serve_udp env send_to query peer r1 w1
    | Connection inp \<Rightarrow> snd (serve_tcp env put_all inp r1 w1)
    | No_datagram \<Rightarrow> (r1, w1)
    | No_connection \<Rightarrow> (r1, w1))"
  have "rv_run (en_kernel env) r1 (fst s)"
    using serve_udp_run [OF assms] serve_tcp_run [OF assms] by (cases got) (simp_all add: s_def)
  moreover have "rv_run (en_kernel env) (fst s) (fst (serve env send_to put_all rest s))"
    using Cons.IH [of "fst s" "snd s"] by simp
  ultimately have "rv_run (en_kernel env) r (fst (serve env send_to put_all rest s))"
    using others_run [OF assms o] by (meson rtranclp_trans)
  then show ?case by (simp add: o s_def)
qed simp

section \<open>The resolver alone leaves nothing\<close>

lemma alone_run:
  "rv_run krn (Resolver_new l [alone_rule l] [ra_tunnel args] (ra_tunnel_dns args) routes None LIMIT)
    (alone_resolver args l index routes now)"
proof -
  have step: "rv_run krn a b \<Longrightarrow> rv_step krn b c \<Longrightarrow> rv_run krn a c" for a b c :: "'a resolver"
    by (rule rtranclp.rtrancl_into_rtrancl)
  show ?thesis
    unfolding alone_resolver_def Let_def
    by (rule step [OF step [OF step [OF step [OF rtranclp.rtrancl_refl step_upstream] step_use_fakeip] step_country] step_link])
qed

lemma alone_routes: "rv_routes (alone_resolver args l index routes now) = routes"
  by (simp add: alone_resolver_def Let_def set_link_def set_country_def set_use_fakeip_def set_upstream_def Resolver_new_def)

lemma resolve_opened:
  assumes "resolve_open al args w = (Inr (l, index, routes), w')"
  shows "lists_ok l \<and> (\<exists>v. al_routes al v = (Inr routes, w'))"
  using assms
  by (auto simp: resolve_open_def io_then_def res_then_Inr split: sum.splits prod.splits
      dest!: lists_ok_load_dir)

theorem resolve_leaves:
  assumes "env_ok (al_env al)" "kernel_obeys (en_kernel (al_env al)) tbl"
    and "\<And>v routes v' k. al_routes al v = (Inr routes, v') \<Longrightarrow> tbl (sock routes) k \<noteq> None \<Longrightarrow> k \<in> T"
    and "resolve al args arrivals w = (res, w')"
  shows "case res of
      Inr r \<Rightarrow> cr_stopped (rv_core r) \<and> (\<forall>k. tbl (sock (rv_routes r)) k \<noteq> None \<longrightarrow> k \<in> T)
    | Inl (e, Some r) \<Rightarrow> \<forall>k. tbl (sock (rv_routes r)) k \<noteq> None \<longrightarrow> k \<in> T
    | Inl (e, None) \<Rightarrow> True"
proof -
  let ?krn = "en_kernel (al_env al)"
  obtain x w1 where x: "resolve_open al args w = (x, w1)" by fastforce
  show ?thesis
  proof (cases x)
    case (Inl e)
    with assms(4) x show ?thesis by (auto simp: resolve_def)
  next
    case (Inr y)
    obtain l index routes where y: "y = (l, index, routes)" by (metis prod_cases3)
    obtain v where l: "lists_ok l" and v: "al_routes al v = (Inr routes, w1)"
      using resolve_opened [of al args w l index routes w1] x Inr y by blast
    note T = assms(3) [OF v]
    let ?r = "alone_resolver args l index routes (al_now al w1)"
    obtain z w2 where z: "al_sockets al (ra_listen args) w1 = (z, w2)" by fastforce
    show ?thesis
    proof (cases z)
      case (Inl e)
      with assms(4) x Inr y z have "res = Inl (e, Some ?r)" by (simp add: resolve_def Let_def)
      then show ?thesis using T by (simp add: alone_routes)
    next
      case z2: (Inr u)
      let ?r1 = "reconcile ?krn (al_now al w2) ?r"
      obtain r2 w3 where s: "serve (al_env al) (al_send al) (al_put al) arrivals (?r1, w2) = (r2, w3)" by fastforce
      have res: "res = Inr (snd (remove_all ?krn r2))"
        using assms(4) x Inr y z z2 s by (auto simp: resolve_def Let_def split: prod.splits)
      let ?new = "Resolver_new l [alone_rule l] [ra_tunnel args] (ra_tunnel_dns args) routes None LIMIT"
      have "rv_run ?krn ?r1 r2" using serve_run [OF assms(1), of ?r1 "al_send al" "al_put al" arrivals w2] s by simp
      then have run: "rv_run ?krn ?new r2"
        using rtranclp.rtrancl_into_rtrancl [OF alone_run step_reconcile] by (meson rtranclp_trans)
      have "accounted tbl T ?new" by (rule accountedI) (use T in \<open>simp add: Resolver_new_def\<close>)
      from accounted_run [OF assms(2) run ok_new [OF l] this]
      have "tbl (sock (rv_routes (snd (remove_all ?krn r2)))) k \<noteq> None \<Longrightarrow> k \<in> T" for k
        by (rule accounted_remove_all [OF assms(2)])
      then show ?thesis by (simp add: res remove_all_core)
    qed
  qed
qed

section \<open>The owner's country\<close>

theorem country_command:
  assumes "disk_ok (in_os (pg_install pg))" "parse_args args = Inr (Cmd_Country (Some code) state)"
    "main pg args w = Some (Exit_success, w')"
  shows "Country_now (Country_load (in_os (pg_install pg)) (dir_of state) w') = (the (country_code code), ''owner'')"
proof -
  let ?os = "in_os (pg_install pg)"
  have "os_write ?os (path_join (dir_of state) COUNTRY_FLAG) (code @ [NL]) w = (Inr (), w')"
    using assms(2,3) by (auto simp: main_def exit_of_def owner_country_def write_private_def Let_def split: prod.splits sum.splits)
  with disk_write [OF assms(1), of "path_join (dir_of state) COUNTRY_FLAG" "code @ [NL]" w]
  have r: "os_read ?os (path_join (dir_of state) COUNTRY_FLAG) w' = Inr (code @ [NL])" by simp
  have "is_ws NL" by code_simp
  then have "read_country_flag ?os (dir_of state) w' = country_code code"
    by (simp add: read_country_flag_def r country_code_snoc)
  then show ?thesis using country_taken [OF assms(2)] by (auto simp: Country_now_def Country_load_def)
qed

end
