(* ===== verification/Demo_Main.thy ===== *)
theory Demo_Main
  imports Demo_Life Serve_Facts
begin

text \<open>
  The small setting, for the commands: a Mac on which every command succeeds and no daemon is left, a
  client that takes every frame.
\<close>

definition gone_daemon :: "call \<Rightarrow> child" where
  "gone_daemon c = (case c of (p, args, inp) \<Rightarrow>
     Exited (p \<noteq> ''/usr/bin/pgrep'') ''exit status: 1'' (if p = ''/usr/bin/id'' then ''0'' else []) [])"

definition demo_fs :: "world fs" where
  "demo_fs =
     \<lparr>fs_create = \<lambda>p m w. (Inr (), w), fs_mode = \<lambda>p m w. (Inr (), w),
      fs_copy = \<lambda>p q w. (case hm_get (wd_files w) p of
          None \<Rightarrow> (Inl NotFound, w) | Some t \<Rightarrow> (Inr (), w\<lparr>wd_files := hm_insert q t (wd_files w)\<rparr>)),
      fs_chown = \<lambda>p u g w. (Inr (), w), fs_remove_all = \<lambda>p w. (Inr (), w),
      fs_symlink = \<lambda>p q w. (Inr (), w), fs_is_file = \<lambda>p w. hm_get (wd_files w) p \<noteq> None,
      fs_canonical = \<lambda>p w. Some p, fs_link = \<lambda>p w. None, fs_there = \<lambda>p w. False,
      fs_length = \<lambda>p w. map_option length (hm_get (wd_files w) p), fs_exe = \<lambda>w. Inr ''/tmp/mac-gate''\<rparr>"

definition demo_inst :: "world inst" where
  "demo_inst =
     \<lparr>in_os = demo_os gone_daemon, in_procs = demo_procs, in_fs = demo_fs, in_net = demo_net, in_lib = demo_lib,
      in_nanos = \<lambda>w. 0, in_toml = \<lambda>t. Inr demo_raw\<rparr>"

lemma demo_copies: "copies_ok (demo_os f) demo_fs"
  by (auto simp: copies_ok_def demo_os_def demo_fs_def dict_simps split: option.splits)

lemma demo_missing: "missing_ok (demo_os f)"
  by (auto simp: missing_ok_def demo_os_def split: option.splits)

lemma demo_keeps: "programs_keep (demo_os f) p" "sleep_keeps (demo_os f) demo_procs p"
  by (simp_all add: programs_keep_def sleep_keeps_def demo_os_def demo_procs_def)

lemma strip_prefix_self: "strip_prefix p (p @ s) = Some s"
  by (simp add: strip_prefix_def)

lemma demo_seen: "state_seen (demo_os f)"
  unfolding state_seen_def
proof (intro allI impI)
  fix n and w :: world
  assume n: "\<not> path_exists (demo_os f) STATE_DIR n w"
  have j: "path_join STATE_DIR n = (STATE_DIR @ ''/'') @ n" by (simp add: path_join_def STATE_DIR_def)
  have "hm_get (wd_files w) (path_join STATE_DIR n) = None"
  proof (rule ccontr)
    assume "hm_get (wd_files w) (path_join STATE_DIR n) \<noteq> None"
    then obtain t where "(path_join STATE_DIR n, t) \<in> set (wd_files w)" by (auto dest: map_of_SomeD)
    then have "n \<in> set (List.map_filter (\<lambda>(k, _). strip_prefix (STATE_DIR @ ''/'') k) (wd_files w))"
      unfolding map_filter_def using strip_prefix_self [of "STATE_DIR @ ''/''" n] by (force simp: j)
    with n show False by (simp add: path_exists_def demo_os_def)
  qed
  then show "os_read (demo_os f) (path_join STATE_DIR n) w = Inl NotFound" by (simp add: demo_os_def)
qed

lemma demo_clock: "clock_ok demo_inst"
  by (simp add: clock_ok_def demo_inst_def demo_procs_def demo_os_def demo_net_def)

lemma demo_inst_fields:
  "in_os demo_inst = demo_os gone_daemon" "in_procs demo_inst = demo_procs" "in_fs demo_inst = demo_fs"
  by (simp_all add: demo_inst_def)

lemma demo_runs: "run (demo_os gone_daemon) p args inp l w =
    (if p = ''/usr/bin/pgrep'' then Inl (OtherError (p @ '': '' @ ''exit status: 1'' @ '': '' @ trim []))
     else Inr (if p = ''/usr/bin/id'' then ''0'' else []), w\<lparr>wd_log := (p, args, inp) # wd_log w\<rparr>)"
  by (simp add: run_def run_both_def demo_os_def gone_daemon_def)

text \<open>A stop, with the file of the service and the flag of the owner there.\<close>

definition demo_installed :: world where
  "demo_installed = demo_world\<lparr>wd_files := [(PLIST, plist), (owner_flag, [])]\<rparr>"

lemma demo_root: "\<exists>w'. require_root (demo_os gone_daemon) w = Some (Inr (), w') \<and> wd_files w' = wd_files w"
proof -
  have "trim ''0'' = ''0''" by code_simp
  then show ?thesis by (simp add: require_root_def demo_runs then_do_def done_io_def step_ok_def)
qed

lemma demo_sweep:
  assumes "wd_files w = [(owner_flag, [])]"
  shows "\<exists>w'. sweep (demo_os gone_daemon) w = Some (Inr (), w')"
proof -
  have s: "strip_prefix (RUN_DIR @ ''/'') owner_flag = None" "strip_prefix (STATE_DIR @ ''/'') owner_flag = Some OWNER_FLAG"
    "OWNER_FLAG \<noteq> TOKEN_FILE" "OWNER_FLAG \<noteq> SAVED" by code_simp+
  show ?thesis
    using s assms
    by (simp add: sweep_def kill_strays_def stray_pids_def demo_runs Let_def path_exists_def dns_saved_def then_do_def
        done_io_def step_ok_def ignore_missing_def) (simp add: demo_os_def map_filter_simps)
qed

lemma demo_stop:
  assumes "wd_files w = [(PLIST, plist), (owner_flag, [])]"
  shows "\<exists>w'. stop_service (demo_os gone_daemon) demo_procs w = Some (Inr (), w')"
proof -
  let ?os = "demo_os gone_daemon"
  obtain w1 where b: "bootout ?os w = Some (Inr (), w1)" and f1: "wd_files w1 = [(PLIST, plist), (owner_flag, [])]"
    by (simp add: bootout_def service_loaded_def demo_runs then_do_def done_io_def step_ok_def LAUNCHCTL_def assms)
  obtain w2 where r: "done_io (ignore_missing (os_remove ?os PLIST w1)) = Some (Inr (), w2)"
    and f2: "wd_files w2 = [(owner_flag, [])]"
  proof -
    have "PLIST \<noteq> owner_flag" by code_simp
    with f1 that show thesis by (auto simp: demo_os_def ignore_missing_def done_io_def)
  qed
  obtain w3 where e: "wait_exit ?os demo_procs (pc_now demo_procs w2) w2 = Some (True, w3)" and f3: "wd_files w3 = [(owner_flag, [])]"
  proof -
    have "wait_exit ?os demo_procs s w2 = Some (True, snd (run ?os ''/usr/bin/pgrep'' [''-f'', ''-x'', daemon_pattern] None INSTALL_STEP w2))" for s
      by (subst wait_exit.simps) (simp add: demo_runs)
    then show thesis using that by (simp add: demo_runs f2)
  qed
  obtain w4 where "sweep ?os w3 = Some (Inr (), w4)" using demo_sweep [OF f3] by blast
  then show ?thesis by (simp add: stop_service_def b r e then_do_def)
qed

lemma demo_off: "\<exists>w'. turn_off demo_inst demo_installed = Some (Inr (), w')"
proof -
  obtain w1 where "require_root (demo_os gone_daemon) demo_installed = Some (Inr (), w1)" "wd_files w1 = wd_files demo_installed"
    using demo_root by blast
  with demo_stop [of w1] show ?thesis
    by (auto simp: turn_off_def demo_inst_fields then_do_def demo_installed_def)
qed

text \<open>An installation whose settings are not there.\<close>

definition demo_src :: install_sources where
  "demo_src = \<lparr>is_config = ''/home/gate.toml'', is_awg_go = ''/home/go'', is_awg = ''/home/awg''\<rparr>"

lemma demo_refused: "\<exists>w'. install demo_inst demo_src demo_installed = Some (Inl (Cannot_load (Settings_unread NotFound)), w')"
proof -
  obtain w1 where r: "require_root (demo_os gone_daemon) demo_installed = Some (Inr (), w1)" "wd_files w1 = wd_files demo_installed"
    using demo_root by blast
  have "PLIST \<noteq> ''/home/gate.toml''" "owner_flag \<noteq> ''/home/gate.toml''" by code_simp+
  then have "config_load (in_toml demo_inst) (demo_os gone_daemon) ''/home/gate.toml'' w1 = Inl (Settings_unread NotFound)"
    using r(2) by (simp add: config_load_def demo_os_def demo_installed_def)
  then show ?thesis
    by (simp add: install_def check_install_def demo_inst_fields r then_do_def demo_src_def step_fail_def)
qed

end
