(* ===== verification/Pf_Content.thy ===== *)
theory Pf_Content
  imports Kill_Switch
begin

text \<open>
  The packet filter beside the resolver: what its anchor and tables hold while queries, expiries,
  reconciles and reloads interleave, each cut where the code waits. Shown: an address on the books is
  in the table of its rule, unless a reload is due or under way, the command that adds it has not
  run yet, or it was lost - by an answer that was given up after it was routed, or by a deletion that
  was late. So what the filter lets out never goes past a tunnel for the addresses it holds.
\<close>

section \<open>States\<close>

text \<open>A reload takes the flag and the shape, reads the tables under the lock, and loads them.\<close>

datatype reload = No_reload | Taken shape | Loading shape tables

text \<open>
  The resolver, what is loaded, the reload under way, the addresses whose addition or deletion is on
  its way, and those that were lost.
\<close>

record 'k gate =
  gt_r :: "'k resolver"
  gt_rules :: shape
  gt_table :: table_content
  gt_reload :: reload
  gt_adding :: "(nat \<times> ipv4) set"
  gt_deleting :: "(nat \<times> ipv4) set"
  gt_lost :: "(nat \<times> ipv4) set"

abbreviation on_gate :: "'k gate \<Rightarrow> 'k resolver \<Rightarrow> 'k gate" where
  "on_gate g r \<equiv> g\<lparr>gt_r := r\<rparr>"

definition stale :: "'k resolver \<Rightarrow> 'k resolver" where
  "stale r = r\<lparr>rv_pf_stale := True\<rparr>"

definition of_table :: "nat \<Rightarrow> ipv4 list \<Rightarrow> (nat \<times> ipv4) set" where
  "of_table i ips = {i} \<times> set ips"

text \<open>Addresses of a rule on the books.\<close>

definition held_by :: "'k resolver \<Rightarrow> (nat \<times> ipv4) set" where
  "held_by r = {(i, ip). host_of_rule r i ip}"

fun lock_free :: "reload \<Rightarrow> bool" where
  "lock_free (Loading s t) = False"
| "lock_free _ = True"

section \<open>Steps\<close>

text \<open>What the others do to the resolver, besides queries, expiries and reloads.\<close>

inductive books_step :: "'k kernel \<Rightarrow> 'k resolver \<Rightarrow> 'k resolver \<Rightarrow> bool" for krn where
  books_lists: "lists_ok l \<Longrightarrow> books_step krn r (set_lists l r)"
| books_network: "books_step krn r (set_network n r)"
| books_upstream: "books_step krn r (set_upstream u r)"
| books_fakeip: "books_step krn r (set_use_fakeip b r)"
| books_owner: "books_step krn r (set_owner b r)"
| books_country: "books_step krn r (snd (set_country country r))"
| books_link: "books_step krn r (set_link link s r)"
| books_load: "books_step krn r (load_hosts hosts r)"
| books_reconcile: "books_step krn r (reconcile krn now r)"
| books_remove: "books_step krn r (snd (remove_all krn r))"
| books_dirty: "books_step krn r (r\<lparr>rv_dirty := b\<rparr>)"

text \<open>
  A command may also do a part of its work only, and then fail: the flag is set when the task that gave it
  goes on.
\<close>

definition add_to :: "nat \<Rightarrow> ipv4 list \<Rightarrow> table_content \<Rightarrow> table_content" where
  "add_to i ips t = t(Hosts_of i := \<lambda>x. t (Hosts_of i) x \<or> x \<in> set ips)"

definition take_from :: "nat \<Rightarrow> ipv4 list \<Rightarrow> table_content \<Rightarrow> table_content" where
  "take_from i ips t = t(Hosts_of i := \<lambda>x. t (Hosts_of i) x \<and> x \<notin> set ips)"

inductive gate_step :: "'k kernel \<Rightarrow> 'k gate \<Rightarrow> 'k gate \<Rightarrow> bool" for krn where
  gate_books: "books_step krn (gt_r g) r \<Longrightarrow> gate_step krn g (on_gate g r)"
| gate_route: "route_host krn now ip rule (gt_r g) = (Inr new, r) \<Longrightarrow>
    gate_step krn g (on_gate g r\<lparr>gt_adding := gt_adding g \<union> (if new then {(rule, ip)} else {})\<rparr>)"
| gate_unrouted: "route_host krn now ip rule (gt_r g) = (Inl e, r) \<Longrightarrow>
    gate_step krn g (on_gate g r\<lparr>gt_adding := gt_adding g - X, gt_lost := gt_lost g \<union> (X \<inter> gt_adding g)\<rparr>)"
| gate_added: "lock_free (gt_reload g) \<Longrightarrow>
    gate_step krn g (g\<lparr>gt_adding := gt_adding g - of_table i ips, gt_table := add_to i ips (gt_table g)\<rparr>)"
| gate_add_failed: "lock_free (gt_reload g) \<Longrightarrow>
    gate_step krn g (g\<lparr>gt_r := stale (gt_r g), gt_adding := gt_adding g - of_table i ips, gt_table := t\<rparr>)"
| gate_expire: "expire_hosts krn unix window (gt_r g) = (gone, r) \<Longrightarrow>
    gate_step krn g (on_gate g r\<lparr>gt_deleting := gt_deleting g \<union> (\<lambda>(ip, h). (h_rule h, ip)) ` set gone\<rparr>)"
| gate_deleted: "lock_free (gt_reload g) \<Longrightarrow>
    gate_step krn g (g\<lparr>gt_deleting := gt_deleting g - of_table i ips, gt_table := take_from i ips (gt_table g),
      gt_lost := gt_lost g \<union> (of_table i ips \<inter> held_by (gt_r g))\<rparr>)"
| gate_delete_failed: "lock_free (gt_reload g) \<Longrightarrow>
    gate_step krn g (g\<lparr>gt_r := stale (gt_r g), gt_deleting := gt_deleting g - of_table i ips, gt_table := t\<rparr>)"
| gate_take: "gt_reload g = No_reload \<Longrightarrow> rv_pf_stale (gt_r g) \<or> rv_pf_shape (gt_r g) \<noteq> Some (resolver_shape (gt_r g)) \<Longrightarrow>
    gate_step krn g (g\<lparr>gt_r := (gt_r g)\<lparr>rv_pf_stale := False\<rparr>, gt_reload := Taken (resolver_shape (gt_r g))\<rparr>)"
| gate_read: "gt_reload g = Taken s \<Longrightarrow>
    gate_step krn g (g\<lparr>gt_reload := Loading s (resolver_tables (gt_r g)), gt_lost := {}\<rparr>)"
| gate_loaded: "gt_reload g = Loading s t \<Longrightarrow>
    gate_step krn g (g\<lparr>gt_r := (gt_r g)\<lparr>rv_pf_shape := Some s\<rparr>, gt_reload := No_reload,
      gt_rules := s, gt_table := loaded t\<rparr>)"
| gate_load_failed: "gt_reload g = Loading s t \<Longrightarrow>
    gate_step krn g (g\<lparr>gt_r := stale (gt_r g)\<lparr>rv_pf_shape := None\<rparr>, gt_reload := No_reload,
      gt_rules := s', gt_table := t'\<rparr>)"

abbreviation gate_run :: "'k kernel \<Rightarrow> 'k gate \<Rightarrow> 'k gate \<Rightarrow> bool" where
  "gate_run krn \<equiv> (gate_step krn)\<^sup>*\<^sup>*"

section \<open>What a step keeps of the books\<close>

text \<open>Between two states with no reload due, only some addresses are new to a table, and the subnets are
  the same.\<close>

definition books_kept :: "(nat \<times> ipv4) set \<Rightarrow> 'k resolver \<Rightarrow> 'k resolver \<Rightarrow> bool" where
  "books_kept N r r' \<longleftrightarrow> (rv_pf_stale r \<longrightarrow> rv_pf_stale r') \<and> rv_pf_shape r' = rv_pf_shape r \<and>
     length (cr_rules (rv_core r')) = length (cr_rules (rv_core r)) \<and>
     (rv_pf_stale r' \<or> held_by r' \<subseteq> held_by r \<union> N \<and> (\<forall>i ip. net_of_rule r' i ip = net_of_rule r i ip))"

lemma held_by_iff: "(i, ip) \<in> held_by r \<longleftrightarrow> (\<exists>h. hm_get (cr_hosts (rv_core r)) ip = Some h \<and> h_rule h = i)"
  by (simp add: held_by_def host_of_rule_def)

text \<open>Who owns a subnet depends on the lists and on the rules in force only.\<close>

lemma net_of_rule_same:
  assumes "rv_lists r' = rv_lists r"
    "map (\<lambda>x. (rn_active x, rn_lists x)) (cr_rules (rv_core r')) = map (\<lambda>x. (rn_active x, rn_lists x)) (cr_rules (rv_core r))"
  shows "net_of_rule r' i ip = net_of_rule r i ip"
proof -
  have l: "length (cr_rules (rv_core r')) = length (cr_rules (rv_core r))"
    using arg_cong [OF assms(2), of length] by simp
  have "rule_has (rv_core r') ls = rule_has (rv_core r) ls" for ls
  proof
    fix j
    show "rule_has (rv_core r') ls j = rule_has (rv_core r) ls j"
      using arg_cong [OF assms(2), of "\<lambda>xs. xs ! j"] l by (auto simp: rule_has_def get_def)
  qed
  then have "hm_get (core_subnet_owners (rv_core r') l') s = hm_get (core_subnet_owners (rv_core r) l') s" for l' s
    by (simp add: subnet_owners_first l)
  then show ?thesis by (simp add: net_of_rule_def assms(1))
qed


lemma books_kept_same:
  assumes "rv_pf_stale r \<longrightarrow> rv_pf_stale r'" "rv_pf_shape r' = rv_pf_shape r" "rv_lists r' = rv_lists r"
    "map (\<lambda>x. (rn_active x, rn_lists x)) (cr_rules (rv_core r')) = map (\<lambda>x. (rn_active x, rn_lists x)) (cr_rules (rv_core r))"
    "rv_pf_stale r' \<or> held_by r' \<subseteq> held_by r \<union> N"
  shows "books_kept N r r'"
proof -
  have "length (cr_rules (rv_core r')) = length (cr_rules (rv_core r))"
    using arg_cong [OF assms(4), of length] by simp
  then show ?thesis unfolding books_kept_def using assms net_of_rule_same [OF assms(3,4)] by auto
qed

lemma books_kept_stale:
  "rv_pf_stale r' \<Longrightarrow> rv_pf_shape r' = rv_pf_shape r \<Longrightarrow>
    length (cr_rules (rv_core r')) = length (cr_rules (rv_core r)) \<Longrightarrow> books_kept N r r'"
  by (simp add: books_kept_def)

lemma books_kept_trans: "books_kept N r r1 \<Longrightarrow> books_kept N r1 r2 \<Longrightarrow> books_kept N r r2"
  unfolding books_kept_def by auto

lemma held_by_same: "cr_hosts (rv_core r') = cr_hosts (rv_core r) \<Longrightarrow> held_by r' = held_by r"
  by (simp add: held_by_def host_of_rule_def)

lemma kept_country: "books_kept {} r (snd (set_country country r))"
proof (cases "List.map_filter (\<lambda>x. let active = holds (rn_when x) country in
    if active \<noteq> rn_active x then Some (rn_name x, active) else None) (cr_rules (rv_core r)) = []")
  case True
  then have "\<forall>x\<in>set (cr_rules (rv_core r)). holds (rn_when x) country = rn_active x"
    by (auto simp: map_filter_def Let_def filter_empty_conv split: if_splits)
  then show ?thesis
    by (intro books_kept_same) (simp_all add: set_country_def Let_def True held_by_def host_of_rule_def)
qed (intro books_kept_stale, simp_all add: set_country_def Let_def)

lemma kept_place_hosts:
  assumes "hm_ok (cr_hosts (rv_core r))"
  shows "books_kept {} r (snd (place_hosts krn r))"
proof -
  obtain hs' dr s' ms' where l: "place_hosts_loop krn (map rn_active (cr_rules (rv_core r)))
       (map (core_target (rv_core r)) [0..<length (cr_rules (rv_core r))]) (core_endpoints (rv_core r))
       (cr_hosts (rv_core r)) (rv_routes r) (replicate (length (cr_rules (rv_core r))) Moves_default)
     = (hs', dr, s', ms')"
    and c: "rv_core (snd (place_hosts krn r)) = (rv_core r)\<lparr>cr_hosts := filter (\<lambda>(ip, h). keeps_host (rv_core r) ip h) hs'\<rparr>"
      "rv_lists (snd (place_hosts krn r)) = rv_lists r"
    using place_hosts_core [OF refl assms, of krn] by metis
  have k: "map host_key hs' = map host_key (cr_hosts (rv_core r))" using place_hosts_loop_keys [OF l] by simp
  have ok: "hm_ok hs'" using assms host_key_fst [OF k] by simp
  have "held_by (snd (place_hosts krn r)) \<subseteq> held_by r"
    unfolding held_by_iff [abs_def]
  proof (clarify, unfold held_by_iff, elim exE conjE)
    fix i ip h
    assume h: "hm_get (cr_hosts (rv_core (snd (place_hosts krn r)))) ip = Some h" "h_rule h = i"
    then have "(ip, h) \<in> set hs'" by (auto simp: c dest: map_of_SomeD)
    then obtain h0 where "(ip, h0) \<in> set (cr_hosts (rv_core r))" "h_rule h0 = h_rule h"
      using host_key_in [OF k] by blast
    then show "\<exists>h. hm_get (cr_hosts (rv_core r)) ip = Some h \<and> h_rule h = i"
      using assms h(2) by auto
  qed
  moreover have "rv_pf_stale r \<longrightarrow> rv_pf_stale (snd (place_hosts krn r))"
    "rv_pf_shape (snd (place_hosts krn r)) = rv_pf_shape r"
    by (auto simp: place_hosts_def Let_def split: prod.splits)
  ultimately show ?thesis by (intro books_kept_same) (simp_all add: c)
qed

lemma kept_reconcile:
  assumes "resolver_ok r"
  shows "books_kept {} r (reconcile krn now r)"
proof (cases "cr_stopped (rv_core r)")
  case True
  then show ?thesis by (simp add: reconcile_def books_kept_def)
next
  case False
  define r1 where "r1 = r\<lparr>rv_core := pick_tunnels now (rv_core r)\<rparr>"
  define r2 where "r2 = snd (place_hosts krn r1)"
  have 1: "books_kept {} r r1"
    by (rule books_kept_same)
      (simp_all add: r1_def held_by_def host_of_rule_def pick_tunnels_core, simp add: pick_tunnels_def Let_def)
  have "hm_ok (cr_hosts (rv_core r1))" using assms by (simp add: r1_def pick_tunnels_core resolver_ok_def Let_def)
  then have 2: "books_kept {} r1 r2" unfolding r2_def by (rule kept_place_hosts)
  have 3: "books_kept {} r2 (snd (place_subnets krn (rv_lists r) r2))"
    by (rule books_kept_same) (simp_all add: place_subnets_def Let_def held_by_def host_of_rule_def split: prod.split)
  show ?thesis
    using books_kept_trans [OF books_kept_trans [OF 1 2] 3] False
    by (simp add: reconcile_def Let_def r1_def r2_def)
qed

lemma books_step_step: "books_step krn r r' \<Longrightarrow> rv_step krn r r'"
  by (erule books_step.cases) (simp_all only: rv_step.intros)

lemma books_step_kept:
  assumes "books_step krn r r'" "resolver_ok r"
  shows "books_kept {} r r'"
  using assms
proof cases
  case books_remove
  have "held_by r' \<subseteq> held_by r"
    by (auto simp: books_remove held_by_def host_of_rule_def remove_all_core map_of_map split: prod.splits)
  then show ?thesis unfolding books_remove by (intro books_kept_same) (auto simp: remove_all_core)
next
  case (books_country country)
  then show ?thesis by (simp only: kept_country)
next
  case (books_reconcile now)
  then show ?thesis by (simp only: kept_reconcile [OF assms(2)])
next
  case (books_lists l)
  then show ?thesis by (intro books_kept_stale) (simp_all add: set_lists_def)
next
  case (books_load hosts)
  then show ?thesis by (intro books_kept_stale) (simp_all add: load_hosts_def Let_def)
qed (intro books_kept_same, simp_all add: set_network_def set_upstream_def set_use_fakeip_def set_owner_def
    set_link_def held_by_def host_of_rule_def)+

section \<open>The invariant\<close>

text \<open>
  What the tables are, or will be when the reload under way ends; nothing is asked while it has not
  read them. They are in line when every address of a rule is in its table, or is being added, or was
  lost, and the subnets are those of the rules.
\<close>

definition tables_of :: "'k gate \<Rightarrow> table_content option" where
  "tables_of g =
     (case gt_reload g of No_reload \<Rightarrow> Some (gt_table g) | Taken s \<Rightarrow> None | Loading s t \<Rightarrow> Some (loaded t))"

definition in_line :: "'k gate \<Rightarrow> bool" where
  "in_line g \<longleftrightarrow> (\<forall>tbl. tables_of g = Some tbl \<longrightarrow>
     (\<forall>i ip. (i, ip) \<in> held_by (gt_r g) \<longrightarrow> tbl (Hosts_of i) ip \<or> (i, ip) \<in> gt_adding g \<union> gt_lost g) \<and>
     (\<forall>i<length (cr_rules (rv_core (gt_r g))). \<forall>ip. tbl (Nets_of i) ip = net_of_rule (gt_r g) i ip))"

definition gate_ok :: "'k gate \<Rightarrow> bool" where
  "gate_ok g \<longleftrightarrow> resolver_ok (gt_r g) \<and> (\<forall>s. rv_pf_shape (gt_r g) = Some s \<longrightarrow> gt_rules g = s) \<and>
     (rv_pf_stale (gt_r g) \<or> in_line g)"

lemma in_lineD:
  assumes "in_line g" "tables_of g = Some tbl"
  shows "(i, ip) \<in> held_by (gt_r g) \<Longrightarrow> tbl (Hosts_of i) ip \<or> (i, ip) \<in> gt_adding g \<union> gt_lost g"
    "i < length (cr_rules (rv_core (gt_r g))) \<Longrightarrow> tbl (Nets_of i) ip = net_of_rule (gt_r g) i ip"
  using assms by (simp_all add: in_line_def)

text \<open>A step of the resolver that keeps the books keeps the tables in line.\<close>

lemma gate_ok_kept:
  assumes "gate_ok g" "resolver_ok r" "books_kept N (gt_r g) r"
    "tables_of g' = tables_of g" "gt_r g' = r" "gt_rules g' = gt_rules g"
    "gt_adding g \<union> gt_lost g \<union> N \<subseteq> gt_adding g' \<union> gt_lost g'"
  shows "gate_ok g'"
proof (cases "rv_pf_stale r")
  case True
  with assms show ?thesis by (simp add: gate_ok_def books_kept_def)
next
  case False
  with assms(3) have k: "held_by r \<subseteq> held_by (gt_r g) \<union> N" "\<forall>i ip. net_of_rule r i ip = net_of_rule (gt_r g) i ip"
    "length (cr_rules (rv_core r)) = length (cr_rules (rv_core (gt_r g)))" "\<not> rv_pf_stale (gt_r g)"
    "rv_pf_shape r = rv_pf_shape (gt_r g)"
    by (simp_all add: books_kept_def)
  with assms(1) have l: "in_line g" by (simp add: gate_ok_def)
  have "in_line g'"
    unfolding in_line_def assms(4,5)
  proof (intro allI impI conjI)
    fix tbl i ip
    assume t: "tables_of g = Some tbl"
    show "tbl (Hosts_of i) ip \<or> (i, ip) \<in> gt_adding g' \<union> gt_lost g'" if "(i, ip) \<in> held_by r"
      using in_lineD(1) [OF l t] that k(1) assms(7) by blast
    show "tbl (Nets_of i) ip = net_of_rule r i ip" if "i < length (cr_rules (rv_core r))"
      using in_lineD(2) [OF l t] that k(2,3) by simp
  qed
  then show ?thesis using assms k(5) by (simp add: gate_ok_def)
qed

lemma gate_ok_stale:
  assumes "resolver_ok (gt_r g)" "gt_r g' = stale (gt_r g)\<lparr>rv_pf_shape := s\<rparr>" "\<forall>x. s = Some x \<longrightarrow> gt_rules g' = x"
  shows "gate_ok g'"
proof -
  have "resolver_ok (gt_r g')"
    unfolding assms(2) stale_def by (subst resolver_ok_cong [of _ "gt_r g"]) (simp_all add: assms(1))
  then show ?thesis using assms(2,3) by (simp add: gate_ok_def stale_def)
qed

lemma route_host_kept:
  assumes "route_host krn now ip rule r = (x, r')"
  shows "books_kept (if x = Inr True then {(rule, ip)} else {}) r r'"
proof -
  have "rv_pf_stale r \<longrightarrow> rv_pf_stale r'" "rv_pf_shape r' = rv_pf_shape r" "rv_lists r' = rv_lists r"
    "cr_rules (rv_core r') = cr_rules (rv_core r)"
    "held_by r' \<subseteq> held_by r \<union> (if x = Inr True then {(rule, ip)} else {})"
    using assms
    by (auto simp: route_host_def held_by_def host_of_rule_def Let_def dict_simps
        split: if_splits option.splits sum.splits prod.splits)
  then show ?thesis by (intro books_kept_same) auto
qed

lemma expire_hosts_kept:
  assumes "expire_hosts krn unix window r = (gone, r')" "resolver_ok r"
  shows "books_kept {} r r'"
proof -
  have ok: "hm_ok (cr_hosts (rv_core r))" using assms(2) by (simp add: resolver_ok_def Let_def)
  note c = expire_hosts_core [OF assms(1) ok]
  have "held_by r' \<subseteq> held_by r"
    using c ok by (auto simp: held_by_def host_of_rule_def map_of_filter_ok split: option.splits if_splits)
  moreover have "rv_pf_stale r \<longrightarrow> rv_pf_stale r'" "rv_pf_shape r' = rv_pf_shape r"
    using assms(1) by (auto simp: expire_hosts_def Let_def split: if_splits)
  ultimately show ?thesis using c by (intro books_kept_same) auto
qed

theorem gate_ok_step:
  assumes "gate_step krn g g'" "gate_ok g"
  shows "gate_ok g'"
proof -
  have r: "resolver_ok (gt_r g)" and sh: "\<forall>s. rv_pf_shape (gt_r g) = Some s \<longrightarrow> gt_rules g = s"
    using assms(2) by (simp_all add: gate_ok_def)
  from assms(1) show ?thesis
  proof cases
    case (gate_books r')
    show ?thesis
      by (rule gate_ok_kept [OF assms(2) ok_step [OF books_step_step r] books_step_kept [OF _ r]])
        (use gate_books in \<open>auto simp: tables_of_def split: reload.split\<close>)
  next
    case (gate_route now ip rule new r')
    show ?thesis
      by (rule gate_ok_kept [OF assms(2) ok_route_host [OF r gate_route(2)] route_host_kept [OF gate_route(2)]])
        (use gate_route in \<open>auto simp: tables_of_def split: reload.split\<close>)
  next
    case (gate_unrouted now ip rule e r' X)
    show ?thesis
      by (rule gate_ok_kept [OF assms(2) ok_route_host [OF r gate_unrouted(2)] route_host_kept [OF gate_unrouted(2)]])
        (use gate_unrouted in \<open>auto simp: tables_of_def split: reload.split\<close>)
  next
    case (gate_expire unix window gone r')
    have "resolver_ok r'" using ok_expire_hosts [OF r, of krn unix window] gate_expire(2) by simp
    then show ?thesis
      by (rule gate_ok_kept [OF assms(2) _ expire_hosts_kept [OF gate_expire(2) r]])
        (use gate_expire in \<open>auto simp: tables_of_def split: reload.split\<close>)
  next
    case (gate_added i ips)
    then show ?thesis using assms(2)
      by (cases "gt_reload g") (auto simp: gate_ok_def in_line_def tables_of_def of_table_def add_to_def take_from_def)
  next
    case (gate_deleted i ips)
    then show ?thesis using assms(2)
      by (cases "gt_reload g") (auto simp: gate_ok_def in_line_def tables_of_def of_table_def add_to_def take_from_def)
  next
    case (gate_add_failed i ips t)
    show ?thesis
      by (rule gate_ok_stale [OF r, of _ "rv_pf_shape (gt_r g)"]) (use gate_add_failed sh in \<open>auto simp: stale_def\<close>)
  next
    case (gate_delete_failed i ips t)
    show ?thesis
      by (rule gate_ok_stale [OF r, of _ "rv_pf_shape (gt_r g)"]) (use gate_delete_failed sh in \<open>auto simp: stale_def\<close>)
  next
    case (gate_load_failed s t s' t')
    show ?thesis by (rule gate_ok_stale [OF r, of _ None]) (use gate_load_failed in auto)
  next
    case gate_take
    have "resolver_ok (gt_r g')" unfolding gate_take(1) by (subst resolver_ok_cong [of _ "gt_r g"]) (simp_all add: r)
    then show ?thesis using sh by (simp add: gate_take(1) gate_ok_def in_line_def tables_of_def)
  next
    case (gate_read s)
    have "loaded (resolver_tables (gt_r g)) (Hosts_of i) ip" if "(i, ip) \<in> held_by (gt_r g)" for i ip
    proof -
      from that have "i < length (cr_rules (rv_core (gt_r g)))"
        using r by (force simp: held_by_def host_of_rule_def resolver_ok_def Let_def dest: map_of_SomeD)
      then show ?thesis using that loaded_resolver(1) [OF r] by (simp add: held_by_def)
    qed
    then show ?thesis
      using r sh by (simp add: gate_read(1) gate_ok_def in_line_def tables_of_def loaded_resolver(2) [OF r] del: loaded.simps)
  next
    case (gate_loaded s t)
    have "resolver_ok (gt_r g')" unfolding gate_loaded(1) by (subst resolver_ok_cong [of _ "gt_r g"]) (simp_all add: r)
    moreover have "net_of_rule (gt_r g') i ip = net_of_rule (gt_r g) i ip" for i ip
      by (rule net_of_rule_same) (simp_all add: gate_loaded(1))
    moreover have "held_by (gt_r g') = held_by (gt_r g)" by (simp add: gate_loaded(1) held_by_def host_of_rule_def)
    ultimately show ?thesis
      using assms(2) by (simp add: gate_loaded gate_ok_def in_line_def tables_of_def del: loaded.simps)
  qed
qed

text \<open>It holds from the start of a daemon, whose first reload is due.\<close>

definition gate_start :: "'k gate \<Rightarrow> bool" where
  "gate_start g \<longleftrightarrow> resolver_ok (gt_r g) \<and> rv_pf_stale (gt_r g) \<and> rv_pf_shape (gt_r g) = None"

lemma gate_ok_start: "gate_start g \<Longrightarrow> gate_ok g"
  by (simp add: gate_start_def gate_ok_def)

lemma gate_ok_run: "gate_run krn g g' \<Longrightarrow> gate_ok g \<Longrightarrow> gate_ok g'"
  by (induction rule: rtranclp_induct) (auto intro: gate_ok_step)

section \<open>What the filter does\<close>

lemma net_of_rule_bound: "net_of_rule r i ip \<Longrightarrow> i < length (cr_rules (rv_core r))"
  by (auto simp: net_of_rule_def subnet_owners_first find_Some_iff split: if_splits)

text \<open>
  Between reloads, whatever changed meanwhile in the tunnels: a packet to an address of a rule that
  is loaded goes by the interface of a tunnel that is loaded, or where the anchor is open, or not at
  all.
\<close>

theorem gate_drops:
  assumes "gate_ok g" "gt_reload g = No_reload" "\<not> rv_pf_stale (gt_r g)"
    and "(i, ip) \<in> held_by (gt_r g) - gt_adding g - gt_lost g \<or>
      \<not> sh_use_fakeip (gt_rules g) \<and> net_of_rule (gt_r g) i ip"
    and "i \<in> fst ` set (rules_on (gt_rules g))" "pkt_dst p = ip" "\<not> exempt (gt_rules g) p"
    and "pkt_iface p \<notin> \<Union> ((set \<circ> snd) ` set (rules_on (gt_rules g)))"
  shows "first_match (anchor (gt_rules g)) (gt_table g) p = Some Drop"
proof -
  have t: "tables_of g = Some (gt_table g)" by (simp add: tables_of_def assms(2))
  have l: "in_line g" using assms(1,3) by (simp add: gate_ok_def)
  have "rule_blocks (gt_rules g) (gt_table g) i ip"
    using assms(4) in_lineD(1) [OF l t, of i ip] in_lineD(2) [OF l t net_of_rule_bound, of i ip ip]
    by (auto simp: rule_blocks_def)
  moreover have "\<not> (\<exists>(j, us)\<in>set (rules_on (gt_rules g)). pkt_iface p \<in> set us \<and> rule_holds (gt_table g) j (pkt_dst p))"
    using assms(8) by force
  ultimately show ?thesis
    unfolding first_match_anchor using assms(5-7) by force
qed

end
