(* ===== verification/Demo_Gate.thy ===== *)
theory Demo_Gate
  imports Demo Pf_Content
begin

text \<open>The packet filter of the small setting: a first reload, from the start.\<close>

text \<open>The packet filter with nothing loaded, beside the resolver that has its subnet placed.\<close>

definition demo_gate :: "(route_key \<times> u16) list gate" where
  "demo_gate =
     \<lparr>gt_r = demo_ready, gt_rules = \<lparr>sh_rules = [], sh_use_fakeip = False, sh_endpoints = [], sh_network = None\<rparr>,
      gt_table = (\<lambda>t ip. False), gt_reload = No_reload, gt_adding = {}, gt_deleting = {}, gt_lost = {}\<rparr>"

lemma demo_gate_start: "gate_start demo_gate"
  by (simp add: gate_start_def demo_gate_def demo_ready_ok demo_ready_eq [THEN arg_cong, where f = rv_pf_stale]
      demo_ready_eq [THEN arg_cong, where f = rv_pf_shape])

lemma demo_shape:
  "rules_on (resolver_shape demo_ready) = [(0, [''utun4''])]" "\<not> sh_use_fakeip (resolver_shape demo_ready)"
  "\<not> exempt (resolver_shape demo_ready) \<lparr>pkt_iface = ''en0'', pkt_dst = ip4 203 0 114 5, pkt_kind = k\<rparr>"
proof -
  show "rules_on (resolver_shape demo_ready) = [(0, [''utun4''])]"
    by (simp add: rules_on_def resolver_shape_def Let_def demo_core_def demo_link_def get_def List.map_filter_simps)
  show "\<not> sh_use_fakeip (resolver_shape demo_ready)" by (simp add: resolver_shape_def Let_def)
  show "\<not> exempt (resolver_shape demo_ready) \<lparr>pkt_iface = ''en0'', pkt_dst = ip4 203 0 114 5, pkt_kind = k\<rparr>"
    by (simp add: exempt_def resolver_shape_def Let_def demo_ready_eq ip4_def ip_of_octets_def)
qed

lemma demo_gate_loaded:
  "\<exists>g. gate_run demo_kernel demo_gate g \<and> gt_reload g = No_reload \<and> \<not> rv_pf_stale (gt_r g) \<and>
    gt_rules g = resolver_shape demo_ready \<and> net_of_rule (gt_r g) 0 (ip4 203 0 114 5)"
proof -
  let ?s = "resolver_shape demo_ready"
  let ?g1 = "demo_gate\<lparr>gt_r := demo_ready\<lparr>rv_pf_stale := False\<rparr>, gt_reload := Taken ?s\<rparr>"
  let ?t = "resolver_tables (demo_ready\<lparr>rv_pf_stale := False\<rparr>)"
  let ?g2 = "?g1\<lparr>gt_reload := Loading ?s ?t, gt_lost := {}\<rparr>"
  let ?g3 = "?g2\<lparr>gt_r := demo_ready\<lparr>rv_pf_stale := False, rv_pf_shape := Some ?s\<rparr>, gt_reload := No_reload,
    gt_rules := ?s, gt_table := loaded ?t\<rparr>"
  have r: "gt_r demo_gate = demo_ready" "gt_reload demo_gate = No_reload" by (simp_all add: demo_gate_def)
  have 1: "gate_step demo_kernel demo_gate ?g1"
    using gate_take [of demo_gate demo_kernel] by (simp add: r demo_ready_eq [THEN arg_cong, where f = rv_pf_stale])
  have 2: "gate_step demo_kernel ?g1 ?g2" using gate_read [of ?g1 ?s demo_kernel] by simp
  have 3: "gate_step demo_kernel ?g2 ?g3" using gate_loaded [of ?g2 ?s ?t demo_kernel] by simp
  have "gate_run demo_kernel demo_gate ?g3" using 1 2 3 by (meson converse_rtranclp_into_rtranclp rtranclp.rtrancl_refl)
  moreover have "net_of_rule (gt_r ?g3) 0 (ip4 203 0 114 5)"
    by (simp add: net_of_rule_def demo_owners demo_addresses)
  ultimately show ?thesis by (intro exI [of _ ?g3]) simp
qed

end
