(* ===== verification/Pf_Code.thy ===== *)
theory Pf_Code
  imports Pf_Content
begin

text \<open>
  The code of \<open>src/resolver.rs\<close> that gives commands to the packet filter, and the gate of \<open>Pf_Content\<close>.
  The filter in the world is the text of the rules it has and what its tables hold; \<open>filter_obeys\<close> is
  what is documented of \<open>pfctl\<close>. Shown: with other tasks that change resolver and filter as the gate
  does, the end of a query, an expiry and a synchronisation do so too, at every cut where they wait.
\<close>

section \<open>The filter in the world\<close>

record 'w filter =
  fl_text :: "'w \<Rightarrow> string"
  fl_table :: "'w \<Rightarrow> table_content"

definition exits_well :: "child \<Rightarrow> bool" where
  "exits_well c = (case c of Exited True _ _ _ \<Rightarrow> True | _ \<Rightarrow> False)"

definition table_command :: "string \<Rightarrow> nat \<Rightarrow> ipv4 list \<Rightarrow> string list" where
  "table_command oper i ips = [''-q'', ''-a'', ANCHOR, ''-t'', HOSTS @ show_nat i, ''-T'', oper] @ map show_ip ips"

definition load_command :: "string list" where
  "load_command = [''-q'', ''-a'', ANCHOR, ''-f'', ''-'']"

text \<open>What a table holds that was loaded from a file: the addresses and the networks on its lines.\<close>

fun in_file :: "string \<Rightarrow> table_id \<Rightarrow> ipv4 \<Rightarrow> bool" where
  "in_file txt (Hosts_of i) ip = (show_ip ip \<in> set (lines txt))"
| "in_file txt (Nets_of i) ip = (\<exists>s. show_subnet s \<in> set (lines txt) \<and> contains s ip)"

text \<open>
  Tables of the anchor are changed by a part of the addresses at least, all of them when the command
  succeeds. A load that succeeds leaves the rules it was given, with the tables they name loaded from
  their files; one that fails leaves the rules as they were or as they were given. Writing a file
  changes nothing.
\<close>

definition adds_as_told :: "'w os \<Rightarrow> 'w filter \<Rightarrow> bool" where
  "adds_as_told os fl \<longleftrightarrow> (\<forall>i ips w c w'. ips \<noteq> [] \<longrightarrow>
     os_exec os PFCTL (table_command ''add'' i ips) None STEP w = (c, w') \<longrightarrow>
     fl_text fl w' = fl_text fl w \<and>
     (\<exists>part. set part \<subseteq> set ips \<and> (exits_well c \<longrightarrow> part = ips) \<and> fl_table fl w' = add_to i part (fl_table fl w)))"

definition deletes_as_told :: "'w os \<Rightarrow> 'w filter \<Rightarrow> bool" where
  "deletes_as_told os fl \<longleftrightarrow> (\<forall>i ips w c w'. ips \<noteq> [] \<longrightarrow>
     os_exec os PFCTL (table_command ''delete'' i ips) None STEP w = (c, w') \<longrightarrow>
     fl_text fl w' = fl_text fl w \<and>
     (\<exists>part. set part \<subseteq> set ips \<and> (exits_well c \<longrightarrow> part = ips) \<and> fl_table fl w' = take_from i part (fl_table fl w)))"

definition loads_as_told :: "'w os \<Rightarrow> path \<Rightarrow> 'w filter \<Rightarrow> bool" where
  "loads_as_told os dir fl \<longleftrightarrow> (\<forall>s w c w'.
     os_exec os PFCTL load_command (Some (ruleset s dir)) STEP w = (c, w') \<longrightarrow>
     (if exits_well c
      then fl_text fl w' = ruleset s dir \<and>
        (\<forall>(i, ts)\<in>set (rules_on s). \<forall>tab\<in>{Hosts_of i, Nets_of i}. \<forall>txt.
           os_read os (table_path dir tab) w = Inr txt \<longrightarrow> fl_table fl w' tab = in_file txt tab)
      else fl_text fl w' \<in> {fl_text fl w, ruleset s dir}))"

definition filter_obeys :: "'w os \<Rightarrow> path \<Rightarrow> 'w filter \<Rightarrow> bool" where
  "filter_obeys os dir fl \<longleftrightarrow> adds_as_told os fl \<and> deletes_as_told os fl \<and> loads_as_told os dir fl \<and>
     (\<forall>p txt w. fl_text fl (snd (os_write os p txt w)) = fl_text fl w \<and>
       fl_table fl (snd (os_write os p txt w)) = fl_table fl w)"

text \<open>
  The gate beside the resolver and the world: the same resolver, and, but for a load under way, the
  filter has its rules, and its tables as far as the rules name them.
\<close>

definition same_tables :: "shape \<Rightarrow> table_content \<Rightarrow> table_content \<Rightarrow> bool" where
  "same_tables s t u \<longleftrightarrow> (\<forall>(i, ts)\<in>set (rules_on s). t (Hosts_of i) = u (Hosts_of i) \<and> t (Nets_of i) = u (Nets_of i))"

definition beside :: "path \<Rightarrow> 'w filter \<Rightarrow> 'k gate \<Rightarrow> 'k resolver \<Rightarrow> 'w \<Rightarrow> bool" where
  "beside dir fl g r w \<longleftrightarrow> gt_r g = r \<and>
     (lock_free (gt_reload g) \<longrightarrow>
        fl_text fl w = ruleset (gt_rules g) dir \<and> same_tables (gt_rules g) (fl_table fl w) (gt_table g))"

section \<open>What the others do\<close>

text \<open>
  At a wait they take steps of the gate. A task that waited for the lock of the filter, or for its own
  command, goes on with no load of another under way, whichever was when the wait began.
\<close>

definition goes_on :: "('k, 'w) env \<Rightarrow> path \<Rightarrow> 'w filter \<Rightarrow> reload \<Rightarrow> 'w \<Rightarrow> bool" where
  "goes_on env dir fl rl w \<longleftrightarrow> (\<forall>g r r' w'. gt_reload g = rl \<longrightarrow> beside dir fl g r w \<longrightarrow> en_others env (r, w) = (r', w') \<longrightarrow>
     (\<exists>g'. gate_run (en_kernel env) g g' \<and> beside dir fl g' r' w' \<and> lock_free (gt_reload g')))"

definition others_wait :: "('k, 'w) env \<Rightarrow> path \<Rightarrow> 'w filter \<Rightarrow> bool" where
  "others_wait env dir fl \<longleftrightarrow> (\<forall>rl w. lock_free rl \<longrightarrow> goes_on env dir fl rl w)"

text \<open>While a task reloads, the locks keep the others from it, and from the tables while they are loaded.\<close>

definition leaves_reload :: "('k, 'w) env \<Rightarrow> path \<Rightarrow> 'w filter \<Rightarrow> reload \<Rightarrow> 'k resolver \<Rightarrow> 'w \<Rightarrow> bool" where
  "leaves_reload env dir fl rl r w \<longleftrightarrow> (\<forall>g r' w'. gt_reload g = rl \<longrightarrow> beside dir fl g r w \<longrightarrow> en_others env (r, w) = (r', w') \<longrightarrow>
     (\<exists>g'. gate_run (en_kernel env) g g' \<and> beside dir fl g' r' w' \<and> gt_reload g' = rl \<and>
        (\<not> lock_free rl \<longrightarrow> fl_text fl w' = fl_text fl w \<and> fl_table fl w' = fl_table fl w)))"

text \<open>The three waits of a synchronisation: for its turn, for the lock of the filter, for the command.\<close>

definition sync_waits :: "('k, 'w) env \<Rightarrow> path \<Rightarrow> 'w filter \<Rightarrow> 'k resolver \<Rightarrow> 'w \<Rightarrow> bool" where
  "sync_waits env dir fl r w \<longleftrightarrow>
     (let (ra, wa) = en_others env (r, w);
          s = resolver_shape ra;
          r0 = ra\<lparr>rv_pf_stale := False\<rparr>;
          (rb, wb) = en_others env (r0, wa);
          t = resolver_tables rb
      in leaves_reload env dir fl No_reload r w \<and> leaves_reload env dir fl (Taken s) r0 wa \<and>
         leaves_reload env dir fl (Loading s t) rb (snd (Pf_load (en_os env) dir s t wb)))"

lemma goes_onE:
  assumes "goes_on env dir fl (gt_reload g) w" "beside dir fl g r w" "en_others env (r, w) = (r', w')"
  obtains g' where "gate_run (en_kernel env) g g'" "beside dir fl g' r' w'" "lock_free (gt_reload g')"
  using assms unfolding goes_on_def by blast

lemma leaves_reloadE:
  assumes "leaves_reload env dir fl (gt_reload g) r w" "beside dir fl g r w" "en_others env (r, w) = (r', w')"
  obtains g' where "gate_run (en_kernel env) g g'" "beside dir fl g' r' w'" "gt_reload g' = gt_reload g"
    "\<not> lock_free (gt_reload g) \<longrightarrow> fl_text fl w' = fl_text fl w \<and> fl_table fl w' = fl_table fl w"
  using assms unfolding leaves_reload_def by blast

lemma gate_run_step: "gate_run krn g g1 \<Longrightarrow> gate_step krn g1 g2 \<Longrightarrow> gate_run krn g g2"
  by (rule rtranclp.rtrancl_into_rtrancl)

lemma same_tables_add: "same_tables s t u \<Longrightarrow> same_tables s (add_to i ips t) (add_to i ips u)"
  by (auto simp: same_tables_def add_to_def split: prod.splits)

lemma same_tables_take: "same_tables s t u \<Longrightarrow> same_tables s (take_from i ips t) (take_from i ips u)"
  by (auto simp: same_tables_def take_from_def split: prod.splits)

section \<open>Tables changed\<close>

lemma Pf_add_exec:
  assumes "ips \<noteq> []" "Pf_add os i ips w = (x, w')"
  obtains c where "os_exec os PFCTL (table_command ''add'' i ips) None STEP w = (c, w')" "x = Inr () \<longleftrightarrow> exits_well c"
  using assms
  by (auto simp: Pf_add_def Pf_table_def run_def run_both_def table_command_def exits_well_def
      split: prod.splits sum.splits child.splits bool.splits)

lemma Pf_delete_exec:
  assumes "ips \<noteq> []" "Pf_delete os i ips w = (x, w')"
  obtains c where "os_exec os PFCTL (table_command ''delete'' i ips) None STEP w = (c, w')" "x = Inr () \<longleftrightarrow> exits_well c"
  using assms
  by (auto simp: Pf_delete_def Pf_table_def run_def run_both_def table_command_def exits_well_def
      split: prod.splits sum.splits child.splits bool.splits)

lemma change_table_gate:
  assumes "others_wait env dir fl" "goes_on env dir fl (gt_reload g) w" "beside dir fl g r w" "change_table env change ips r w = (x, r', w')"
    and "\<And>g r w y w1. ips \<noteq> [] \<Longrightarrow> beside dir fl g r w \<Longrightarrow> lock_free (gt_reload g) \<Longrightarrow> change w = (y, w1) \<Longrightarrow>
      \<exists>g'. gate_step (en_kernel env) g g' \<and> beside dir fl g' r w1 \<and> gt_reload g' = gt_reload g"
  obtains g' where "gate_run (en_kernel env) g g'" "beside dir fl g' r' w'"
    "x \<noteq> Inr () \<or> lock_free (gt_reload g) \<Longrightarrow> lock_free (gt_reload g')"
proof (cases "ips = []")
  case True
  with assms(3,4) that [of g] show thesis by (simp add: change_table_def)
next
  case False
  obtain r1 w1 where 1: "en_others env (r, w) = (r1, w1)" by fastforce
  obtain y w2 where 2: "change w1 = (y, w2)" by fastforce
  obtain r3 w3 where 3: "en_others env (r1, w2) = (r3, w3)" by fastforce
  have e: "x = y" "r' = r3" "w' = w3" using assms(4) False 1 2 3 by (simp_all add: change_table_def)
  obtain g1 where g1: "gate_run (en_kernel env) g g1" "beside dir fl g1 r1 w1" "lock_free (gt_reload g1)"
    by (rule goes_onE [OF assms(2,3) 1])
  obtain g2 where g2: "gate_step (en_kernel env) g1 g2" "beside dir fl g2 r1 w2" "gt_reload g2 = gt_reload g1"
    using assms(5) [OF False g1(2,3) 2] by blast
  have "goes_on env dir fl (gt_reload g2) w2" using assms(1) g1(3) g2(3) by (simp add: others_wait_def)
  then obtain g3 where g3: "gate_run (en_kernel env) g2 g3" "beside dir fl g3 r3 w3" "lock_free (gt_reload g3)"
    using g2(2) 3 by (rule goes_onE)
  show thesis
  proof (rule that)
    show "gate_run (en_kernel env) g g3" using gate_run_step [OF g1(1) g2(1)] g3(1) by (rule rtranclp_trans)
  qed (use g3 e in simp_all)
qed

lemma add_gate:
  assumes "filter_obeys os dir fl" "ips \<noteq> []" "beside dir fl g r w" "lock_free (gt_reload g)" "Pf_add os i ips w = (y, w1)"
  shows "\<exists>g'. gate_step krn g g' \<and> beside dir fl g' r w1 \<and> gt_reload g' = gt_reload g"
proof -
  obtain c where "os_exec os PFCTL (table_command ''add'' i ips) None STEP w = (c, w1)"
    by (rule Pf_add_exec [OF assms(2,5)])
  with assms(1,2) obtain part where p: "fl_text fl w1 = fl_text fl w" "fl_table fl w1 = add_to i part (fl_table fl w)"
    unfolding filter_obeys_def adds_as_told_def by blast
  have "beside dir fl (g\<lparr>gt_adding := gt_adding g - of_table i part, gt_table := add_to i part (gt_table g)\<rparr>) r w1"
    using assms(3,4) p by (simp add: beside_def same_tables_add)
  then show ?thesis by (intro exI conjI) (rule gate_added [OF assms(4)], assumption, simp)
qed

lemma delete_gate:
  assumes "filter_obeys os dir fl" "ips \<noteq> []" "beside dir fl g r w" "lock_free (gt_reload g)" "Pf_delete os i ips w = (y, w1)"
  shows "\<exists>g'. gate_step krn g g' \<and> beside dir fl g' r w1 \<and> gt_reload g' = gt_reload g"
proof -
  obtain c where "os_exec os PFCTL (table_command ''delete'' i ips) None STEP w = (c, w1)"
    by (rule Pf_delete_exec [OF assms(2,5)])
  with assms(1,2) obtain part where p: "fl_text fl w1 = fl_text fl w" "fl_table fl w1 = take_from i part (fl_table fl w)"
    unfolding filter_obeys_def deletes_as_told_def by blast
  have "beside dir fl (g\<lparr>gt_deleting := gt_deleting g - of_table i part, gt_table := take_from i part (gt_table g),
      gt_lost := gt_lost g \<union> (of_table i part \<inter> held_by (gt_r g))\<rparr>) r w1"
    using assms(3,4) p by (simp add: beside_def same_tables_take)
  then show ?thesis by (intro exI conjI) (rule gate_deleted [OF assms(4)], assumption, simp)
qed

section \<open>A query\<close>

text \<open>The addresses of an answer: all pending when it goes on, none when it is given up.\<close>

lemma route_answers_steps:
  "route_answers krn now es rule ips (gt_r g) = (x, r) \<Longrightarrow>
    \<exists>g'. gate_run krn g g' \<and> gt_r g' = r \<and> gt_reload g' = gt_reload g \<and> gt_rules g' = gt_rules g \<and>
      gt_table g' = gt_table g \<and>
      (case x of Inr new \<Rightarrow> gt_adding g' = gt_adding g \<union> of_table rule new | Inl e \<Rightarrow> gt_adding g' \<subseteq> gt_adding g - X)"
proof (induction ips arbitrary: g x r X)
  case Nil
  then have "x = Inr []" "r = gt_r g" by simp_all
  then show ?case by (intro exI [of _ g]) (simp add: of_table_def)
next
  case (Cons ip ips)
  show ?case
  proof (cases "routable ip es")
    case False
    with Cons show ?thesis by simp
  next
    case True
    obtain y r1 where h: "route_host krn now ip rule (gt_r g) = (y, r1)" by fastforce
    show ?thesis
    proof (cases y)
      case (Inl e)
      with True h Cons.prems have "x = Inl e" "r = r1" by simp_all
      with gate_unrouted [of krn now ip rule g e r1 X] h Inl show ?thesis
        by (intro exI [of _ "on_gate g r1\<lparr>gt_adding := gt_adding g - X, gt_lost := gt_lost g \<union> (X \<inter> gt_adding g)\<rparr>"])
          (auto simp: r_into_rtranclp)
    next
      case (Inr b)
      let ?g = "on_gate g r1\<lparr>gt_adding := gt_adding g \<union> (if b then {(rule, ip)} else {})\<rparr>"
      have 1: "gate_step krn g ?g" by (rule gate_route) (use h Inr in simp)
      obtain z r2 where z: "route_answers krn now es rule ips (gt_r ?g) = (z, r2)" by fastforce
      obtain g' where g': "gate_run krn ?g g'" "gt_r g' = r2" "gt_reload g' = gt_reload g" "gt_rules g' = gt_rules g"
        "gt_table g' = gt_table g"
        "case z of Inr new \<Rightarrow> gt_adding g' = gt_adding ?g \<union> of_table rule new | Inl e \<Rightarrow> gt_adding g' \<subseteq> gt_adding ?g - (X \<union> {(rule, ip)})"
        using Cons.IH [OF z, of "X \<union> {(rule, ip)}"] by auto
      have run: "gate_run krn g g'" using 1 g'(1) by (rule converse_rtranclp_into_rtranclp)
      show ?thesis
      proof (cases z)
        case z': (Inr new)
        then have "x = Inr (if b then ip # new else new)" "r = r2" using True h Inr z Cons.prems by simp_all
        with run g' z' show ?thesis by (intro exI [of _ g']) (auto simp: of_table_def)
      next
        case z': (Inl e)
        then have x: "x = Inl e" "r = r2" using True h Inr z Cons.prems by simp_all
        from run g' z' x show ?thesis by (intro exI [of _ g']) (auto split: if_splits)
      qed
    qed
  qed
qed

lemma beside_same_filter:
  assumes "beside dir fl g r w" "gt_r g' = r'" "gt_reload g' = gt_reload g" "gt_rules g' = gt_rules g" "gt_table g' = gt_table g"
  shows "beside dir fl g' r' w"
  using assms by (simp add: beside_def)

lemma place_answer_gate:
  assumes "filter_obeys (en_os env) dir fl" "others_wait env dir fl" "goes_on env dir fl (gt_reload g) w"
    and "beside dir fl g r w" "place_answer env pk b m r w = (a, r', w')"
  shows "\<exists>g'. gate_run (en_kernel env) g g' \<and> beside dir fl g' r' w'"
proof -
  let ?krn = "en_kernel env"
  have r: "gt_r g = r" using assms(4) by (simp add: beside_def)
  obtain x r1 where 1: "route_answers ?krn (en_unix env w) (core_endpoints (rv_core r)) (pk_rule pk) (ipv4_answers m) r = (x, r1)"
    by fastforce
  obtain g1 where g1: "gate_run ?krn g g1" "gt_r g1 = r1" "gt_reload g1 = gt_reload g" "gt_rules g1 = gt_rules g"
    "gt_table g1 = gt_table g"
    using route_answers_steps [OF 1 [folded r]] by blast
  have b1: "beside dir fl g1 r1 w" by (rule beside_same_filter [OF assms(4) g1(2-5)])
  show ?thesis
  proof (cases "\<exists>new. x = Inr new \<and> rv_pf r1 \<noteq> None")
    case False
    then have "r' = r1" "w' = w" using assms(5) 1 by (auto simp: place_answer_def split: sum.splits option.splits)
    with g1(1) b1 show ?thesis by blast
  next
    case True
    then obtain new where new: "x = Inr new" "rv_pf r1 \<noteq> None" by blast
    obtain y r2 w2 where 2: "change_table env (Pf_add (en_os env) (pk_rule pk) new) new r1 w = (y, r2, w2)"
      by (metis prod_cases3)
    obtain g2 where g2: "gate_run ?krn g1 g2" "beside dir fl g2 r2 w2" "y \<noteq> Inr () \<or> lock_free (gt_reload g1) \<Longrightarrow> lock_free (gt_reload g2)"
      by (rule change_table_gate [OF assms(2) _ b1 2 add_gate [OF assms(1)]]) (use assms(3) g1(3) in auto)
    have run: "gate_run ?krn g g2" using g1(1) g2(1) by (rule rtranclp_trans)
    show ?thesis
    proof (cases y)
      case (Inr u)
      then have "r' = r2" "w' = w2" using assms(5) 1 2 new by (auto simp: place_answer_def split: option.splits)
      with run g2(2) show ?thesis by blast
    next
      case (Inl e)
      then have e: "r' = stale r2" "w' = w2" using assms(5) 1 2 new by (auto simp: place_answer_def stale_def split: option.splits)
      let ?g = "g2\<lparr>gt_r := stale (gt_r g2), gt_adding := gt_adding g2 - of_table (pk_rule pk) new, gt_table := gt_table g2\<rparr>"
      have "gate_step ?krn g2 ?g" using g2(3) Inl by (intro gate_add_failed) simp
      moreover have "beside dir fl ?g r' w'" using g2(2) e by (simp add: beside_def)
      ultimately show ?thesis using gate_run_step [OF run] by blast
    qed
  qed
qed

section \<open>An expiry\<close>

lemma expire_tables_gate:
  assumes "filter_obeys (en_os env) dir fl" "others_wait env dir fl"
  shows "lock_free (gt_reload g) \<Longrightarrow> beside dir fl g r w \<Longrightarrow> expire_tables env groups r w = (r', w') \<Longrightarrow>
    \<exists>g'. gate_run (en_kernel env) g g' \<and> beside dir fl g' r' w'"
proof (induction groups arbitrary: g r w)
  case Nil
  then show ?case by auto
next
  case (Cons e groups)
  let ?krn = "en_kernel env"
  obtain rule ips where e: "e = (rule, ips)" by fastforce
  obtain y r2 w2 where 2: "change_table env (Pf_delete (en_os env) rule ips) ips r w = (y, r2, w2)" by (metis prod_cases3)
  obtain g2 where g2: "gate_run ?krn g g2" "beside dir fl g2 r2 w2" "lock_free (gt_reload g2)"
  proof (rule change_table_gate [OF assms(2) _ Cons.prems(2) 2 delete_gate [OF assms(1)]])
    show "goes_on env dir fl (gt_reload g) w" using assms(2) Cons.prems(1) by (simp add: others_wait_def)
  qed (use Cons.prems(1) in auto)
  let ?r = "case y of Inl _ \<Rightarrow> stale r2 | Inr _ \<Rightarrow> r2"
  have rest: "expire_tables env groups ?r w2 = (r', w')"
    using Cons.prems(3) 2 by (cases y) (auto simp: e stale_def)
  have "\<exists>g3. gate_run ?krn g2 g3 \<and> beside dir fl g3 ?r w2 \<and> lock_free (gt_reload g3)"
  proof (cases y)
    case (Inr u)
    with g2(2,3) show ?thesis by auto
  next
    case (Inl err)
    let ?g = "g2\<lparr>gt_r := stale (gt_r g2), gt_deleting := gt_deleting g2 - of_table rule ips, gt_table := gt_table g2\<rparr>"
    have "gate_step ?krn g2 ?g" using g2(3) by (rule gate_delete_failed)
    moreover have "beside dir fl ?g (stale r2) w2" using g2(2) by (simp add: beside_def)
    ultimately show ?thesis using Inl g2(3) by (intro exI [of _ ?g]) (simp add: r_into_rtranclp)
  qed
  then obtain g3 where g3: "gate_run ?krn g2 g3" "beside dir fl g3 ?r w2" "lock_free (gt_reload g3)" by blast
  from Cons.IH [OF g3(3,2) rest] g2(1) g3(1) show ?case by (meson rtranclp_trans)
qed

lemma expire_gate:
  assumes "filter_obeys (en_os env) dir fl" "others_wait env dir fl" "beside dir fl g r w" "lock_free (gt_reload g)"
    and "expire env unix window r w = (n, r', w')"
  shows "\<exists>g'. gate_run (en_kernel env) g g' \<and> beside dir fl g' r' w'"
proof -
  obtain gone r1 where 1: "expire_hosts (en_kernel env) unix window r = (gone, r1)" by fastforce
  have r: "gt_r g = r" using assms(3) by (simp add: beside_def)
  let ?g = "on_gate g r1\<lparr>gt_deleting := gt_deleting g \<union> (\<lambda>(ip, h). (h_rule h, ip)) ` set gone\<rparr>"
  have s: "gate_step (en_kernel env) g ?g" by (rule gate_expire) (use 1 r in simp)
  have b: "beside dir fl ?g r1 w" using assms(3) by (simp add: beside_def)
  show ?thesis
  proof (cases "gone = [] \<or> rv_pf r1 = None")
    case True
    then have "r' = r1" "w' = w" using assms(5) 1 by (auto simp: expire_def split: option.splits if_splits)
    with s b show ?thesis by blast
  next
    case False
    then have "expire_tables env (group_gone gone []) r1 w = (r', w')"
      using assms(5) 1 by (auto simp: expire_def split: option.splits)
    from expire_tables_gate [OF assms(1,2) _ b this] s assms(4) show ?thesis by (auto dest: converse_rtranclp_into_rtranclp)
  qed
qed

section \<open>A synchronisation\<close>

lemma lines_of_items:
  assumes "\<forall>x. \<forall>c\<in>set (sh x). \<not> is_ws c"
  shows "lines (write_lines sh xs) = map sh xs"
proof (induction xs)
  case (Cons x xs)
  have "NL \<notin> set (sh x) \<and> (sh x = [] \<or> last (sh x) \<noteq> CR)" using assms by (intro not_ws_line) blast
  with Cons show ?case by (simp add: write_lines_concat writeln_def lines_append)
qed (simp add: write_lines_concat)

lemma show_subnet_no_ws: "\<forall>c\<in>set (show_subnet s). \<not> is_ws c"
  by (auto simp: show_subnet_def show_ip_no_ws show_nat_no_ws)

lemma show_subnet_inj: "show_subnet s = show_subnet t \<Longrightarrow> s = t"
proof -
  assume e: "show_subnet s = show_subnet t"
  have "CHR ''/'' \<notin> set (show_nat n)" for n using show_nat_digits [of n] by (auto simp: is_digit_def)
  then have no: "CHR ''/'' \<notin> set (show_ip ip)" for ip by (simp add: show_ip_def)
  have tk: "takeWhile (\<lambda>c. c \<noteq> CHR ''/'') (show_subnet u) = show_ip (sn_addr u)"
    "dropWhile (\<lambda>c. c \<noteq> CHR ''/'') (show_subnet u) = CHR ''/'' # show_nat (unat (sn_prefix u))" for u
    using no [of "sn_addr u"] by (auto simp: show_subnet_def takeWhile_append dropWhile_append)
  have "sn_addr s = sn_addr t" using tk(1) [of s] tk(1) [of t] e show_ip_inj by simp
  moreover have "sn_prefix s = sn_prefix t" using tk(2) [of s] tk(2) [of t] e
    by (auto dest!: show_nat_inj simp: word_unat_eq_iff)
  ultimately show "s = t" by (cases s; cases t) simp
qed

lemma in_file_text: "in_file (file_text t tab) tab = loaded t tab"
proof (cases tab)
  case (Hosts_of i)
  then show ?thesis by (auto simp: fun_eq_iff lines_of_items show_ip_no_ws dest: show_ip_inj)
next
  case (Nets_of i)
  then show ?thesis by (auto simp: fun_eq_iff lines_of_items show_subnet_no_ws dest: show_subnet_inj)
qed

lemma write_tables_filter:
  assumes "\<forall>p txt w. fl_text fl (snd (os_write os p txt w)) = fl_text fl w"
  shows "write_tables os dir t is w = (x, w') \<Longrightarrow> fl_text fl w' = fl_text fl w"
proof (induction "is" arbitrary: w)
  case (Cons i "is")
  obtain a w1 where a: "os_write os (table_path dir (Hosts_of i)) (file_text t (Hosts_of i)) w = (a, w1)" by fastforce
  obtain b w2 where b: "os_write os (table_path dir (Nets_of i)) (file_text t (Nets_of i)) w1 = (b, w2)" by fastforce
  have "fl_text fl w1 = fl_text fl w" "fl_text fl w2 = fl_text fl w1" using assms a b by (metis snd_conv)+
  with Cons.IH [of w2] Cons.prems show ?case
    by (cases a; cases b) (auto simp: write_private_def a [simplified] b [simplified])
qed simp

lemma rules_on_length: "(i, ts) \<in> set (rules_on s) \<Longrightarrow> i < length (sh_rules s)"
  by (auto simp: rules_on_iff get_def split: if_splits)

lemma Pf_load_filter:
  assumes "disk_ok os" "filter_obeys os dir fl" "Pf_load os dir s t w = (x, w')"
  shows "case x of
      Inr _ \<Rightarrow> fl_text fl w' = ruleset s dir \<and> same_tables s (fl_table fl w') (loaded t)
    | Inl _ \<Rightarrow> fl_text fl w' \<in> {fl_text fl w, ruleset s dir}"
proof (cases x)
  case (Inr u)
  obtain w1 st out err where l: "\<And>i. i < length (sh_rules s) \<Longrightarrow>
      os_read os (table_path dir (Hosts_of i)) w1 = Inr (file_text t (Hosts_of i)) \<and>
      os_read os (table_path dir (Nets_of i)) w1 = Inr (file_text t (Nets_of i))"
    "os_exec os PFCTL load_command (Some (ruleset s dir)) STEP w1 = (Exited True st out err, w')"
    using Pf_load_Inr [OF assms(1) assms(3) [unfolded Inr]] unfolding load_command_def by blast
  have t: "fl_text fl w' = ruleset s dir \<and> (\<forall>(i, ts)\<in>set (rules_on s). \<forall>tab\<in>{Hosts_of i, Nets_of i}. \<forall>txt.
      os_read os (table_path dir tab) w1 = Inr txt \<longrightarrow> fl_table fl w' tab = in_file txt tab)"
    using assms(2) l(2) unfolding filter_obeys_def loads_as_told_def exits_well_def by fastforce
  have "fl_table fl w' tab = loaded t tab" if "(i, ts) \<in> set (rules_on s)" "tab \<in> {Hosts_of i, Nets_of i}" for i ts tab
  proof -
    have "os_read os (table_path dir tab) w1 = Inr (file_text t tab)"
      using l(1) [OF rules_on_length [OF that(1)]] that(2) by blast
    with t that have "fl_table fl w' tab = in_file (file_text t tab) tab" by blast
    then show ?thesis by (simp only: in_file_text)
  qed
  with t Inr show ?thesis by (auto simp: same_tables_def)
next
  case (Inl e)
  obtain a w1 where a: "write_tables os dir t [0..<length (sh_rules s)] w = (a, w1)" by fastforce
  have w1: "fl_text fl w1 = fl_text fl w"
    using assms(2) by (intro write_tables_filter [OF _ a]) (simp add: filter_obeys_def)
  show ?thesis
  proof (cases a)
    case (Inl e')
    then have "w' = w1" using assms(3) a by (auto simp: Pf_load_def)
    with w1 \<open>x = Inl e\<close> show ?thesis by simp
  next
    case (Inr v)
    obtain c where "os_exec os PFCTL load_command (Some (ruleset s dir)) STEP w1 = (c, w')"
      using assms(3) a Inr
      by (auto simp: Pf_load_def run_def run_both_def load_command_def split: prod.splits sum.splits child.splits bool.splits)
    with assms(2) have "fl_text fl w' \<in> {fl_text fl w1, ruleset s dir}"
      unfolding filter_obeys_def loads_as_told_def by (metis insert_iff)
    with w1 \<open>x = Inl e\<close> show ?thesis by simp
  qed
qed

lemma sync_pf_gate:
  assumes "disk_ok (en_os env)" "filter_obeys (en_os env) dir fl" "sync_waits env dir fl r w" "beside dir fl g r w"
    and "gt_reload g = No_reload" "rv_pf r = Some dir" "sync_pf env r w = (x, r', w')"
  shows "\<exists>g'. gate_run (en_kernel env) g g' \<and> beside dir fl g' r' w' \<and> gt_reload g' = No_reload"
proof -
  let ?krn = "en_kernel env"
  obtain ra wa where a: "en_others env (r, w) = (ra, wa)" by fastforce
  obtain ga where ga: "gate_run ?krn g ga" "beside dir fl ga ra wa" "gt_reload ga = gt_reload g"
    by (rule leaves_reloadE [OF _ assms(4) a]) (use assms(3,5) a in \<open>auto simp: sync_waits_def Let_def split: prod.splits\<close>)
  have gar: "gt_r ga = ra" "gt_reload ga = No_reload" using ga(2,3) assms(5) by (simp_all add: beside_def)
  let ?s = "resolver_shape ra" and ?r0 = "ra\<lparr>rv_pf_stale := False\<rparr>"
  show ?thesis
  proof (cases "\<not> rv_pf_stale ra \<and> rv_pf_shape ra = Some ?s")
    case True
    then have "?r0 = ra" by (cases ra) simp
    with True assms(6,7) a have "r' = ra" "w' = wa" by (simp_all add: sync_pf_def Let_def)
    with ga(1,2) gar(2) show ?thesis by blast
  next
    case False
    let ?g0 = "ga\<lparr>gt_r := ?r0, gt_reload := Taken ?s\<rparr>"
    have s0: "gate_step ?krn ga ?g0" using gate_take [of ga ?krn] gar False by simp
    have b0: "beside dir fl ?g0 ?r0 wa" using ga(2) gar by (simp add: beside_def)
    obtain rb wb where b: "en_others env (?r0, wa) = (rb, wb)" by fastforce
    obtain gb where gb: "gate_run ?krn ?g0 gb" "beside dir fl gb rb wb" "gt_reload gb = gt_reload ?g0"
      by (rule leaves_reloadE [OF _ b0 b]) (use assms(3) a b in \<open>auto simp: sync_waits_def Let_def split: prod.splits\<close>)
    have gbr: "gt_r gb = rb" "gt_reload gb = Taken ?s" using gb(2,3) by (simp_all add: beside_def)
    let ?t = "resolver_tables rb"
    let ?g1 = "gb\<lparr>gt_reload := Loading ?s ?t, gt_lost := {}\<rparr>"
    have s1: "gate_step ?krn gb ?g1" using gate_read [OF gbr(2), of ?krn] gbr(1) by simp
    obtain y w2 where l: "Pf_load (en_os env) dir ?s ?t wb = (y, w2)" by fastforce
    note f = Pf_load_filter [OF assms(1,2) l]
    have b1: "beside dir fl ?g1 rb w2" using gbr(1) by (simp add: beside_def)
    obtain rc wc where c: "en_others env (rb, w2) = (rc, wc)" by fastforce
    obtain gc where gc: "gate_run ?krn ?g1 gc" "beside dir fl gc rc wc" "gt_reload gc = gt_reload ?g1"
      "\<not> lock_free (gt_reload ?g1) \<longrightarrow> fl_text fl wc = fl_text fl w2 \<and> fl_table fl wc = fl_table fl w2"
      by (rule leaves_reloadE [OF _ b1 c]) (use assms(3) a b l in \<open>auto simp: sync_waits_def Let_def split: prod.splits\<close>)
    have gcr: "gt_r gc = rc" "gt_reload gc = Loading ?s ?t" "fl_text fl wc = fl_text fl w2" "fl_table fl wc = fl_table fl w2"
      using gc(2-4) by (simp_all add: beside_def)
    have run: "gate_run ?krn g gc"
      using gate_run_step [OF ga(1) s0] gate_run_step [OF gb(1) s1] gc(1) by (meson rtranclp_trans)
    show ?thesis
    proof (cases y)
      case (Inr u)
      let ?g = "gc\<lparr>gt_r := (gt_r gc)\<lparr>rv_pf_shape := Some ?s\<rparr>, gt_reload := No_reload, gt_rules := ?s, gt_table := loaded ?t\<rparr>"
      have "r' = rc\<lparr>rv_pf_shape := Some ?s\<rparr>" "w' = wc"
        using assms(6,7) False a b c l Inr by (auto simp: sync_pf_def Let_def)
      then have "beside dir fl ?g r' w'" using f Inr gcr by (simp add: beside_def)
      with gate_run_step [OF run gate_loaded [OF gcr(2)]] show ?thesis by (intro exI [of _ ?g]) simp
    next
      case (Inl e)
      have "fl_text fl wb = ruleset (gt_rules gb) dir" using gb(2) gbr(2) by (simp add: beside_def)
      with f Inl obtain s' where s': "fl_text fl w2 = ruleset s' dir" by auto
      let ?g = "gc\<lparr>gt_r := stale (gt_r gc)\<lparr>rv_pf_shape := None\<rparr>, gt_reload := No_reload, gt_rules := s', gt_table := fl_table fl w2\<rparr>"
      have "r' = stale rc\<lparr>rv_pf_shape := None\<rparr>" "w' = wc"
        using assms(6,7) False a b c l Inl by (auto simp: sync_pf_def Let_def stale_def)
      then have "beside dir fl ?g r' w'" using s' gcr by (simp add: beside_def same_tables_def)
      with gate_run_step [OF run gate_load_failed [OF gcr(2)]] show ?thesis by (intro exI [of _ ?g]) simp
    qed
  qed
qed

section \<open>What the filter in the world drops\<close>

lemma first_match_same:
  assumes "same_tables s t u"
  shows "first_match (anchor s) t p = first_match (anchor s) u p"
proof -
  have h: "rule_holds t (fst x) ip = rule_holds u (fst x) ip" "rule_blocks s t (fst x) ip = rule_blocks s u (fst x) ip"
    if "x \<in> set (rules_on s)" for x ip
    using assms that by (auto simp: same_tables_def rule_holds_def rule_blocks_def)
  show ?thesis unfolding first_match_anchor split_beta by (simp add: h cong: bex_cong)
qed

text \<open>The packets that are held back: to an address of a rule that is loaded, by no way that is open.\<close>

definition held_back :: "'k gate \<Rightarrow> packet \<Rightarrow> bool" where
  "held_back g p \<longleftrightarrow> \<not> exempt (gt_rules g) p \<and>
     pkt_iface p \<notin> \<Union> ((set \<circ> snd) ` set (rules_on (gt_rules g))) \<and>
     (\<exists>i\<in>fst ` set (rules_on (gt_rules g)).
        (i, pkt_dst p) \<in> held_by (gt_r g) - gt_adding g - gt_lost g \<or>
        \<not> sh_use_fakeip (gt_rules g) \<and> net_of_rule (gt_r g) i (pkt_dst p))"

lemma drops_beside:
  assumes "gate_ok g" "beside dir fl g r w" "gt_reload g = No_reload" "\<not> rv_pf_stale r" "held_back g p"
  shows "first_match (anchor (gt_rules g)) (fl_table fl w) p = Some Drop"
proof -
  have r: "gt_r g = r" and t: "same_tables (gt_rules g) (fl_table fl w) (gt_table g)"
    using assms(2,3) by (simp_all add: beside_def)
  obtain i where i: "i \<in> fst ` set (rules_on (gt_rules g))"
    "(i, pkt_dst p) \<in> held_by (gt_r g) - gt_adding g - gt_lost g \<or> \<not> sh_use_fakeip (gt_rules g) \<and> net_of_rule (gt_r g) i (pkt_dst p)"
    using assms(5) unfolding held_back_def by blast
  show ?thesis
    unfolding first_match_same [OF t]
    by (rule gate_drops [OF assms(1,3) _ i(2,1) refl]) (use assms(4,5) r in \<open>simp_all add: held_back_def\<close>)
qed

end
