(* ===== verification/Demo_Filter.thy ===== *)
theory Demo_Filter
  imports Demo_Gate Pf_Code
begin

text \<open>
  The small setting with a packet filter in it: a world with the text of the rules it has and what its
  tables hold, and a \<open>pfctl\<close> that reads its arguments and its files.
\<close>

type_synonym filter_world = "world \<times> string \<times> table_content"

definition demo_loads :: "world \<Rightarrow> table_content" where
  "demo_loads w tab =
     (case os_read (demo_os all_well) (table_path ''/run'' tab) w of Inr txt \<Rightarrow> in_file txt tab | Inl _ \<Rightarrow> (\<lambda>_. False))"

fun pfctl_does :: "world \<Rightarrow> string list \<Rightarrow> string option \<Rightarrow> string \<times> table_content \<Rightarrow> string \<times> table_content" where
  "pfctl_does w (q # a # anc # t # name # cmd # oper # ips) input (txt, tab) =
     (let i = dec_value (drop (length HOSTS) name); ips = List.map_filter parse_ip ips in
      if oper = ''add'' then (txt, add_to i ips tab)
      else if oper = ''delete'' then (txt, take_from i ips tab) else (txt, tab))"
| "pfctl_does w args (Some given) (txt, tab) = (if args = load_command then (given, demo_loads w) else (txt, tab))"
| "pfctl_does w args None f = f"

definition demo_filter_os :: "filter_world os" where
  "demo_filter_os =
     \<lparr>os_exec = \<lambda>p args inp l (w, f).
        (fst (os_exec (demo_os all_well) p args inp l w),
         snd (os_exec (demo_os all_well) p args inp l w), if p = PFCTL then pfctl_does w args inp f else f),
      os_read = \<lambda>p (w, f). os_read (demo_os all_well) p w,
      os_write = \<lambda>p t (w, f). (fst (os_write (demo_os all_well) p t w), snd (os_write (demo_os all_well) p t w), f),
      os_remove = \<lambda>p (w, f). (fst (os_remove (demo_os all_well) p w), snd (os_remove (demo_os all_well) p w), f),
      os_rename = \<lambda>p q (w, f). (fst (os_rename (demo_os all_well) p q w), snd (os_rename (demo_os all_well) p q w), f),
      os_list = \<lambda>d (w, f). os_list (demo_os all_well) d w\<rparr>"

definition demo_filter :: "filter_world filter" where
  "demo_filter = \<lparr>fl_text = \<lambda>(w, txt, tab). txt, fl_table = \<lambda>(w, txt, tab). tab\<rparr>"

definition demo_filter_env :: "(demo_table, filter_world) env" where
  "demo_filter_env =
     \<lparr>en_kernel = demo_kernel, en_os = demo_filter_os, en_net = demo_net, en_lib = demo_lib,
      en_others = \<lambda>rw. rw, en_unix = \<lambda>w. 1000\<rparr>"

definition demo_filter_world :: filter_world where
  "demo_filter_world = (demo_world, [], \<lambda>tab ip. False)"

lemma demo_filter_disk: "disk_ok demo_filter_os"
  using demo_os_ok [of all_well] by (auto simp: disk_ok_def demo_filter_os_def)

lemma demo_filter_exec:
  "os_exec demo_filter_os PFCTL args inp l (w, f) =
    (Exited True ''exit status: 0'' [] [], w\<lparr>wd_log := (PFCTL, args, inp) # wd_log w\<rparr>, pfctl_does w args inp f)"
  by (simp add: demo_filter_os_def demo_os_def all_well_def)

lemma pfctl_table:
  "pfctl_does w (table_command ''add'' i ips) None (txt, tab) = (txt, add_to i ips tab)"
  "pfctl_does w (table_command ''delete'' i ips) None (txt, tab) = (txt, take_from i ips tab)"
proof -
  have "List.map_filter parse_ip (map show_ip ips) = ips"
    by (induction ips) (simp_all add: List.map_filter_simps parse_show_ip)
  then show "pfctl_does w (table_command ''add'' i ips) None (txt, tab) = (txt, add_to i ips tab)"
    "pfctl_does w (table_command ''delete'' i ips) None (txt, tab) = (txt, take_from i ips tab)"
    by (simp_all add: table_command_def dec_value_show)
qed

lemma demo_filter_obeys: "filter_obeys demo_filter_os ''/run'' demo_filter"
  unfolding filter_obeys_def
proof (intro conjI)
  show "adds_as_told demo_filter_os demo_filter"
    by (auto simp: adds_as_told_def demo_filter_exec pfctl_table demo_filter_def exits_well_def)
  show "deletes_as_told demo_filter_os demo_filter"
    by (auto simp: deletes_as_told_def demo_filter_exec pfctl_table demo_filter_def exits_well_def)
  have l: "pfctl_does w load_command (Some given) f = (given, demo_loads w)" for w given f
    by (cases f) (simp add: load_command_def)
  show "loads_as_told demo_filter_os ''/run'' demo_filter"
    by (auto simp: loads_as_told_def demo_filter_exec l demo_filter_def exits_well_def demo_loads_def)
      (auto simp: demo_filter_os_def demo_loads_def fun_eq_iff)
qed (auto simp: demo_filter_os_def demo_filter_def)

lemma demo_filter_others: "others_wait demo_filter_env dir fl" "sync_waits demo_filter_env dir fl r w"
  by (auto simp: others_wait_def goes_on_def sync_waits_def leaves_reload_def demo_filter_env_def Let_def)

lemma demo_beside: "beside ''/run'' demo_filter demo_gate demo_ready demo_filter_world"
  by (simp add: beside_def demo_gate_def demo_filter_def demo_filter_world_def ruleset_def rules_on_def same_tables_def)

end
