(* ===== verification/Restart.thy ===== *)
theory Restart
  imports Install_Facts
begin

text \<open>
  From one life of the daemon to the next: what the stop of \<open>src/daemon.rs\<close> leaves in the file of the
  hosts, and what the start makes of it. Shown: a stop that can write the file leaves in it every host
  there is when the links have stopped, and the next start has all of them and holds them before it
  serves.
\<close>

section \<open>The file of the hosts at a stop\<close>

text \<open>The file is none of those a stop takes away, nor its own copy before the rename.\<close>

definition state_file_apart :: "path \<Rightarrow> path \<Rightarrow> bool" where
  "state_file_apart dir p \<longleftrightarrow> with_extension p ''tmp'' \<noteq> p \<and> path_join dir OWNER_FLAG \<noteq> p \<and>
     path_join dir TOKEN_FILE \<noteq> p \<and>
     (\<forall>n. starts_with n HOSTS_FILE \<or> starts_with n NETS_FILE \<longrightarrow> path_join dir n \<noteq> p)"

text \<open>Nobody but the watch writes it, and it can be written.\<close>

definition state_file_ours :: "('k, 'w) watch_env \<Rightarrow> path \<Rightarrow> bool" where
  "state_file_ours we p \<longleftrightarrow> programs_keep (we_os we) p \<and>
     (\<forall>s. os_read (we_os we) p (snd (we_others we s)) = os_read (we_os we) p (snd s)) \<and>
     (\<forall>hosts w. fst (hosts_save (we_os we) p hosts w) = Inr ())"

lemma stop_saves:
  assumes "disk_ok (we_os we)" "state_file_ours we (wt_state_path k)" "state_file_apart (wt_dir k) (wt_state_path k)"
    and "rv_pf r1 \<in> {None, Some (wt_dir k)}"
    and "stop_links we (snd (stop_dns we (k, r, w))) = (k1, r1, w1)" "watch_stop we (k, r, w) = (k', r', w')"
  shows "os_read (we_os we) (wt_state_path k) w' =
    Inr (format_hosts (hosts_snapshot (snd (remove_all (en_kernel (we_env we)) r1))))"
proof -
  let ?os = "we_os we" and ?p = "wt_state_path k"
  obtain dns k0 r0 w0 where 0: "stop_dns we (k, r, w) = (dns, k0, r0, w0)" by (metis prod.collapse)
  have k: "wt_state_path k1 = ?p" "wt_dir k1 = wt_dir k"
    using assms(5) 0 by (auto simp: stop_dns_def stop_links_def Let_def split: option.splits prod.splits)
  obtain n r2 where 2: "remove_all (en_kernel (we_env we)) r1 = (n, r2)" by fastforce
  obtain x w3 where 3: "hosts_save ?os ?p (hosts_snapshot r2) w1 = (x, w3)" by fastforce
  have "x = Inr ()" using assms(2) arg_cong [OF 3, of fst] unfolding state_file_ours_def by simp
  with hosts_save_read [OF assms(1) _ 3] assms(3) have saved: "os_read ?os ?p w3 = Inr (format_hosts (hosts_snapshot r2))"
    by (simp add: state_file_apart_def)
  have pf: "rv_pf r2 = rv_pf r1" using arg_cong [OF 2, of "rv_pf \<circ> snd"] by (auto simp: remove_all_def Let_def split: prod.splits)
  define w4 where "w4 = (case rv_pf r2 of None \<Rightarrow> w3 | Some d \<Rightarrow> snd (we_others we (r2, snd (Pf_release ?os d w3))))"
  have rel: "os_read ?os ?p (snd (Pf_release ?os (wt_dir k) w3)) = os_read ?os ?p w3"
  proof -
    obtain y v where y: "Pf_release ?os (wt_dir k) w3 = (y, v)" by fastforce
    have "file_kept ?os ?p w3 v"
      by (rule kept.releases [OF _ _ y]) (use assms(3) in \<open>auto simp: state_file_apart_def\<close>)
    with kept_read [OF _ assms(1)] assms(2) show ?thesis by (simp add: y state_file_ours_def)
  qed
  have 4: "os_read ?os ?p w4 = os_read ?os ?p w3"
    using assms(2,4) rel pf by (auto simp: w4_def state_file_ours_def split: option.split)
  have "w' = snd (os_remove ?os (path_join (wt_dir k) OWNER_FLAG) w4)"
    using assms(5,6) 0 2 3 \<open>x = Inr ()\<close> k
    by (auto simp: watch_stop_def watch_save_def w4_def Let_def split: option.splits prod.splits)
  moreover have "os_read ?os ?p (snd (os_remove ?os (path_join (wt_dir k) OWNER_FLAG) w4)) = os_read ?os ?p w4"
    using assms(1,3) by (intro disk_remove_other) (auto simp: state_file_apart_def)
  ultimately show ?thesis using saved 4 2 by simp
qed

section \<open>The next start\<close>

lemma map_filter_of_map: "List.map_filter f (map g hs) = List.map_filter (\<lambda>x. f (g x)) hs"
  by (induction hs) (auto simp: List.map_filter_simps split: option.split)

lemma remove_all_snapshot: "hosts_snapshot (snd (remove_all krn r)) = hosts_snapshot r"
  by (simp add: hosts_snapshot_def remove_all_def Let_def split_def map_filter_of_map)

text \<open>A resolver of a start has no interfaces yet, so that nothing leaves by a tunnel.\<close>

lemma start_no_iface: "rule_ifaces (rv_core (start_resolver b st confs dns routes dir limit c hosts)) x = []"
proof -
  let ?dark = "\<lambda>r :: 'a resolver. \<forall>l\<in>set (cr_links (rv_core r)). ls_iface (snd l) = None"
  have l: "?dark (set_link i (LinkState_default\<lparr>ls_endpoint := Some ip\<rparr>) r)" if "?dark r" for i ip and r :: "'a resolver"
  proof
    fix e
    assume "e \<in> set (cr_links (rv_core (set_link i (LinkState_default\<lparr>ls_endpoint := Some ip\<rparr>) r)))"
    then have "e \<in> set (cr_links (rv_core r)) \<or> snd e = LinkState_default\<lparr>ls_endpoint := Some ip\<rparr>"
      using set_update_subset_insert [THEN subsetD]
      by (fastforce simp: set_link_def modify_nth_def split: if_splits prod.splits)
    with that show "ls_iface (snd e) = None" by (auto simp: LinkState_default_def)
  qed
  have t: "?dark (tell_endpoints i cs r)" if "?dark r" for i cs and r :: "'a resolver"
    using that
  proof (induction cs arbitrary: i r)
    case (Cons c cs)
    show ?case
    proof (cases "endpoint_ip c")
      case None
      with Cons show ?thesis by simp
    next
      case (Some ip)
      with Cons.IH [OF l [OF Cons.prems]] show ?thesis by simp
    qed
  qed simp
  have "?dark (tell_endpoints 0 confs
      (Resolver_new (bl_lists b) (s_rules st) (map t_name (s_tunnels st)) dns routes (Some dir) limit))"
    by (rule t) (simp add: Resolver_new_def LinkState_default_def)
  then have "?dark (start_resolver b st confs dns routes dir limit c hosts)"
    by (simp add: start_resolver_def Let_def load_hosts_def set_country_core)
  then show ?thesis
    by (auto simp: rule_ifaces_def List.map_filter_def get_def split: option.splits dest!: nth_mem)
qed

lemma start_resolver_lists: "rv_lists (start_resolver b st confs dns routes dir limit c hosts) = bl_lists b"
proof -
  have t: "rv_lists (tell_endpoints i cs x) = rv_lists x" for i cs and x :: "'a resolver"
    by (induction cs arbitrary: i x) (auto simp: set_link_def split: option.split)
  have s: "rv_lists (snd (set_country code x)) = rv_lists x" for code and x :: "'a resolver"
    by (simp add: set_country_def Let_def)
  show ?thesis by (simp add: start_resolver_def Let_def load_hosts_def s t) (simp add: Resolver_new_def)
qed

text \<open>
  The state of a start is that of its resolver: it has been given to the packet filter, and nothing
  else has happened to it.
\<close>

lemma switch_resolver:
  fixes se :: "('k, 'w) start_env"
  assumes "disk_ok (se_os se)" "switch_on se cfg lf w = (Inr (c, r), w')"
  obtains hosts v v1 v2 and routes :: "'k route_socket" where
    "hosts_to_restore (se_os se) (lf_settings lf) (lf_saved lf) (we_unix (se_we se) v) v1 = (hosts, v2)"
    "rv_core r = rv_core (start_resolver (lf_built lf) (lf_settings lf) (lf_confs lf) (dc_tunnel_dns cfg) routes
      (dir_of (dc_state cfg)) LIMIT c hosts)"
    "rv_lists r = bl_lists (lf_built lf)"
  using assms(2)
proof (rule switch_on_Inr)
  fix w1 hosts w2 routes w3 r0
  let ?env = "we_env (se_we se)"
  assume h: "hosts_to_restore (se_os se) (lf_settings lf) (lf_saved lf) (we_unix (se_we se) w1) w1 = (hosts, w2)"
    and r0: "r0 = start_resolver (lf_built lf) (lf_settings lf) (lf_confs lf) (dc_tunnel_dns cfg) routes
      (dir_of (dc_state cfg)) LIMIT c hosts"
    and s: "sync_pf (alone ?env) r0 w3 = (Inr (), r, w')"
  have d: "disk_ok (en_os ?env)" using assms(1) by (simp add: se_os_def we_os_def)
  have pf: "rv_pf r0 = Some (dir_of (dc_state cfg))" "rv_pf_stale r0" using start_resolver_pf unfolding r0 by blast+
  have r: "rv_core r = rv_core r0" "rv_lists r = rv_lists r0" using sync_alone [OF d pf s] by simp_all
  have "rv_lists r = bl_lists (lf_built lf)" using r(2) by (simp add: r0 start_resolver_lists)
  with h r(1) show thesis unfolding r0 by (rule that)
qed

lemma restart_has:
  fixes se :: "('k, 'w) start_env"
  assumes "disk_ok (se_os se)" "saved_here (lf_settings lf) r1"
    and "lf_saved lf = parse_hosts (format_hosts (hosts_snapshot r1))"
    and "switch_on se cfg lf u = (Inr (c, r2), u')" "hm_get (cr_hosts (rv_core r1)) ip = Some h"
  shows "hm_get (cr_hosts (rv_core r2)) ip = Some (h\<lparr>h_placed := None\<rparr>)"
  using assms(1,4)
proof (rule switch_resolver)
  fix hosts v v1 v2 and routes :: "'k route_socket"
  assume h: "hosts_to_restore (se_os se) (lf_settings lf) (lf_saved lf) (we_unix (se_we se) v) v1 = (hosts, v2)"
    and r: "rv_core r2 = rv_core (start_resolver (lf_built lf) (lf_settings lf) (lf_confs lf) (dc_tunnel_dns cfg) routes
      (dir_of (dc_state cfg)) LIMIT c hosts)"
  obtain pfh v3 where held: "Pf_held_hosts (se_os se) (length (s_rules (lf_settings lf))) v1 = (pfh, v3)" by fastforce
  show "hm_get (cr_hosts (rv_core r2)) ip = Some (h\<lparr>h_placed := None\<rparr>)"
    unfolding r restart_hosts [OF assms(2) held h [unfolded assms(3)] held_bound [OF held]] using assms(5) by simp
qed

text \<open>What a rule in force holds at a start leaves nowhere: there is no tunnel.\<close>

lemma start_drops:
  fixes se :: "('k, 'w) start_env"
  assumes "disk_ok (se_os se)" "lists_ok (bl_lists (lf_built lf))" "switch_on se cfg lf u = (Inr (c, r), u')"
    and "hm_get (cr_hosts (rv_core r)) (pkt_dst p) = Some h" "rule_in_force r (h_rule h)"
    and "\<not> exempt (resolver_shape r) p"
  shows "first_match (anchor (resolver_shape r)) (loaded (resolver_tables r)) p = Some Drop"
  using assms(1,3)
proof (rule switch_resolver)
  fix hosts v v1 v2 and routes :: "'k route_socket"
  let ?r0 = "start_resolver (lf_built lf) (lf_settings lf) (lf_confs lf) (dc_tunnel_dns cfg) routes
      (dir_of (dc_state cfg)) LIMIT c hosts"
  assume c: "rv_core r = rv_core ?r0" and l: "rv_lists r = bl_lists (lf_built lf)"
  have no: "rule_ifaces (rv_core r) x = []" for x unfolding c by (rule start_no_iface)
  have "resolver_ok ?r0" by (rule ok_run [OF start_resolver_run ok_new [OF assms(2)]])
  then have ok: "resolver_ok r" by (simp add: resolver_ok_def c l start_resolver_lists)
  have "host_of_rule r (h_rule h) (pkt_dst p)" using assms(4) by (simp add: host_of_rule_def)
  with assms(5,6) show "first_match (anchor (resolver_shape r)) (loaded (resolver_tables r)) p = Some Drop"
    unfolding resolver_anchor [OF ok] no by auto
qed

end
