(* ===== verification/Demo_Restart.thy ===== *)
theory Demo_Restart
  imports Demo_Life Restart
begin

text \<open>The small setting, stopped with a host on its books and started again.\<close>

lemma demo_state_apart: "state_file_apart (wt_dir demo_watch) (wt_state_path demo_watch)"
proof -
  have p: "wt_dir demo_watch = ''/run''" "wt_state_path demo_watch = ''/run/hosts.state''"
    by (simp_all add: demo_watch_def Watch_new_def Let_def demo_dirs)
  have t: "with_extension ''/run/hosts.state'' ''tmp'' \<noteq> ''/run/hosts.state''" by code_simp
  have j: "path_join ''/run'' n = ''/run/'' @ n" for n by (simp add: path_join_def)
  show ?thesis
    by (auto simp: state_file_apart_def p t j OWNER_FLAG_def TOKEN_FILE_def starts_with_def HOSTS_FILE_def NETS_FILE_def)
qed

lemma demo_state_ours: "state_file_ours (se_we demo_se) p"
proof -
  have "we_others (se_we demo_se) s = s" for s
    by (simp add: we_others_def demo_se_def demo_life_env_def demo_env_def)
  moreover have "fst (hosts_save (demo_os with_token) p hosts w) = Inr ()" for hosts w
    by (simp add: hosts_save_def Let_def demo_os_def dict_simps)
  ultimately show ?thesis
    by (simp add: state_file_ours_def demo_se_os programs_keep_def) (simp add: demo_os_def)
qed

lemma demo_stops:
  "\<exists>k1 w1. stop_links (se_we demo_se) (snd (stop_dns (se_we demo_se) (demo_watch, demo_held, w))) = (k1, demo_held, w1)"
proof -
  have o: "we_others (se_we demo_se) s = s" for s
    by (simp add: we_others_def demo_se_def demo_life_env_def demo_env_def)
  have "fst (join_links (se_we demo_se) cs demo_held v) = demo_held" for cs v
    by (induction cs arbitrary: v) (simp_all add: o)
  then have j: "\<exists>v'. join_links (se_we demo_se) cs demo_held v = (demo_held, v')" for cs v
    by (metis fst_conv old.prod.exhaust)
  have "\<exists>x k v. stop_dns (se_we demo_se) (demo_watch, demo_held, w) = (x, k, demo_held, v)"
    by (auto simp: stop_dns_def o Let_def split: option.split prod.split)
  then show ?thesis using j by (fastforce simp: stop_links_def Let_def split: prod.split)
qed

text \<open>What a start loads after that stop.\<close>

definition demo_reloaded :: loaded_files where
  "demo_reloaded = demo_loaded\<lparr>lf_saved := parse_hosts (format_hosts (hosts_snapshot demo_held))\<rparr>"

end
