(* ===== verification/Gaps.thy ===== *)
theory Gaps
  imports Pf_Content Install_Facts
begin

text \<open>
  Places where the code does less than it means to, each shown on the model: a host and a subnet of
  one address share a route in the kernel; a subnet whose move fails is forgotten; an answer about
  the servers of one network is applied to another (\<open>detect_answer\<close>); an address routed for an answer
  that is then given up never gets into the packet filter; nor does one that comes back while its
  expiry is still deleting; and settings below the installed ones are not refused, and are gone before
  they are copied.
\<close>

text \<open>
  A host that expires takes its route with it, also where a subnet of that one address is on the
  books with the same route: the books then have a route the kernel has not, and nothing sets it
  again as long as they do not change.
\<close>

lemma expired_host_takes_subnet_route:
  assumes "kernel_obeys krn tbl" "resolver_ok r" "expire_hosts krn unix window r = (gone, r')"
    "(ip, h) \<in> set (cr_hosts (rv_core r))" "is_placed h" "expired unix window (ip, h)"
    "hm_get (cr_subnets (rv_core r)) (Subnet_host ip) = Some p"
  shows "hm_get (cr_subnets (rv_core r')) (Subnet_host ip) = Some p"
    "tbl (sock (rv_routes r')) (route_key (Subnet_host ip)) = None"
proof -
  have ok: "hm_ok (cr_hosts (rv_core r))" using assms(2) by (simp add: resolver_ok_def Let_def)
  note e = expire_hosts_core [OF assms(3) ok]
  then show "hm_get (cr_subnets (rv_core r')) (Subnet_host ip) = Some p" using assms(7) by simp
  have "(ip, h) \<in> set gone" using e assms(4,6) by auto
  with assms(5) have "Subnet_host ip \<in> set (List.map_filter (\<lambda>(ip, h). if is_placed h then Some (Subnet_host ip) else None) gone)"
    unfolding host_routes_set by blast
  then show "tbl (sock (rv_routes r')) (route_key (Subnet_host ip)) = None"
    using conjunct2 [OF conjunct2 [OF conjunct2 [OF e]]] by (simp add: delete_routes_table [OF assms(1)])
qed

text \<open>
  A subnet that moves to another tunnel leaves the books before its new route is set, and its old
  route stays: when setting it fails at once, there is a route that no stop takes back.
\<close>

lemma moved_subnet_forgotten:
  assumes "hm_get want x = Some (i, t)"
    "RouteSocket_add krn s x (tg_index t) = (Inl e, s')"
  shows "remove_gone krn want [(x, j)] m s ms = (hm_remove x m, s, ms)"
    "place_subnet krn (x, i, t) (hm_remove x m) s ms = (hm_remove x m, s', modify_nth i (Moves_count (Inl e)) ms)"
  using assms by (simp_all add: place_subnet_def RouteSocket_set_def delete_conv)

text \<open>
  An answer of two addresses, the second of which cannot be routed, is given up after the first was
  routed. The first is then on the books, in no table of the packet filter, and no reload is due.
\<close>

lemma answer_given_up:
  assumes "ipv4_answers m = [a, b]" "routable a (core_endpoints (rv_core r))" "routable b (core_endpoints (rv_core r))"
    "route_host (en_kernel env) (en_unix env w) a (pk_rule pk) r = (Inr True, r1)" "hm_get (cr_hosts (rv_core r)) a = None"
    "route_host (en_kernel env) (en_unix env w) b (pk_rule pk) r1 = (Inl e, r2)"
  shows "place_answer env pk bytes m r w = (Own ServFail, r2, w)"
    "(pk_rule pk, a) \<in> held_by r2" "rv_pf_stale r2 = rv_pf_stale r"
proof -
  show "place_answer env pk bytes m r w = (Own ServFail, r2, w)" by (simp add: place_answer_def assms)
  have "(pk_rule pk, a) \<in> held_by r1" "rv_pf_stale r1 = rv_pf_stale r"
    using assms(4,5)
    by (auto simp: route_host_def Let_def held_by_iff dict_simps split: if_splits option.splits prod.splits sum.splits)
  moreover have "rv_core r2 = rv_core r1" "rv_pf_stale r2 = rv_pf_stale r1"
    using assms(6) by (auto simp: route_host_def Let_def split: if_splits option.splits prod.splits sum.splits)
  ultimately show "(pk_rule pk, a) \<in> held_by r2" "rv_pf_stale r2 = rv_pf_stale r" by (simp_all add: held_by_iff)
qed

text \<open>Later answers with that address are given out, and no command adds it.\<close>

lemma given_up_stays_out:
  assumes "ipv4_answers m = [a]" "(pk_rule pk, a) \<in> held_by r"
    "place_answer env pk bytes m r w = (Given bytes', r', w')"
  shows "w' = w"
proof (cases "routable a (core_endpoints (rv_core r))")
  case False
  with assms show ?thesis by (auto simp: place_answer_def change_table_def split: option.splits)
next
  case True
  obtain x r1 where h: "route_host (en_kernel env) (en_unix env w) a (pk_rule pk) r = (x, r1)" by fastforce
  have "x \<noteq> Inr True"
    using h assms(2) by (auto simp: route_host_def Let_def held_by_iff split: if_splits option.splits prod.splits sum.splits)
  with assms True h show ?thesis
    by (auto simp: place_answer_def change_table_def split: option.splits sum.splits if_splits)
qed

text \<open>
  An expiry of hosts of several rules deletes table by table. An address of a later table that is
  answered again while an earlier one is deleted - before the wait in this table's turn - is put back
  and added, and then deleted; it stays on the books, and no reload is due.
\<close>

lemma readded_host_deleted:
  assumes deletes: "\<And>w w'. Pf_delete (en_os env) i ips w = (Inr (), w') \<Longrightarrow> \<forall>ip\<in>set ips. \<not> in_table w' i ip"
    and "en_others env (r, w) = (r1, w1)" "(i, ip) \<in> held_by r1" "\<not> rv_pf_stale r1" "ip \<in> set ips"
    and "Pf_delete (en_os env) i ips w1 = (Inr (), w2)" "en_others env (r1, w2) = (r1, w2)"
  shows "expire_tables env [(i, ips)] r w = (r1, w2)" "(i, ip) \<in> held_by r1" "\<not> rv_pf_stale r1" "\<not> in_table w2 i ip"
  using assms by (auto simp: change_table_def)

text \<open>
  An installation refuses settings in the directory it writes anew, but only in that directory
  itself. Below it they pass; the directory is removed with them, and the first file of theirs is
  missing when it is to be copied - after the running service was stopped.
\<close>

lemma settings_below_not_refused:
  assumes "fs_canonical (in_fs i) (base_of (is_config src)) w \<noteq> fs_canonical (in_fs i) ETC w"
  shows "inspect_install i src st w \<noteq> Some (Inl (Inside_etc p), w')"
proof -
  have f: "check_files os base rels v \<noteq> Some (Inl (Inside_etc p), v')" for os base rels and v v' :: 'a
    by (induction rels) (auto simp: Let_def split: sum.splits)
  have u: "check_urls os fs us got v \<noteq> Some (Inl (Inside_etc p), v')" for os fs us got and v v' :: 'a
    by (induction us arbitrary: got v) (auto simp: Let_def split: sum.splits prod.splits if_splits)
  show ?thesis
    using assms unfolding inspect_install_def Let_def
    by (auto simp: then_do_Inl check_sources_def f u split: sum.splits option.splits)
qed

lemma settings_below_lost:
  assumes "fs_remove_all fs ETC w = (Inr (), w1)" "make_dir fs ETC (octal 7 0 0) w1 = (Inr (), w2)"
    and "files st = rel # rels" "make_dir fs (path_parent (path_join ETC rel)) (octal 7 0 0) w2 = (Inr (), w3)"
    and "ignore_missing (os_remove os (new_name (path_join ETC rel)) w3) = (Inr (), w4)"
    and "fs_copy fs (path_join base rel) (new_name (path_join ETC rel)) w4 = (Inl NotFound, w5)"
  shows "put_files os fs st base w = (Inl NotFound, w5)"
  using assms by (simp add: put_files_def io_then_def put_def Let_def ignore_missing_def [of "(Inr (), w1)"])

end
