(* ===== verification/Log.thy ===== *)
theory Log
  imports Life
begin

text \<open>
  What the daemon writes to its journal of its state: the lines of a start, of the tunnels the rules
  take and the routes they move (\<open>src/resolver.rs\<close>), of the reasons rules refuse for and of the
  country (\<open>src/daemon.rs\<close>), as functions of the states before and after. Shown: a reader of the lines
  alone knows the tunnel of every rule, and the reasons of every rule in force.
\<close>

section \<open>Tunnels and routes\<close>

definition moves_any :: "moves \<Rightarrow> bool" where
  "moves_any m = (0 < mv_added m + mv_moved m + mv_removed m + mv_failed m)"

definition show_moves :: "moves \<Rightarrow> string" where
  "show_moves m =
     ''added='' @ show_nat (mv_added m) @ '' moved='' @ show_nat (mv_moved m) @
     '' removed='' @ show_nat (mv_removed m) @ '' failed='' @ show_nat (mv_failed m)"

text \<open>The rules whose tunnel \<open>pick_tunnels\<close> changes, with the one before and the one after.\<close>

definition pick_events :: "core \<Rightarrow> core \<Rightarrow> (string \<times> nat option \<times> nat option) list" where
  "pick_events c c' =
     List.map_filter (\<lambda>(x, x'). if rn_current x' \<noteq> rn_current x
         then Some (rn_name x, rn_current x, rn_current x') else None)
       (zip (cr_rules c) (cr_rules c'))"

definition link_name :: "core \<Rightarrow> nat option \<Rightarrow> string" where
  "link_name c t =
     (case Option.bind t (get (cr_links c)) of None \<Rightarrow> ''none'' | Some (n, _) \<Rightarrow> n)"

definition pick_lines :: "instant \<Rightarrow> core \<Rightarrow> string list" where
  "pick_lines now c =
     map (\<lambda>(rule, before, after).
         ''rule '' @ rule @ '' tunnel '' @ link_name c before @ '' -> '' @ link_name c after)
       (pick_events c (pick_tunnels now c))"

definition route_lines :: "core \<Rightarrow> moves list \<Rightarrow> moves list \<Rightarrow> nat list \<Rightarrow> string list" where
  "route_lines c on_hosts on_subnets dropped =
     List.map_filter (\<lambda>(x, h, s, d).
         if moves_any h \<or> moves_any s \<or> 0 < d
         then Some (''routes '' @ rn_name x @ '' hosts '' @ show_moves h @ '' dropped='' @ show_nat d @
           '' subnets '' @ show_moves s)
         else None)
       (zip (cr_rules c) (zip on_hosts (zip on_subnets dropped)))"

section \<open>Reasons and the country\<close>

definition reason_events :: "(string \<times> reasons) list \<Rightarrow> (string \<times> reasons) list \<Rightarrow> (string \<times> reasons) list" where
  "reason_events before now = filter (\<lambda>(rule, r). map_of before rule \<noteq> Some r) now"

definition reason_lines :: "watch \<Rightarrow> 'k resolver \<Rightarrow> string list" where
  "reason_lines k r =
     map (\<lambda>(rule, rs). ''killswitch '' @ rule @ '' '' @ show_reasons rs)
       (reason_events (wt_reasons k) (resolver_reasons r))"

definition force_lines :: "(string \<times> bool) list \<Rightarrow> string list" where
  "force_lines changed =
     map (\<lambda>(rule, on). ''rule '' @ rule @ (if on then '' in force'' else '' out of force'')) changed"

definition country_lines :: "string \<Rightarrow> country \<Rightarrow> 'k resolver \<Rightarrow> string list" where
  "country_lines before c r =
     (case Country_now c of (code, whence) \<Rightarrow>
        if code \<noteq> before
        then (''country '' @ before @ '' -> '' @ code @ '' from='' @ whence) # force_lines (fst (set_country code r))
        else [])"

definition show_network_option :: "network option \<Rightarrow> string" where
  "show_network_option n = (case n of None \<Rightarrow> ''none'' | Some n \<Rightarrow> show_network n)"

section \<open>The start\<close>

definition show_source :: "source \<Rightarrow> string" where
  "show_source s = (case s of File p \<Rightarrow> p | Url u \<Rightarrow> u)"

text \<open>\<open>words\<close> are the words of the system for an error.\<close>

definition missing_line :: "(io_error \<Rightarrow> string) \<Rightarrow> string \<times> source \<times> io_error \<Rightarrow> string" where
  "missing_line words m =
     (case m of (l, s, e) \<Rightarrow> ''source-missing '' @ l @ '' '' @ show_source s @ '': '' @ words e)"

definition stale_line :: "string \<times> source \<Rightarrow> string" where
  "stale_line m = (case m of (l, s) \<Rightarrow> ''source-stale '' @ l @ '' '' @ show_source s)"

definition show_sock :: "sock_addr \<Rightarrow> string" where
  "show_sock a =
     (case a of Sock_V4 ip port \<Rightarrow> show_sock_v4 ip port
      | Sock_V6 txt port \<Rightarrow> ''['' @ txt @ '']:'' @ show_nat port)"

text \<open>\<open>{:?}\<close> of a string of printable characters, and of a list of them.\<close>

definition debug_string :: "string \<Rightarrow> string" where
  "debug_string s =
     [CHR 0x22] @ concat (map (\<lambda>c. if c = CHR 0x22 \<or> c = CHR 0x5C then [CHR 0x5C, c] else [c]) s) @ [CHR 0x22]"

definition debug_strings :: "string list \<Rightarrow> string" where
  "debug_strings ss = ''['' @ join '', '' (map debug_string ss) @ '']''"

definition conf_ignored :: "settings \<Rightarrow> conf list \<Rightarrow> string list" where
  "conf_ignored st confs =
     map (\<lambda>(t, c). t_name t @ '':'' @ join '','' (cf_ignored c))
       (filter (\<lambda>(t, c). cf_ignored c \<noteq> []) (zip (s_tunnels st) confs))"

definition start_lines :: "(io_error \<Rightarrow> string) \<Rightarrow> daemon_config \<Rightarrow> loaded_files \<Rightarrow> string list" where
  "start_lines words cfg lf =
     (let st = lf_settings lf; b = lf_built lf; l = bl_lists b in
      (''start daemon rules='' @ show_nat (length (s_rules st)) @
       '' tunnels='' @ show_nat (length (s_tunnels st)) @
       '' lists='' @ show_nat (length (s_lists st)) @
       '' suffixes='' @ show_nat (suffix_count l) @
       '' subnets='' @ show_nat (length (subnets l)) @
       '' rejected='' @ show_nat (length (rejected l)) @
       '' missing='' @ show_nat (length (bl_missing b)) @
       '' stale='' @ show_nat (length (bl_stale b)) @
       '' saved_hosts='' @ show_nat (length (lf_saved lf)) @
       '' listen='' @ show_sock (dc_listen cfg) @
       '' tunnel_dns='' @ show_ip (dc_tunnel_dns cfg) @
       '' window='' @ show_nat (dc_window cfg) @
       ''s use_fakeip='' @ (if dc_use_fakeip cfg then ''auto'' else ''off'') @
       '' degraded_grace='' @ show_nat (as_secs (s_degraded_grace st)) @
       ''s conf_ignored='' @ debug_strings (conf_ignored st (lf_confs lf))) #
      map (\<lambda>line. ''rejected '' @ line) (rejected l) @
      map (missing_line words) (bl_missing b) @
      map stale_line (bl_stale b))"

section \<open>What a reader knows\<close>

text \<open>The tunnels by the events: the last one of a rule counts, and none says that there is no tunnel.\<close>

definition read_tunnels :: "(string \<times> nat option \<times> nat option) list \<Rightarrow> (string \<Rightarrow> nat option) \<Rightarrow> string \<Rightarrow> nat option" where
  "read_tunnels events known =
     foldl (\<lambda>m (rule, _, after). m(rule := after)) known events"

definition knows_tunnels :: "(string \<Rightarrow> nat option) \<Rightarrow> core \<Rightarrow> bool" where
  "knows_tunnels known c \<longleftrightarrow> (\<forall>x\<in>set (cr_rules c). known (rn_name x) = rn_current x)"

lemma read_tunnels_other:
  "rule \<notin> fst ` set events \<Longrightarrow> read_tunnels events known rule = known rule"
  unfolding read_tunnels_def by (induction events arbitrary: known) auto

lemma read_tunnels_zip:
  assumes "length xs = length ys" "map rn_name ys = map rn_name xs" "distinct (map rn_name xs)"
    and "\<forall>x\<in>set xs. known (rn_name x) = rn_current x"
  shows "\<forall>y\<in>set ys. read_tunnels (List.map_filter (\<lambda>(x, x'). if rn_current x' \<noteq> rn_current x
      then Some (rn_name x, rn_current x, rn_current x') else None) (zip xs ys)) known (rn_name y) = rn_current y"
  using assms
proof (induction xs ys arbitrary: known rule: list_induct2)
  case Nil
  then show ?case by simp
next
  case (Cons x xs y ys)
  let ?ev = "\<lambda>xs ys. List.map_filter (\<lambda>(x, x'). if rn_current x' \<noteq> rn_current x
      then Some (rn_name x, rn_current x, rn_current x') else None) (zip xs ys)"
  let ?k = "if rn_current y \<noteq> rn_current x then known(rn_name x := rn_current y) else known"
  have step: "read_tunnels (?ev (x # xs) (y # ys)) known = read_tunnels (?ev xs ys) ?k"
    by (simp add: List.map_filter_simps read_tunnels_def)
  have names: "rn_name y = rn_name x" "map rn_name ys = map rn_name xs" "rn_name x \<notin> rn_name ` set xs"
    using Cons.prems(1,2) by auto
  have "\<forall>z\<in>set xs. ?k (rn_name z) = rn_current z" using Cons.prems(3) names(3) by (auto simp: image_iff)
  with Cons.IH [of ?k] Cons.prems names have rest: "\<forall>z\<in>set ys. read_tunnels (?ev xs ys) ?k (rn_name z) = rn_current z" by simp
  have "fst ` set (?ev xs ys) \<subseteq> rn_name ` set xs"
    by (fastforce simp: in_map_filter dest: set_zip_leftD split: if_splits)
  then have "read_tunnels (?ev xs ys) ?k (rn_name x) = ?k (rn_name x)" using names(3) by (intro read_tunnels_other) blast
  with rest step names(1) Cons.prems(3) show ?case by auto
qed

theorem tunnels_told:
  assumes "distinct (map rn_name (cr_rules c))" "knows_tunnels known c"
  shows "knows_tunnels (read_tunnels (pick_events c (pick_tunnels now c)) known) (pick_tunnels now c)"
proof -
  have "map rn_name (cr_rules (pick_tunnels now c)) = map rn_name (cr_rules c)"
    "length (cr_rules c) = length (cr_rules (pick_tunnels now c))"
    by (simp_all add: pick_tunnels_def Let_def comp_def)
  from read_tunnels_zip [OF this(2,1) assms(1)] assms(2) show ?thesis
    by (simp add: knows_tunnels_def pick_events_def)
qed

text \<open>The reasons by their lines: the last line of a rule counts.\<close>

definition read_reasons :: "(string \<times> reasons) list \<Rightarrow> (string \<Rightarrow> reasons option) \<Rightarrow> string \<Rightarrow> reasons option" where
  "read_reasons events known = foldl (\<lambda>m (rule, r). m(rule \<mapsto> r)) known events"

definition knows_reasons :: "(string \<Rightarrow> reasons option) \<Rightarrow> (string \<times> reasons) list \<Rightarrow> bool" where
  "knows_reasons known now \<longleftrightarrow> (\<forall>(rule, r)\<in>set now. known rule = Some r)"

lemma read_reasons_get: "read_reasons events known rule = (case map_of (rev events) rule of None \<Rightarrow> known rule | Some r \<Rightarrow> Some r)"
  unfolding read_reasons_def
  by (induction events arbitrary: known) (auto simp: map_add_def split: option.split)

theorem reasons_told:
  assumes "distinct (map fst now)" "knows_reasons known before"
  shows "knows_reasons (read_reasons (reason_events before now) known) now"
  unfolding knows_reasons_def
proof (intro ballI, clarify)
  fix rule r
  assume n: "(rule, r) \<in> set now"
  let ?ev = "reason_events before now"
  have d: "distinct (map fst (rev ?ev))"
    using assms(1) by (simp add: reason_events_def distinct_map_filter rev_map [symmetric])
  show "read_reasons ?ev known rule = Some r"
  proof (cases "map_of before rule = Some r")
    case True
    then have "rule \<notin> fst ` set ?ev"
      using n assms(1) by (auto simp: reason_events_def dest: eq_key_imp_eq_value)
    then have "map_of (rev ?ev) rule = None" by (simp add: map_of_eq_None_iff)
    moreover have "known rule = Some r"
      using assms(2) map_of_SomeD [OF True] by (auto simp: knows_reasons_def)
    ultimately show ?thesis by (simp add: read_reasons_get)
  next
    case False
    with n have "(rule, r) \<in> set (rev ?ev)" by (simp add: reason_events_def)
    with d have "map_of (rev ?ev) rule = Some r" by simp
    then show ?thesis by (simp add: read_reasons_get)
  qed
qed

end
