(* ===== verification/Spec2Isabelle.thy ===== *)
theory Spec2Isabelle
  imports Demo_Main Demo_Filter Demo_Restart Gaps Log
begin

text \<open>
  Verification library of mac-gate, the daemon of a Mac that answers DNS queries, gives the
  addresses of listed domains a route into a tunnel before it answers, keeps those tunnels up, and
  blocks what is listed while none is. The theories follow the modules of \<open>src/\<close>.

  Parts, and where they are modelled.

  \<^item> \<open>lists.rs\<close>: subnets, domain suffixes, the text of a list and what a name matches (\<open>Lists\<close>).
  \<^item> \<open>config.rs\<close>: the check of the settings from the records the TOML library gives, the conditions of
    rules (\<open>Config\<close>).
  \<^item> \<open>route.rs\<close>: the messages to the kernel, byte by byte, and the requests \<open>add\<close>, \<open>delete\<close>, \<open>set\<close> (\<open>Route\<close>).
  \<^item> \<open>command.rs\<close>: a program run with a limit (\<open>Command\<close>). \<open>probe.rs\<close>: pings and counters (\<open>Probe\<close>).
    \<open>degraded.rs\<close>: the patience with a tunnel (\<open>Degraded\<close>). \<open>upstream.rs\<close>: a DNS exchange (\<open>Upstream\<close>).
    \<open>net.rs\<close>: the network, sleep, events (\<open>Net\<close>). \<open>state.rs\<close>: the file of the hosts (\<open>Hosts_State\<close>).
    \<open>geo.rs\<close>: the country (\<open>Geo\<close>). \<open>sysdns.rs\<close>: the DNS of the Mac (\<open>Sysdns\<close>).
  \<^item> \<open>pf.rs\<close>: the rules and tables of the packet filter, as text and as what they mean (\<open>Pf\<close>).
  \<^item> \<open>resolver.rs\<close>: its decisions (\<open>Core\<close>: plan of a name, choice of a rule and a tunnel, owners of lists
    and subnets), its state and every operation on it (\<open>Resolver\<close>), the journal (\<open>Journal\<close>).
  \<^item> \<open>tunnel.rs\<close>: the file of a tunnel (\<open>Tunnel_Conf\<close>) and its process (\<open>Tunnel\<close>). \<open>link.rs\<close>: the task that
    keeps one up (\<open>Link\<close>). \<open>sources.rs\<close>: files, fetched lists and their copies (\<open>Sources\<close>).
  \<^item> \<open>daemon.rs\<close>: the watch, its steps and its stop (\<open>Daemon\<close>), the start and the whole life (\<open>Life\<close>), lines of the
    journal (\<open>Log\<close>).
  \<^item> \<open>install.rs\<close>: what is checked, the files put in place, the service of launchd, its start, stop and
    sweep, the commands \<open>install\<close>, \<open>uninstall\<close>, \<open>on\<close>, \<open>off\<close> (\<open>Install\<close>). \<open>main.rs\<close>: the arguments of every
    command (\<open>Cli\<close>, with addresses of sockets in \<open>Sock_Addr\<close>), the loops that serve UDP and TCP, the resolver
    alone, the dispatch of the commands (\<open>Serve\<close>).

  How they interact. The resolver is the shared state: queries read and place hosts in it, each link
  publishes its state to it, the watch tells it of networks, countries and lists. In the code a lock
  is held between two waits of a task, never over one; so every stretch between waits is an operation
  of the resolver, and a task is a sequence of them with those of the other tasks between. What the
  others do at a wait is the function \<open>en_others\<close> of the environment, of which \<open>env_ok\<close> asks that it be
  a run of the resolver (\<open>rv_run\<close>, sequences of \<open>rv_step\<close>); C9 shows that of each task in turn.

  What is a parameter, as a record of functions on a world of any type: programs and files
  (\<open>os\<close>, with \<open>disk_ok\<close> what is documented of files; \<open>fs\<close> the rest of the file system), processes
  (\<open>procs\<close>, \<open>procs_ok\<close>), the kernel behind the routing socket (\<open>kernel\<close>; \<open>kernel_ok\<close>: a request that succeeds did what it says, one that fails
  nothing; \<open>kernel_obeys\<close>: none fails but for a route that is there, or is not), the network (\<open>net\<close>), the
  library of DNS messages (\<open>dns_lib\<close>), the packet filter's reading of its rules (\<open>pf_documented\<close>), ICMP
  sockets, clocks, the TOML library. \<open>Demo\<close>, \<open>Demo_Gate\<close>, \<open>Demo_Filter\<close>, \<open>Demo_Tasks\<close>,
  \<open>Demo_Life\<close>, \<open>Demo_Restart\<close> and \<open>Demo_Main\<close> give all of them concretely.

  How data corresponds. A struct is a record with the fields of the code, prefixed; an enum a
  datatype; \<open>u8\<close> to \<open>u64\<close> words where they wrap or are laid out in bytes, natural numbers where a guard
  keeps them in range; \<open>Duration\<close> and \<open>Instant\<close> nanoseconds; a \<open>HashMap\<close> an association list with distinct
  keys, whose order stands for the iteration order (contract \<open>dict\<close> of \<open>Prelude\<close>); text is ASCII,
  with the operations of \<open>str\<close> and the parsers of numbers and addresses in \<open>Rust_Str\<close>; an error is the
  left of a sum. Paths are absolute or relative names joined as \<open>Path::join\<close> does.

  What is shown. \<open>Resolver_Facts\<close>, \<open>Resolver_Inv\<close>, \<open>Resolver_Run\<close>: what an answer has placed, what a
  reconcile leaves, the invariant \<open>resolver_ok\<close> of every run, and that every route is on the books.
  \<open>Kill_Switch\<close>: the anchor with its tables lets out only what it should. \<open>Pf_Content\<close>: so it does
  between reloads, while the tables are changed one command at a time. \<open>Pf_Code\<close>: the code that gives
  those commands changes resolver and filter as \<open>Pf_Content\<close> says. \<open>Link_Facts\<close>, \<open>Link_Run\<close>: the
  invariant of a link, its agreement with the resolver, evidence before a reconnect. \<open>Daemon_Facts\<close>:
  the watch is a run, restarts keep hosts, the rules are those of the country. \<open>Restart\<close>: what a stop
  leaves in the file of the hosts the next start holds before it serves. \<open>Install_Facts\<close>: a
  refused installation changes nothing, a stopped service leaves nothing, every command ends.
  \<open>Serve_Facts\<close>: serving is a run of the resolver, TCP answers come in order. \<open>Gaps\<close>: the places
  where the code does less than it means to. The interfaces are locales (\<open>dict\<close>, \<open>text_format\<close> and
  \<open>line_format\<close>, \<open>route_table\<close>, \<open>patience_store\<close>, \<open>effects\<close>), each interpreted on the model. The properties C1 to C40
  below are the main statements, in the order of their weight.

  Bounds. Loops over data are structural; the wait for a tunnel has \<open>TRIES\<close> = 50 rounds as in the code;
  the endless loops of the tasks are sequences of steps of any length. The waits of \<open>install.rs\<close> go by
  the clock, and are partial functions; with a clock that goes on they end (\<open>commands_end\<close>).

  Not modelled: the wording of errors and of the lines of queries and links, the TOML syntax, the DNS message
  format, opening of sockets, the lines commands print; tasks that run in truth at the same time
  share nothing but the resolver, and are taken one after the other between two waits.
\<close>

section \<open>The kill switch\<close>

text \<open>C1: the kill switch. With the anchor and the tables the resolver makes of its state, a packet
  is let out when it goes to a tunnel server, to the router's DNS or a probe target on the network's
  interface, or to an address a rule in force holds by the interface of one of that rule's tunnels;
  any other packet to an address a rule in force holds - a host it keeps, or, while the router has
  no fake addresses, a subnet that is its own - is dropped; every other packet is left alone.\<close>

theorem kill_switch:
  assumes "pf_documented ev" "resolver_ok r"
  shows "ev (anchor (resolver_shape r)) (loaded (resolver_tables r)) p =
    (if exempt (resolver_shape r) p \<or>
        (\<exists>i x. get (cr_rules (rv_core r)) i = Some x \<and> rn_active x \<and>
           pkt_iface p \<in> set (rule_ifaces (rv_core r) x) \<and>
           (host_of_rule r i (pkt_dst p) \<or> net_of_rule r i (pkt_dst p)))
     then Some Pass
     else if \<exists>i. rule_in_force r i \<and>
         (host_of_rule r i (pkt_dst p) \<or> \<not> use_fakeip r \<and> net_of_rule r i (pkt_dst p))
     then Some Drop else None)"
  using assms(1) resolver_anchor [OF assms(2), of p] unfolding pf_documented_def by simp

theorem kill_switch_witness:
  "first_match (anchor (resolver_shape demo_ready)) (loaded (resolver_tables demo_ready))
     \<lparr>pkt_iface = ''en0'', pkt_dst = ip4 203 0 114 5, pkt_kind = Tcp_to 443\<rparr> = Some Drop"
proof -
  have ev: "pf_documented first_match" by (simp add: pf_documented_def)
  have not_exempt: "\<not> exempt (resolver_shape demo_ready) \<lparr>pkt_iface = ''en0'', pkt_dst = ip4 203 0 114 5, pkt_kind = k\<rparr>" for k
    by (simp add: exempt_def resolver_shape_def Let_def demo_ready_eq ip4_def ip_of_octets_def)
  have own: "net_of_rule demo_ready 0 (ip4 203 0 114 5)" "rule_in_force demo_ready 0" "\<not> use_fakeip demo_ready"
    by (simp_all add: net_of_rule_def demo_owners demo_addresses rule_in_force_def demo_rules_core use_fakeip_def)
  show ?thesis
    using kill_switch [OF ev demo_ready_ok] own
    by (auto simp: not_exempt demo_rules_core)
qed





text \<open>C24: the text loaded into the packet filter is the anchor, line by line: the tables of the rules
  in force with their files, what is open past them, what the rules let out, what they block.\<close>

theorem ruleset_lines:
  "ruleset s dir = concat (map (\<lambda>l. writeln (show_line dir l)) (anchor s))"
  by (rule ruleset_anchor)

section \<open>Answers\<close>



text \<open>C15: the kill switch of names. A query for a name only rules that do not carry have, while
  answers with fake addresses are off, is refused with a code of its own, and nothing else
  happens: no server is asked, no route set, the state and the world stay.\<close>

theorem refused_name:
  assumes "from_vec (en_lib env) query = Some req" "m_type req = Query" "m_queries req = [q]"
    and "plan (rv_lists r) (normalize (q_name q)) = Plan_Listed found"
    and "\<forall>i<length (cr_rules (rv_core r)). rule_has (rv_core r) found i \<longrightarrow> \<not> core_carries (rv_core r) i"
    and "i < length (cr_rules (rv_core r))" "rule_has (rv_core r) found i"
    and "\<not> use_fakeip r"
  shows "handle env query r w =
    (reply (to_vec (en_lib env)) req (if refused_type (q_type q) then NoError else ServFail), r, w)"
proof -
  obtain pk where pk: "core_choose (rv_core r) found = Some pk" "pk_via pk = None"
    using choose_refusing [OF assms(5-7)] by blast
  show ?thesis
    using assms(1-4) pk listed_refused [where env = env and query = query and w = w, OF pk(2) assms(8)]
    by (simp add: handle_def handle_request_def answer_bytes_def)
qed

theorem refused_name_witness:
  "handle demo_env demo_query demo_dark demo_world = (reply (to_vec demo_lib) demo_request ServFail, demo_dark, demo_world)"
proof -
  have q: "m_type demo_request = Query" "m_queries demo_request = [demo_question]"
    by (simp_all add: demo_request_def)
  have d: "rv_lists demo_dark = demo_lists" "\<not> use_fakeip demo_dark" "length (cr_rules (rv_core demo_dark)) = 1"
    "rule_has (rv_core demo_dark) [''news''] 0" "\<not> core_carries (rv_core demo_dark) 0"
    by (simp_all add: demo_dark_core demo_new_def Resolver_new_def use_fakeip_def rule_has_def get_def
        core_carries_def core_reasons_def core_current_def reasons_any_def)
  have "refused_type (q_type demo_question) = False" by (simp add: refused_type_def demo_question_def)
  then show ?thesis
    using refused_name [of demo_env demo_query demo_request demo_question demo_dark "[''news'']" 0 demo_world] d q demo_plan
    by simp
qed

text \<open>A name no list has goes to the router, and only there: the answer is the router's, or
  a failure when there is none, or no router; whatever else changes, the other tasks do.\<close>

theorem unlisted_name:
  assumes "from_vec (en_lib env) query = Some req" "m_type req = Query" "m_queries req = [q]"
    and "plan (rv_lists r) (normalize (q_name q)) = Plan_Network"
  shows "handle env query r w =
    (case rv_upstream r of
       None \<Rightarrow> (reply (to_vec (en_lib env)) req ServFail, r, w)
     | Some up \<Rightarrow>
         (case exchange (en_net env) up query (rv_limit r) w of
            (Inr b, w1) \<Rightarrow> (Some b, en_others env (r, w1))
          | (Inl e, w1) \<Rightarrow> (reply (to_vec (en_lib env)) req ServFail, en_others env (r, w1))))"
  using assms
  by (simp add: handle_def handle_request_def forward_def await_exchange_def answer_bytes_def
      split: option.split sum.split prod.split)

theorem unlisted_name_witness:
  "handle demo_env demo_query (demo_ready\<lparr>rv_lists := Lists_default\<rparr>) demo_world =
    (Some demo_answer, demo_ready\<lparr>rv_lists := Lists_default\<rparr>, demo_world)"
proof -
  have n: "normalize ''www.example.org.'' = ''www.example.org''" "normalize ''www.example.org'' = ''www.example.org''"
    by code_simp+
  have p: "plan Lists_default (normalize (q_name demo_question)) = Plan_Network"
    by (simp add: demo_question_def n plan_def FIREFOX_CANARY_def match_domain_def match_loop.simps Lists_default_def)
  have q: "m_type demo_request = Query" "m_queries demo_request = [demo_question]"
    by (simp_all add: demo_request_def)
  show ?thesis
    using unlisted_name [of demo_env demo_query demo_request demo_question "demo_ready\<lparr>rv_lists := Lists_default\<rparr>" demo_world]
    by (simp add: p q demo_exchange)
qed

section \<open>The life of a resolver\<close>

text \<open>C8: the invariant of the resolver. In every state reached from a new one, by any sequence of its
  operations, hosts and subnets have one entry each and belong to rules there are, a rule's tunnel
  is one of its own, the lists are well formed, and once stopped no route is on the books.\<close>

theorem resolver_invariant:
  assumes "lists_ok l" "rv_run krn (Resolver_new l rules links dns routes pf limit) r"
  shows "resolver_ok r"
  by (rule ok_run [OF assms(2) ok_new [OF assms(1)]])

theorem resolver_invariant_witness: "resolver_ok demo_ready"
  by (rule resolver_invariant [OF demo_lists_ok demo_ready_run [unfolded demo_new_def]])

text \<open>A query, an expiry and a synchronisation of the packet filter do nothing to the resolver
  but its operations, in whatever way the other tasks run between their waits: each is a run of
  steps when what the others do is one.\<close>

theorem tasks_are_runs:
  assumes "env_ok env"
  shows "rv_run (en_kernel env) r (fst (snd (handle env query r w))) \<and>
    rv_run (en_kernel env) r (fst (snd (expire env unix window r w))) \<and>
    rv_run (en_kernel env) r (fst (snd (sync_pf env r w)))"
  using handle_run [OF assms] expire_run [OF assms] sync_pf_run [OF assms]
  by (metis prod.collapse)

theorem tasks_are_runs_witness:
  "rv_run demo_kernel demo_ready (fst (snd (handle demo_env demo_query demo_ready demo_world))) \<and>
    rv_run demo_kernel demo_ready (fst (snd (expire demo_env 5000 60 demo_ready demo_world))) \<and>
    rv_run demo_kernel demo_ready (fst (snd (sync_pf demo_env demo_ready demo_world)))"
  using tasks_are_runs [OF demo_env_ok, unfolded demo_env_fields] by blast

text \<open>C7: nothing is left behind. With a kernel that fails no request, \<open>remove_all\<close> leaves no route
  in the kernel that was not there when the resolver was made, whatever it did in between.\<close>

theorem no_route_left:
  assumes "kernel_obeys krn tbl" "lists_ok l"
    and "rv_run krn (Resolver_new l rules links dns routes pf limit) r"
    and "tbl (sock (rv_routes (snd (remove_all krn r)))) k \<noteq> None"
  shows "tbl (sock routes) k \<noteq> None"
proof -
  let ?new = "Resolver_new l rules links dns routes pf limit"
  have "accounted tbl {k. tbl (sock routes) k \<noteq> None} ?new"
    by (rule accountedI) (simp add: Resolver_new_def)
  from accounted_remove_all [OF assms(1) accounted_run [OF assms(1,3) ok_new [OF assms(2)] this] assms(4)]
  show ?thesis by simp
qed

theorem no_route_left_witness:
  "hm_get (sock (rv_routes demo_ready)) (route_key (Subnet (ip4 203 0 114 0) 24)) = Some 17 \<and>
    hm_get (sock (rv_routes (snd (remove_all demo_kernel demo_ready)))) (route_key (Subnet (ip4 203 0 114 0) 24)) = None"
  using no_route_left [OF demo_kernel_obeys demo_lists_ok demo_ready_run [unfolded demo_new_def],
      of "route_key (Subnet (ip4 203 0 114 0) 24)"]
  by (cases "hm_get (sock (rv_routes (snd (remove_all demo_kernel demo_ready)))) (route_key (Subnet (ip4 203 0 114 0) 24))")
    (simp_all add: demo_routes_def)

text \<open>A resolver that took its routes back stays stopped: no operation after \<open>remove_all\<close>, the
  answers to queries included, makes or moves a route again.\<close>

theorem stopped_for_good:
  assumes "resolver_ok r" "rv_run krn (snd (remove_all krn r)) r'"
  shows "cr_stopped (rv_core r') \<and> rv_routes r' = rv_routes (snd (remove_all krn r))"
  by (rule stopped_run [OF assms(2) ok_remove_all [OF assms(1)]]) (simp add: remove_all_core)

theorem stopped_for_good_witness:
  "rv_routes (snd (route_host demo_kernel 7 (ip4 203 0 115 9) 0 (snd (remove_all demo_kernel demo_ready))))
    = rv_routes (snd (remove_all demo_kernel demo_ready))"
  using stopped_for_good [OF demo_ready_ok r_into_rtranclp [of "rv_step demo_kernel", OF step_route]] by blast

section \<open>Reconciling\<close>



text \<open>C17: \<open>place_subnets\<close> leaves on the books only subnets that are wanted: of a rule that has them
  and a target for them, and holding no tunnel server. Each is recorded with its rule and target,
  and was so before or is routed in the kernel into the target's interface. One that is wanted
  is missing only when the kernel failed a request.\<close>

theorem place_subnets_effect:
  assumes "kernel_ok krn tbl" "resolver_ok r" "place_subnets krn (rv_lists r) r = (ms, r')"
  shows "case hm_get (cr_subnets (rv_core r')) s of
      None \<Rightarrow> \<not> kernel_obeys krn tbl \<or>
        \<not> (\<exists>i t. hm_get (core_subnet_owners (rv_core r) (rv_lists r)) s = Some i \<and>
          \<not> list_ex (contains s) (core_endpoints (rv_core r)) \<and> placeable (rv_core r) i = Some t)
    | Some (i, p) \<Rightarrow> \<exists>t. p = target_placed t \<and>
        hm_get (core_subnet_owners (rv_core r) (rv_lists r)) s = Some i \<and>
        \<not> list_ex (contains s) (core_endpoints (rv_core r)) \<and> placeable (rv_core r) i = Some t \<and>
        (hm_get (cr_subnets (rv_core r)) s = Some (i, p) \<or>
         tbl (sock (rv_routes r')) (route_key s) = Some (tg_index t))"
proof -
  have ok: "lists_ok (rv_lists r)" "hm_ok (cr_subnets (rv_core r))"
    using assms(2) by (simp_all add: resolver_ok_def Let_def)
  show ?thesis
  proof (cases "hm_get (cr_subnets (rv_core r')) s")
    case None
    then show ?thesis
      using place_subnets_all [OF _ ok(1) assms(3), of tbl s] by auto
  next
    case (Some v)
    obtain i p where v: "v = (i, p)" by (cases v)
    obtain j t where w: "hm_get (fst (wanted_subnets (rv_core r) (rv_lists r))) s = Some (j, t)"
      "hm_get (cr_subnets (rv_core r')) s = Some (j, target_placed t) \<and>
        (hm_get (cr_subnets (rv_core r)) s = Some (j, target_placed t) \<or>
         tbl (sock (rv_routes r')) (route_key s) = Some (tg_index t))"
      using place_subnets_get [OF assms(1) ok assms(3), of s] Some by (auto split: option.splits)
    with Some v show ?thesis
      using wanted_get [of "rv_core r" "rv_lists r" s j t] by auto
  qed
qed

theorem place_subnets_effect_witness:
  "hm_get (cr_subnets (rv_core (snd (place_subnets demo_kernel demo_lists demo_ready)))) (Subnet_host 5) = None"
proof -
  obtain ms r' where p: "place_subnets demo_kernel (rv_lists demo_ready) demo_ready = (ms, r')" by fastforce
  from place_subnets_effect [OF demo_kernel_ok demo_ready_ok p, of "Subnet_host 5"] p show ?thesis
    by (auto simp: demo_owners Subnet_host_def ip4_def ip_of_octets_def split: option.splits)
qed



section \<open>Keeping the packet filter in line\<close>

text \<open>C25: a synchronisation that succeeds either found the packet filter in line, or gave it the anchor
  of the shape it read with the tables of the state at that time in the files, and put that shape
  on record; whatever else changed, the other tasks did at the waits.\<close>

theorem sync_gives_state:
  assumes "disk_ok (en_os env)" "rv_pf r = Some dir" "sync_pf env r w = (Inr u, r', w')"
    and "en_others env (r, w) = (ra, wa)"
    and "en_others env (ra\<lparr>rv_pf_stale := False\<rparr>, wa) = (rb, wb)"
  shows "(\<not> rv_pf_stale ra \<and> rv_pf_shape ra = Some (resolver_shape ra) \<and> r' = ra \<and> w' = wa) \<or>
    (\<exists>w2 rc. pf_given env dir (resolver_shape ra) rb w2 \<and> en_others env (rb, w2) = (rc, w') \<and>
       r' = rc\<lparr>rv_pf_shape := Some (resolver_shape ra)\<rparr>)"
  by (rule sync_loaded [OF assms])

theorem sync_gives_state_witness:
  "\<exists>w2. pf_given demo_env ''/run'' (resolver_shape demo_ready) (demo_ready\<lparr>rv_pf_stale := False\<rparr>) w2"
proof -
  obtain x r' w' where s: "sync_pf demo_env demo_ready demo_world = (x, r', w')"
    by (cases "sync_pf demo_env demo_ready demo_world") auto
  then obtain u where u: "x = Inr u" using demo_sync [of demo_world] by auto
  have "disk_ok (en_os demo_env)" by (simp add: demo_os_ok)
  from sync_gives_state [OF this _ s [unfolded u], of "''/run''" demo_ready demo_world] show ?thesis
    by (auto simp: demo_ready_eq [THEN arg_cong, where f = rv_pf_stale])
qed

text \<open>After a synchronisation that failed nothing is taken for loaded: the tables are marked stale
  and no shape is on record, so that the next one loads again.\<close>

theorem sync_failure_retries:
  assumes "sync_pf env r w = (Inl e, r', w')"
  shows "rv_pf_stale r' \<and> rv_pf_shape r' = None"
  by (rule sync_failed [OF assms])

theorem sync_failure_retries_witness:
  "rv_pf_stale (fst (snd (sync_pf (demo_env\<lparr>en_os := demo_os (\<lambda>_. Still_running)\<rparr>) demo_ready demo_world)))"
proof -
  obtain x r' w' where s: "sync_pf (demo_env\<lparr>en_os := demo_os (\<lambda>_. Still_running)\<rparr>) demo_ready demo_world = (x, r', w')"
    by (cases "sync_pf (demo_env\<lparr>en_os := demo_os (\<lambda>_. Still_running)\<rparr>) demo_ready demo_world") auto
  with demo_sync_late [of demo_world] obtain e where "x = Inl e" by auto
  with sync_failure_retries [OF s [unfolded this]] s show ?thesis by simp
qed

section \<open>Which rule, which tunnel\<close>

text \<open>C18: a name goes to the first rule in force that has it and carries, through the target of that
  rule; when none carries, the first that has it refuses it; when none has it, no rule answers.\<close>

theorem first_rule_that_carries:
  "core_choose c ls =
    (case List.find (\<lambda>i. rule_has c ls i \<and> core_carries c i) [0..<length (cr_rules c)] of
       Some i \<Rightarrow> Some (pick_through c i)
     | None \<Rightarrow> map_option (pick_refusing c) (List.find (rule_has c ls) [0..<length (cr_rules c)]))"
  by (simp add: core_choose_spec choose_spec_def)

text \<open>A subnet belongs to the first rule in force that has one of the lists it is written in,
  and one that meets the range of fake addresses belongs to nobody.\<close>

theorem subnet_of_first_rule:
  "hm_get (core_subnet_owners c l) s =
    (if overlaps s FAKEIP then None
     else List.find (rule_has c (subnet_lists l s)) [0..<length (cr_rules c)])"
  by (rule subnet_owners_first)

text \<open>C29: the tunnel of a rule. It is one of the rule's, or the one it had, and has an interface.
  While one of its tunnels is good and its own is not waited for, it takes a good one. A good one is
  left only for an earlier one that has been good for the time of return; and there is none only
  when no tunnel of the rule has an interface.\<close>

theorem pick_sound:
  "(case pick order links current now of
      None \<Rightarrow> \<forall>t\<in>set order. \<not> tunnel_has_iface links t
    | Some t \<Rightarrow> (t \<in> set order \<or> current = Some t) \<and> tunnel_has_iface links t \<and>
        ((\<exists>u\<in>set order. tunnel_good links u) \<longrightarrow> tunnel_good links t \<or> (current = Some t \<and> tunnel_waited links t)) \<and>
        (\<forall>c. current = Some c \<and> tunnel_good links c \<and> t \<noteq> c \<longrightarrow>
           t \<in> set (takeWhile (\<lambda>u. u \<noteq> c) order) \<and> tunnel_settled links now t))"
proof (cases "pick order links current now")
  case None
  then show ?thesis using pick_None [OF None] by simp
next
  case (Some t)
  have w: "t = c" if "current = Some c" "tunnel_waited links c" for c
    using Some that by (simp add: pick_def)
  have g: "tunnel_good links t \<or> (current = Some t \<and> tunnel_waited links t)"
    if "u \<in> set order" "tunnel_good links u" for u
  proof (cases "\<exists>c. current = Some c \<and> tunnel_waited links c")
    case True
    then show ?thesis using w by blast
  next
    case False
    then have "\<exists>v. pick order links current now = Some v \<and> tunnel_good links v"
      by (intro pick_good [OF that]) blast
    with Some show ?thesis by auto
  qed
  have s: "t \<in> set (takeWhile (\<lambda>u. u \<noteq> c) order) \<and> tunnel_settled links now t"
    if "current = Some c" "tunnel_good links c" "t \<noteq> c" for c
    using pick_stays [OF that(2) _ Some [unfolded that(1)] that(3)] w [OF that(1)] that(3) by blast
  show ?thesis
    unfolding Some option.case
    using pick_has_iface [OF Some] by (intro conjI impI allI) (use g s in auto)
qed

theorem pick_sound_witness:
  "\<exists>t. pick [0, 1] [LinkState_default, demo_link] (Some 0) 5 = Some t \<and> tunnel_good [LinkState_default, demo_link] t"
proof -
  have g: "tunnel_good [LinkState_default, demo_link] 1" "tunnel_has_iface [LinkState_default, demo_link] 1"
    "\<not> tunnel_waited [LinkState_default, demo_link] 0"
    by (simp_all add: tunnel_good_def tunnel_has_iface_def tunnel_waited_def get_def demo_link_def link_good_def
        LinkState_default_def)
  with pick_sound [of "[0, 1]" "[LinkState_default, demo_link]" "Some 0" 5] show ?thesis
    by (fastforce split: option.splits)
qed

section \<open>Lists\<close>

text \<open>C31: a list added to the others gives its name exactly to the domains under its lines: a name is
  matched by a list when it was before, or the list is the one added and a line of its text that is
  no comment, no subnet and no rejected line is the name or a domain above it.\<close>

theorem match_after_add:
  "n \<in> set (match_domain (Lists_add name txt l) x) \<longleftrightarrow>
    n \<in> set (match_domain l x) \<or>
    n = name \<and> (\<exists>raw d. raw \<in> set (lines txt) \<and> line_domain raw = Some d \<and> covers_name d (normalize x))"
  by (auto simp: match_domain_lists_of lists_of_add split: if_splits)

text \<open>The lists read from a directory are well formed: domains are valid and in normal form, with
  one entry each; subnets have no bits past their prefix, of at most 32; every entry names a list
  that was read, and no list is read twice.\<close>

theorem loaded_lists_ok:
  assumes "load_dir dir = Inr l"
  shows "lists_ok l"
  by (rule lists_ok_load_dir [OF assms])

theorem loaded_lists_ok_witness: "\<exists>l. load_dir [(''news.lst'', Inr ''example.org'')] = Inr l \<and> lists_ok l"
proof -
  obtain l where "load_dir [(''news.lst'', Inr ''example.org'')] = Inr l"
    by (simp add: load_dir_def file_stem_lst_def rsplit_once_def List.map_filter_simps)
  with loaded_lists_ok show ?thesis by blast
qed

text \<open>Two subnets overlap, as the code decides it from their addresses alone, exactly when there is
  an address in both.\<close>

theorem overlaps_common:
  assumes "subnet_wf s" "subnet_wf t"
  shows "overlaps s t \<longleftrightarrow> (\<exists>ip. contains s ip \<and> contains t ip)"
  by (rule overlaps_iff_common [OF assms])

theorem overlaps_common_witness:
  "overlaps FAKEIP (Subnet_host (ip4 198 19 0 1)) \<longleftrightarrow>
    (\<exists>ip. contains FAKEIP ip \<and> contains (Subnet_host (ip4 198 19 0 1)) ip)"
  by (rule overlaps_common [OF subnet_wf_fakeip subnet_wf_host])

section \<open>Settings and state on disk\<close>

text \<open>C30: settings that are taken are well formed - names are file names and distinct, every rule has
  lists and tunnels, each there and once, every list and tunnel is in a rule, sources are addresses
  or paths without \<open>..\<close>, no tunnel's file is used twice - and take over from the file every name,
  condition and reference, in its order.\<close>

theorem settings_sound:
  assumes "parse raw = Inr s"
  shows "settings_wf s \<and> keeps_file raw s"
  using parse_settings_wf [OF assms] parse_keeps_file [OF assms] by blast

theorem settings_sound_witness:
  "\<exists>s. parse \<lparr>raw_watch = None, raw_lists = [\<lparr>rl_name = ''news'', rl_sources = [''news.lst'']\<rparr>],
      raw_tunnels = [\<lparr>rt_name = ''wg'', rt_conf = ''wg.conf''\<rparr>],
      raw_rules = [\<lparr>rr_name = ''abroad'', rr_when = ''!NL'', rr_lists = [''news''], rr_tunnels = [''wg'']\<rparr>]\<rparr> = Inr s
    \<and> settings_wf s"
proof -
  let ?raw = "\<lparr>raw_watch = None, raw_lists = [\<lparr>rl_name = ''news'', rl_sources = [''news.lst'']\<rparr>],
      raw_tunnels = [\<lparr>rt_name = ''wg'', rt_conf = ''wg.conf''\<rparr>],
      raw_rules = [\<lparr>rr_name = ''abroad'', rr_when = ''!NL'', rr_lists = [''news''], rr_tunnels = [''wg'']\<rparr>]\<rparr>"
  have pieces: "name_ok ''news''" "name_ok ''wg''" "name_ok ''abroad''" "When_parse ''!NL'' = Some (Out ''NL'')"
    "source_of ''news.lst'' = Some (File ''news.lst'')" "file_of ''wg.conf'' = Some ''wg.conf''"
    by code_simp+
  obtain s where "parse ?raw = Inr s"
    by (simp add: parse_def check_name_def refs_def pieces List.map_filter_simps)
  with settings_sound [OF this] show ?thesis by blast
qed

text \<open>The state file. The hosts written are the hosts read back: parsing the text of a state gives
  every address its rule and time again, and no other address.\<close>

theorem hosts_round_trip:
  assumes "hosts_ok hosts"
  shows "map_of (parse_hosts (format_hosts hosts)) = map_of hosts"
  by (rule parse_format_map [OF assms])

theorem hosts_round_trip_witness:
  "hm_get (parse_hosts (format_hosts [(ip4 203 0 115 9, \<lparr>ho_rule = ''abroad'', ho_last = 1000\<rparr>)])) (ip4 203 0 115 9)
    = Some \<lparr>ho_rule = ''abroad'', ho_last = 1000\<rparr>"
proof -
  have "hosts_ok [(ip4 203 0 115 9, \<lparr>ho_rule = ''abroad'', ho_last = 1000\<rparr>)]"
    by (simp add: hosts_ok_def host_ok_def) code_simp
  from hosts_round_trip [OF this] show ?thesis by simp
qed

text \<open>A state is saved whole or not at all: after a save that succeeds the file holds the hosts,
  after one that fails, at any step, it holds what it held.\<close>

theorem save_is_atomic:
  assumes "disk_ok os" "with_extension p ''tmp'' \<noteq> p" "hosts_save os p hosts w = (res, w')"
  shows "case res of
      Inr _ \<Rightarrow> os_read os p w' = Inr (format_hosts hosts)
    | Inl _ \<Rightarrow> os_read os p w' = os_read os p w"
  by (rule hosts_save_read [OF assms])

theorem save_is_atomic_witness:
  "os_read (demo_os all_well) ''/var/db/hosts.state''
     (snd (hosts_save (demo_os all_well) ''/var/db/hosts.state'' [] demo_world)) = Inr (format_hosts [])"
proof -
  have t: "with_extension ''/var/db/hosts.state'' ''tmp'' \<noteq> ''/var/db/hosts.state''" by code_simp
  have "fst (hosts_save (demo_os all_well) ''/var/db/hosts.state'' [] demo_world) = Inr ()"
    by (simp add: hosts_save_def demo_os_def demo_world_def Let_def)
  then obtain w' where "hosts_save (demo_os all_well) ''/var/db/hosts.state'' [] demo_world = (Inr (), w')"
    by (metis prod.collapse)
  with save_is_atomic [OF demo_os_ok t this] show ?thesis by simp
qed

section \<open>The routing socket\<close>

text \<open>C37: a message to the kernel says what was asked: read by the layout of the routing messages, it has
  its own length, the type, whether it is of a host, the destination, the interface of the gateway
  where there is one, the mask of a network, and the sequence number.\<close>

theorem route_message_read:
  "read_message (message kind dst ifindex s) =
    Request (of_nat (length (message kind dst ifindex s))) (byte kind) (sn_prefix dst = 32)
      (sn_addr dst) ifindex (if sn_prefix dst = 32 then None else Some (netmask dst)) s"
  by (rule read_message_message)

text \<open>Setting a route that succeeds leaves exactly it changed, to the interface asked for, whether
  it was there before or not; one that fails touches no other route; a delete that succeeds, the
  route being there or not, leaves it away and the others alone.\<close>

theorem set_and_delete:
  assumes "kernel_ok krn tbl" "RouteSocket_set krn r d i = (res, r')" "RouteSocket_delete krn r d = (gone, r2)"
  shows "(case res of
        Inr _ \<Rightarrow> tbl (sock r') = (tbl (sock r))(route_key d \<mapsto> i)
      | Inl _ \<Rightarrow> (\<forall>x. x \<noteq> route_key d \<longrightarrow> tbl (sock r') x = tbl (sock r) x)) \<and>
    (case gone of
        Inr _ \<Rightarrow> tbl (sock r2) = (tbl (sock r))(route_key d := None)
      | Inl _ \<Rightarrow> tbl (sock r2) = tbl (sock r))"
  using set_table [OF assms(1,2)] delete_table [OF assms(1,3)] by blast

theorem set_and_delete_witness:
  "map_of (sock (snd (RouteSocket_set demo_kernel demo_routes (Subnet_host 5) 21))) (route_key (Subnet_host 5)) = Some 21"
proof -
  obtain x r' y r2 where s: "RouteSocket_set demo_kernel demo_routes (Subnet_host 5) 21 = (x, r')"
      "RouteSocket_delete demo_kernel demo_routes (Subnet_host 5) = (y, r2)"
    by (cases "RouteSocket_set demo_kernel demo_routes (Subnet_host 5) 21";
        cases "RouteSocket_delete demo_kernel demo_routes (Subnet_host 5)") auto
  have "fst (RouteSocket_set demo_kernel demo_routes (Subnet_host 5) 21) \<in> range Inr"
    by (simp add: demo_set)
  with s obtain out where "x = Inr out" by auto
  with set_and_delete [OF demo_kernel_ok s] s show ?thesis by simp
qed

section \<open>The tasks\<close>







section \<open>The service and its commands\<close>



text \<open>C23: an installation that is refused - not as root, settings or tunnels that cannot be taken, a source
  that is missing, unreadable or bad - changes no file: whatever could be read before reads the same,
  the settings and the service of an installation that is there among it.\<close>

theorem refused_installation:
  assumes "install i src w = Some (Inl e, w')" "refusal e" "disk_ok (in_os i)" "programs_keep (in_os i) p"
  shows "os_read (in_os i) p w' = os_read (in_os i) p w"
  by (rule refused_unchanged [OF assms])

theorem refused_installation_witness:
  "\<exists>w'. install demo_inst demo_src demo_installed = Some (Inl (Cannot_load (Settings_unread NotFound)), w') \<and>
    os_read (in_os demo_inst) PLIST w' = Inr plist"
proof -
  obtain w' where "install demo_inst demo_src demo_installed = Some (Inl (Cannot_load (Settings_unread NotFound)), w')"
    using demo_refused by blast
  moreover from refused_installation [OF this]
  have "os_read (in_os demo_inst) PLIST w' = os_read (in_os demo_inst) PLIST demo_installed"
    by (simp add: demo_inst_fields demo_os_ok demo_keeps)
  ultimately show ?thesis by (auto simp: demo_inst_fields demo_os_def demo_installed_def)
qed

text \<open>C27: the commands end. With a clock that goes on while programs and queries run, and sleeps that take
  their time, every wait for the daemon - to exit, to answer, to confirm - comes to an end, and so do
  \<open>install\<close>, \<open>uninstall\<close>, \<open>on\<close> and \<open>off\<close>, with a result or an error.\<close>

theorem commands_finish:
  assumes "clock_ok i"
  shows "\<exists>r1 r2 r3 r4. install i src w = Some r1 \<and> uninstall i w = Some r2 \<and> turn_on i w = Some r3 \<and>
    turn_off i w = Some r4"
  using commands_end [OF assms, unfolded ends_def] by blast

theorem commands_finish_witness:
  "\<exists>r. turn_off demo_inst demo_installed = Some r"
  using commands_finish [OF demo_clock, of demo_src demo_installed] by blast

text \<open>C28: the answers on a TCP connection. Whatever bytes a client sends, the frames written back are the
  answers to its first queries, one each and in their order, none longer than its length field can
  say; and with a client that takes them, every whole query is answered up to the first that has no
  answer.\<close>

theorem tcp_answers_in_order:
  assumes "taken \<longrightarrow> (\<forall>b w. fst (put_all b w))"
  shows "answers_in_order env inp (fst (serve_tcp env put_all inp r w)) taken"
  by (rule tcp_in_order [OF assms])

theorem tcp_answers_in_order_witness:
  "answers_in_order demo_env (frame demo_query @ frame demo_query)
     (fst (serve_tcp demo_env (\<lambda>b w. (True, w)) (frame demo_query @ frame demo_query) demo_ready demo_world)) True"
  by (rule tcp_answers_in_order) simp


section \<open>Links\<close>







text \<open>C32: a cut. With samples in the order of time, the trimmed samples show a cut exactly when the newest of
  all the samples that is as old as the window has received as many packets as now and sent three
  fewer.\<close>

theorem cut_detected:
  assumes "sorted (map fst xs)"
  shows "is_cut now rx tx (drop_old now xs) \<longleftrightarrow>
    (\<exists>at rx0 tx0. newest_old now xs = Some (at, rx0, tx0) \<and> rx = rx0 \<and> CUT_PACKETS \<le> tx - tx0)"
  by (rule cut_iff [OF assms])

theorem cut_detected_witness:
  "is_cut (from_secs 9) 10 26 (drop_old (from_secs 9)
      [(from_secs 2, 9, 20), (from_secs 4, 10, 22), (from_secs 7, 10, 24)]) \<and>
    \<not> is_cut (from_secs 9) 10 24 (drop_old (from_secs 9)
      [(from_secs 2, 9, 20), (from_secs 4, 10, 22), (from_secs 7, 10, 24)])"
  using cut_detected [of "[(from_secs 2, 9, 20), (from_secs 4, 10, 22), (from_secs 7, 10, 24)]"
      "from_secs 9" 10 26]
    cut_detected [of "[(from_secs 2, 9, 20), (from_secs 4, 10, 22), (from_secs 7, 10, 24)]"
      "from_secs 9" 10 24]
  by (simp add: newest_old_def CUT_WINDOW_def CUT_PACKETS_def)



section \<open>Tunnels\<close>



text \<open>C33: what \<open>awg setconf\<close> is given. The file made of a configuration, with the address of the server in
  place of its name, reads back, by the same parser, to the same lines, the server's address and
  port, and nothing for awg-quick.\<close>

theorem setconf_round_trip:
  assumes "Conf_parse txt = Inr c"
  shows "\<exists>s. conf_loop (lines (setconf c ip)) conf_start = Inr s \<and> cs_lines s = cf_lines c \<and>
    cs_endpoint s = Some (show_ip ip, cf_port c) \<and> cs_ignored s = [] \<and> cs_address s = None"
  by (rule setconf_reread [OF assms])

theorem setconf_round_trip_witness:
  "\<exists>c s. Conf_parse demo_conf_text = Inr c \<and> conf_loop (lines (setconf c (ip4 192 0 3 7))) conf_start = Inr s \<and>
    cs_endpoint s = Some (show_ip (ip4 192 0 3 7), cf_port c)"
  using demo_conf_parsed setconf_round_trip by metis

text \<open>The files of the tunnels. When a start takes them, there is one for every tunnel of the settings,
  in their order, each what its file says, and no two have the same address.\<close>

theorem tunnel_files_sound:
  assumes "load_confs os st base w = Inr cs"
  shows "distinct (map cf_address cs) \<and>
    list_all2 (\<lambda>t c. \<exists>txt. os_read os (path_join base (t_conf t)) w = Inr txt \<and> Conf_parse txt = Inr c) (s_tunnels st) cs"
  using load_confs_ok [OF assms] by (simp add: conf_of_file_def [abs_def])

theorem tunnel_files_sound_witness:
  "\<exists>c. load_confs (demo_os all_well) demo_settings ''/etc'' (demo_world\<lparr>wd_files := [(''/etc/wg.conf'', demo_conf_text)]\<rparr>) = Inr [c]
    \<and> Conf_parse demo_conf_text = Inr c"
proof -
  obtain c where c: "Conf_parse demo_conf_text = Inr c" using demo_conf_parsed by blast
  let ?w = "demo_world\<lparr>wd_files := [(''/etc/wg.conf'', demo_conf_text)]\<rparr>"
  have l: "load_confs (demo_os all_well) demo_settings ''/etc'' ?w = Inr [c]"
    by (simp add: load_confs_def demo_settings_def demo_os_def path_join_def c)
  from tunnel_files_sound [OF this] l c show ?thesis by simp
qed

section \<open>The daemon\<close>

text \<open>C14: a restart. A daemon started with the rules of the one that saved its hosts has every one of them
  again, with its rule and the time of its last answer, not routed yet; and besides only the addresses
  the packet filter still holds, under their rule, as of now.\<close>

theorem restart_keeps_hosts:
  assumes "saved_here st r" "Pf_held_hosts os (length (s_rules st)) w = (pfh, w1)"
    "hosts_to_restore os st (parse_hosts (format_hosts (hosts_snapshot r))) now w = (hosts, w')"
  shows "hm_get (cr_hosts (rv_core (start_resolver b st confs dns routes dir limit c hosts))) ip =
    (case hm_get (cr_hosts (rv_core r)) ip of
       Some h \<Rightarrow> Some (h\<lparr>h_placed := None\<rparr>)
     | None \<Rightarrow> map_option (\<lambda>i. \<lparr>h_rule = i, h_last = now, h_placed = None\<rparr>) (map_of (map prod.swap pfh) ip))"
  by (rule restart_hosts [OF assms held_bound [OF assms(2)]])

theorem restart_keeps_hosts_witness:
  "\<exists>hosts w. hosts_to_restore (demo_os all_well) demo_settings (parse_hosts (format_hosts (hosts_snapshot demo_held))) 2000 demo_world
      = (hosts, w) \<and>
    hm_get (cr_hosts (rv_core (start_resolver Built_default demo_settings [demo_conf] (ip4 1 1 1 1) \<lparr>sock = [], seq = 0\<rparr>
      ''/run'' (from_secs 3) demo_country hosts))) (ip4 203 0 115 9)
      = Some \<lparr>h_rule = 0, h_last = 1000, h_placed = None\<rparr>"
proof -
  obtain hosts w where h: "hosts_to_restore (demo_os all_well) demo_settings
      (parse_hosts (format_hosts (hosts_snapshot demo_held))) 2000 demo_world = (hosts, w)" by fastforce
  have n: "length (s_rules demo_settings) = 1" by (simp add: demo_settings_def demo_rules_def)
  have "hm_get (cr_hosts (rv_core (start_resolver Built_default demo_settings [demo_conf] (ip4 1 1 1 1) \<lparr>sock = [], seq = 0\<rparr>
      ''/run'' (from_secs 3) demo_country hosts))) (ip4 203 0 115 9) = Some \<lparr>h_rule = 0, h_last = 1000, h_placed = None\<rparr>"
    unfolding restart_keeps_hosts [OF demo_saved_here _ h, unfolded n, OF demo_no_held] by (simp add: demo_held_hosts)
  with h show ?thesis by blast
qed

text \<open>C13: what is held stays held over a restart. A stop that can write the file of the hosts leaves in it
  every host there is when the links have stopped; the next start has each of them under its rule and
  with its time before it serves, and a packet to one whose rule is in force is dropped by the anchor
  and the tables of that start, as no tunnel is there yet.\<close>

theorem hosts_held_over_restart:
  assumes "disk_ok (se_os se)" "state_file_ours (se_we se) (wt_state_path k)"
    "state_file_apart (wt_dir k) (wt_state_path k)" "rv_pf r1 \<in> {None, Some (wt_dir k)}"
    and "stop_links (se_we se) (snd (stop_dns (se_we se) (k, r, w))) = (k1, r1, w1)"
      "watch_stop (se_we se) (k, r, w) = (k', r', w')"
    and "os_read (se_os se) (wt_state_path k) v = os_read (se_os se) (wt_state_path k) w'"
      "hosts_load (se_os se) (wt_state_path k) v = Inr (lf_saved lf)"
      "saved_here (lf_settings lf) r1" "lists_ok (bl_lists (lf_built lf))"
    and "switch_on se cfg lf u = (Inr (c, r2), u')" "hm_get (cr_hosts (rv_core r1)) ip = Some h"
  shows "hm_get (cr_hosts (rv_core r2)) ip = Some (h\<lparr>h_placed := None\<rparr>) \<and>
    (pf_documented ev \<and> pkt_dst p = ip \<and> rule_in_force r2 (h_rule h) \<and> \<not> exempt (resolver_shape r2) p \<longrightarrow>
      ev (anchor (resolver_shape r2)) (loaded (resolver_tables r2)) p = Some Drop)"
proof -
  have "os_read (se_os se) (wt_state_path k) w' = Inr (format_hosts (hosts_snapshot r1))"
    using stop_saves [OF assms(1) [unfolded se_os_def] assms(2-6)] by (simp add: remove_all_snapshot se_os_def)
  with assms(7,8) have "lf_saved lf = parse_hosts (format_hosts (hosts_snapshot r1))" by (simp add: hosts_load_def)
  note h = restart_has [OF assms(1,9) this assms(11,12)]
  with start_drops [OF assms(1,10,11), of p] show ?thesis by (auto simp: pf_documented_def)
qed

theorem hosts_held_over_restart_witness:
  "\<exists>w1 c r u. os_read (se_os demo_se) ''/run/hosts.state'' w1 = Inr (format_hosts (hosts_snapshot demo_held)) \<and>
    switch_on demo_se demo_cfg demo_reloaded w1 = (Inr (c, r), u) \<and>
    hm_get (cr_hosts (rv_core r)) (ip4 203 0 115 9) = Some \<lparr>h_rule = 0, h_last = 1000, h_placed = None\<rparr>"
proof -
  let ?we = "se_we demo_se"
  obtain k1 v1 where s: "stop_links ?we (snd (stop_dns ?we (demo_watch, demo_held, demo_world))) = (k1, demo_held, v1)"
    using demo_stops by blast
  obtain k r w where t: "watch_stop ?we (demo_watch, demo_held, demo_world) = (k, r, w)" by (metis prod.collapse)
  obtain c r2 u where on: "switch_on demo_se demo_cfg demo_reloaded w = (Inr (c, r2), u)" using demo_switch by blast
  have path: "wt_state_path demo_watch = ''/run/hosts.state''" by (simp add: demo_watch_def Watch_new_def Let_def)
  have d: "disk_ok (se_os demo_se)" by (simp add: demo_se_os demo_os_ok)
  have pf: "rv_pf demo_held \<in> {None, Some (wt_dir demo_watch)}"
    by (simp add: demo_held_def load_hosts_def Let_def demo_ready_eq demo_watch_def Watch_new_def demo_dirs)
  have saved: "os_read (se_os demo_se) (wt_state_path demo_watch) w = Inr (format_hosts (hosts_snapshot demo_held))"
    using stop_saves [OF d [unfolded se_os_def] demo_state_ours demo_state_apart pf s t]
    by (simp add: remove_all_snapshot se_os_def)
  then have l: "hosts_load (se_os demo_se) (wt_state_path demo_watch) w = Inr (lf_saved demo_reloaded)"
    by (simp add: hosts_load_def demo_reloaded_def)
  have st: "saved_here (lf_settings demo_reloaded) demo_held" "lists_ok (bl_lists (lf_built demo_reloaded))"
    using demo_saved_here by (simp_all add: demo_reloaded_def demo_loaded_def Built_default_def lists_ok_def Lists_default_def)
  have "hm_get (cr_hosts (rv_core r2)) (ip4 203 0 115 9) = Some \<lparr>h_rule = 0, h_last = 1000, h_placed = None\<rparr>"
    using conjunct1 [OF hosts_held_over_restart [OF d demo_state_ours demo_state_apart pf s t refl l st on]]
    by (simp add: demo_held_hosts)
  with saved on path show ?thesis by auto
qed

text \<open>C21: the rules in force are those of the country. A start puts in force exactly the rules that hold in
  the country it knows, and following the country - the owner's word, an answer of the services - keeps
  it so whatever was read or answered.\<close>

theorem rules_of_the_country:
  "rules_follow c (start_resolver b st confs dns routes dir limit c hosts) \<and>
    (rules_follow (wt_country k) r \<longrightarrow>
      rules_follow (wt_country (fst (follow_country we (k, r, w)))) (fst (snd (follow_country we (k, r, w)))))"
  using start_rules_follow rules_follow_country by (metis prod.collapse)

theorem rules_of_the_country_witness:
  "rules_follow (wt_country (fst (follow_country demo_we (demo_watch, demo_ready, demo_world))))
    (fst (snd (follow_country demo_we (demo_watch, demo_ready, demo_world))))"
proof -
  have "rules_follow (wt_country demo_watch) demo_ready"
    using demo_rules_follow by (simp add: demo_watch_def Watch_new_def Let_def)
  then show ?thesis by (rule conjunct2 [OF rules_of_the_country, THEN mp])
qed

text \<open>C35: the country over a restart. What the owner said is what a start goes by, before the services; what
  the services said, with the time, is what it has otherwise.\<close>

theorem country_remembered:
  assumes "disk_ok (we_os we)" "length code = 2" "list_all is_upper code"
  shows "(owner_country (we_os we) state (Some code) w = (Inr (), w') \<longrightarrow>
      Country_now (Country_load (we_os we) (dir_of state) w') = (code, ''owner'')) \<and>
    (as_country a = Some code \<and> we_unix we w < 2 ^ 64 \<and>
      take_country we a (wt_network k) w k = (k', v) \<and>
      fst (os_write (we_os we) (path_join (wt_dir k) COUNTRY_SEEN) (code @ '' '' @ show_nat (we_unix we w) @ [NL]) w) = Inr () \<longrightarrow>
      cn_seen (Country_load (we_os we) (wt_dir k) v) = cn_seen (wt_country k'))"
  using owner_country_load [OF assms] take_country_load(1) [OF assms(1) _ assms(2,3)] by blast

theorem country_remembered_witness:
  "Country_now (Country_load (we_os demo_we) (dir_of ''/run/hosts.state'')
    (snd (owner_country (we_os demo_we) ''/run/hosts.state'' (Some ''FR'') demo_world))) = (''FR'', ''owner'')"
proof -
  have os: "we_os demo_we = demo_os all_well" by (simp add: we_os_def demo_we_env demo_env_def)
  have ok: "disk_ok (we_os demo_we)" by (simp add: os demo_os_ok)
  have up: "list_all is_upper ''FR''" by code_simp
  obtain w' where w: "owner_country (we_os demo_we) ''/run/hosts.state'' (Some ''FR'') demo_world = (Inr (), w')"
    by (simp add: os owner_country_def write_private_def demo_os_def)
  with country_remembered [OF ok _ up, of "''/run/hosts.state''" demo_world w'] show ?thesis by simp
qed

section \<open>The DNS of the Mac, sources, journal\<close>



text \<open>C26: a list is not lost with its source. Once a file was read and its copy written, no build takes the
  copy's list away, and wherever it is still there the file is read from it when it cannot be read
  itself.\<close>

theorem copy_stands_in:
  assumes "disk_ok os" "os_read os (path_join base rel) w = Inr body" "good_list body"
    "read_file os rel base cache w = (Inr (body, False), w1)"
    "fst (write_cache os (cache_file cache (file_key rel)) body w) = Inr ()"
    "copy_kept os (cache_file cache (file_key rel)) w1 w2" "os_read os (path_join base rel) w2 = Inl e"
  shows "(\<exists>body'. read_file os rel base cache w2 = (Inr (body', True), w2) \<and> good_list body') \<and>
    copy_kept os (cache_file cache (file_key rel)) w1 (snd (Updater_build os u w1))"
proof
  let ?copy = "cache_file cache (file_key rel)"
  have "w1 = snd (write_cache os ?copy body w)"
    using assms(2-4) by (auto simp: read_file_def good_list_def Let_def)
  then have "os_read os ?copy w1 = Inr body"
    using write_cache_read(1) [OF assms(1), of cache "file_key rel" body w] assms(5)
    by (cases "write_cache os ?copy body w") auto
  with assms(3,6) obtain body' where "os_read os ?copy w2 = Inr body'" "good_list body'"
    by (auto simp: copy_kept_def)
  with assms(7) show "\<exists>body'. read_file os rel base cache w2 = (Inr (body', True), w2) \<and> good_list body'"
    by (simp add: read_file_def Let_def)
  show "copy_kept os ?copy w1 (snd (Updater_build os u w1))"
    using build_loop_kept [OF assms(1)] by (metis Updater_build_def build_def prod.collapse)
qed

theorem copy_stands_in_witness:
  "\<exists>body. read_file (demo_os all_well) ''news.lst'' ''/etc'' ''/run/sources'' demo_world_gone = (Inr (body, True), demo_world_gone)
    \<and> good_list body"
  by (rule exE [OF conjunct1 [OF copy_stands_in [OF demo_os_ok demo_read_there demo_list_good demo_read_copied(1)
        demo_read_copied(2) demo_gone(1,2)]]]) blast

text \<open>C39: what is due is fetched. When nothing is being fetched and an address is due, a task starts for
  exactly the addresses that are due, and each of them is due again after the pause of a failure;
  when none is, none starts.\<close>

theorem due_is_fetched:
  assumes "hm_ok (ud_due u)" "ud_task u = None"
  shows "case ud_task (start_due now tun u) of
      None \<Rightarrow> \<forall>x at. hm_get (ud_due u) x = Some at \<longrightarrow> now < at
    | Some (due, t) \<Rightarrow> t = tun \<and> due \<noteq> [] \<and> (\<forall>x. x \<in> set due \<longleftrightarrow> (\<exists>at. hm_get (ud_due u) x = Some at \<and> at \<le> now)) \<and>
        (\<forall>x. hm_get (ud_due (start_due now tun u)) x =
          (if x \<in> set due then Some (now + RETRY) else hm_get (ud_due u) x))"
  by (rule start_due_task [OF assms])

theorem due_is_fetched_witness:
  "\<exists>due. ud_task (start_due 5 None (demo_updater\<lparr>ud_due := [(''https://a.org/l'', 4), (''https://b.org/l'', 6)]\<rparr>)) = Some (due, None) \<and>
    set due = {''https://a.org/l''}"
  using due_is_fetched [of "demo_updater\<lparr>ud_due := [(''https://a.org/l'', 4), (''https://b.org/l'', 6)]\<rparr>" 5 None]
  by (auto simp: start_due_def demo_updater_def Updater_new_def Let_def)

text \<open>C38: the journal counts every event. After any sequence of calls, for every kind of burst the lines
  written stand for, and the open bursts hold, together as many events as were told; a flush past the
  end of a burst leaves none unwritten.\<close>

theorem journal_counts_all:
  "told k (journal_run ops Journal_open) + waiting k (journal_run ops Journal_open) = burst_calls k ops \<and>
    ((\<forall>until n. hm_get (jn_bursts (journal_run ops Journal_open)) k = Some (until, n) \<longrightarrow> until \<le> now) \<longrightarrow>
      waiting k (flush now (journal_run ops Journal_open)) = 0)"
  using journal_counts [of Journal_open k ops] flush_all [OF journal_ok_run [of Journal_open ops], of k now]
  by (simp add: Journal_open_def told_def waiting_def)

theorem journal_counts_all_witness:
  "waiting ''dns-fail'' (flush (from_secs 11) (journal_run [Op_burst 0 ''dns-fail'' ''a'', Op_burst 5 ''dns-fail'' ''b''] Journal_open)) = 0"
proof -
  let ?ops = "[Op_burst 0 ''dns-fail'' ''a'', Op_burst 5 ''dns-fail'' ''b'']"
  have "\<forall>until n. hm_get (jn_bursts (journal_run ?ops Journal_open)) ''dns-fail'' = Some (until, n) \<longrightarrow> until \<le> from_secs 11"
    by (simp add: journal_run_def burst_def Journal_open_def journal_write_def BURST_def)
  with journal_counts_all [of "''dns-fail''" ?ops "from_secs 11"] show ?thesis by blast
qed

end
